(* ===== verification/Axiom_Prelude.thy ===== *)
theory Axiom_Prelude
  imports Main "HOL-Library.Word" "HOL-Library.Monad_Syntax"
begin

text \<open>
  Shared vocabulary of the development: the machine types of the kernel, Rust's checked
  arithmetic, byte-slice operations, the byte encodings of integers, splitting into
  fixed-size chunks, and the branch-free comparison loop that every tag check uses.

  Panics. The kernel is built with the \<open>dev\<close> profile, so an integer overflow, an index
  out of range and a failed \<open>unwrap\<close> all panic, and the workspace sets
  \<open>panic = "abort"\<close>. An operation that can panic has a result of type
  \<open>'a panics\<close>; \<open>None\<close> is the panic (or a loop that never returns), and a
  theorem that says \<open>= Some x\<close> says that the code returns.
\<close>

unbundle bit_operations_syntax

type_synonym u8 = "8 word"
type_synonym u16 = "16 word"
type_synonym u32 = "32 word"
type_synonym u64 = "64 word"
type_synonym u128 = "128 word"
type_synonym bytes = "u8 list"
type_synonym 'a panics = "'a option"

named_theorems byte_simps "lengths and round trips of byte encodings"
named_theorems ret_simps "calls that return: they neither panic nor diverge"

section \<open>Checked arithmetic\<close>

text \<open>Rust's \<open>a + b\<close> and \<open>a * b\<close> on unsigned integers with overflow checks, and
  \<open>overflowing_add\<close>, \<open>overflowing_sub\<close>, \<open>saturating_sub\<close>.\<close>

definition add_chk :: "'a::len word \<Rightarrow> 'a word \<Rightarrow> 'a word panics" where
  "add_chk a b = (if unat a + unat b < 2 ^ LENGTH('a) then Some (a + b) else None)"

definition mul_chk :: "'a::len word \<Rightarrow> 'a word \<Rightarrow> 'a word panics" where
  "mul_chk a b = (if unat a * unat b < 2 ^ LENGTH('a) then Some (a * b) else None)"

definition sub_chk :: "'a::len word \<Rightarrow> 'a word \<Rightarrow> 'a word panics" where
  "sub_chk a b = (if b \<le> a then Some (a - b) else None)"

definition overflowing_add :: "'a::len word \<Rightarrow> 'a word \<Rightarrow> 'a word \<times> bool" where
  "overflowing_add a b = (a + b, 2 ^ LENGTH('a) \<le> unat a + unat b)"

definition overflowing_sub :: "'a::len word \<Rightarrow> 'a word \<Rightarrow> 'a word \<times> bool" where
  "overflowing_sub a b = (a - b, a < b)"

definition saturating_sub :: "'a::len word \<Rightarrow> 'a word \<Rightarrow> 'a word" where
  "saturating_sub a b = (if a < b then 0 else a - b)"

lemma add_chk_eq_Some:
  "add_chk a b = Some c \<longleftrightarrow> unat a + unat b < 2 ^ LENGTH('a) \<and> c = a + b"
  for a b c :: "'a::len word"
  by (auto simp: add_chk_def)

lemma add_chk_1: "x \<noteq> - 1 \<Longrightarrow> add_chk x 1 = Some (x + 1)" for x :: u64
proof -
  have "unat (- 1 :: u64) = 2 ^ 64 - 1" by (simp add: unsigned_minus_1_eq_mask mask_eq_exp_minus_1)
  moreover assume "x \<noteq> - 1"
  then have "unat x \<noteq> unat (- 1 :: u64)" by (simp only: word_unat_eq_iff) simp
  ultimately have "unat x + 1 < 2 ^ 64" using unsigned_less[of x, where ?'a = nat] by simp
  then show ?thesis by (simp add: add_chk_def)
qed

lemma add_chk_unat: "add_chk a b = Some c \<Longrightarrow> unat c = unat a + unat b"
  for a b c :: "'a::len word"
  by (simp add: add_chk_eq_Some unat_word_ariths)

lemma mul_chk_unat: "mul_chk a b = Some c \<Longrightarrow> unat c = unat a * unat b"
  for a b c :: "'a::len word"
  by (auto simp: mul_chk_def unat_word_ariths split: if_splits)

lemma unat_align_down: "unat (a AND NOT (mask n)) = unat a - unat a mod 2 ^ n" for a :: "'a::len word"
proof -
  have "(a AND NOT (mask n)) AND (a AND mask n) = 0" by (simp add: bit_eq_iff bit_simps)
  then have "(a AND NOT (mask n)) + (a AND mask n) = (a AND NOT (mask n)) OR (a AND mask n)"
    by (rule disjunctive_add_eq_or)
  also have "\<dots> = a" by (auto intro!: bit_eqI simp: bit_simps)
  finally have "a AND NOT (mask n) = a - (a AND mask n)" by (simp add: eq_diff_eq)
  moreover have u: "unat (a AND mask n) = unat a mod 2 ^ n"
    by (simp only: take_bit_eq_mask[symmetric] unsigned_take_bit_eq) (simp add: take_bit_eq_mod)
  moreover have "a AND mask n \<le> a" using u by (simp add: word_le_nat_alt)
  ultimately show ?thesis by (simp add: unat_sub)
qed

lemma unat_overflowing_sum:
  "overflowing_add a b = (s, c) \<Longrightarrow>
     unat s + of_bool c * 2 ^ LENGTH('a) = unat a + unat b"
  for a b s :: "'a::len word"
  by (auto simp: overflowing_add_def unat_plus_if')

lemma unat_overflowing_diff:
  "overflowing_sub a b = (d, c) \<Longrightarrow>
     unat d + unat b = unat a + of_bool c * 2 ^ LENGTH('a)"
  for a b d :: "'a::len word"
  using order.strict_implies_order[OF unsigned_less[of b, where ?'a = nat]]
  by (auto simp: overflowing_sub_def unat_sub_if' word_less_nat_alt trans_le_add2)

section \<open>Slices and arrays\<close>

text \<open>
  An array \<open>[T; n]\<close> is a list of length \<open>n\<close>. \<open>copy_at i src dst\<close> is
  \<open>dst[i..i + src.len()].copy_from_slice(src)\<close> for a range inside \<open>dst\<close>;
  \<open>slice i j xs\<close> is \<open>&xs[i..j]\<close>.
\<close>

definition copy_at :: "nat \<Rightarrow> 'a list \<Rightarrow> 'a list \<Rightarrow> 'a list" where
  "copy_at i src dst = take i dst @ src @ drop (i + length src) dst"

definition slice :: "nat \<Rightarrow> nat \<Rightarrow> 'a list \<Rightarrow> 'a list" where
  "slice i j xs = take (j - i) (drop i xs)"

definition slice_chk :: "nat \<Rightarrow> nat \<Rightarrow> 'a list \<Rightarrow> 'a list panics" where
  "slice_chk i j xs = (if i \<le> j \<and> j \<le> length xs then Some (slice i j xs) else None)"

lemma length_copy_at [simp]:
  "i + length src \<le> length dst \<Longrightarrow> length (copy_at i src dst) = length dst"
  by (simp add: copy_at_def)

text \<open>Serialisers fill a zeroed buffer from left to right.\<close>

lemma copy_at_append: "length a \<le> i \<Longrightarrow> copy_at i src (a @ b) = a @ copy_at (i - length a) src b"
  by (simp add: copy_at_def)

lemma copy_at_replicate:
  "i + length src \<le> n \<Longrightarrow>
   copy_at i src (replicate n z) = replicate i z @ src @ replicate (n - i - length src) z"
  by (simp add: copy_at_def)

lemmas copy_at_fill = copy_at_append copy_at_replicate

lemma take_1_update [simp]: "xs \<noteq> [] \<Longrightarrow> take (Suc 0) (xs[0 := x]) = [x]"
  by (cases xs) auto

lemma nth_copy_at:
  assumes "i + length src \<le> length dst" and "n < length dst"
  shows "copy_at i src dst ! n =
    (if i \<le> n \<and> n < i + length src then src ! (n - i) else dst ! n)"
  using assms by (auto simp: copy_at_def nth_append min_def not_less le_diff_conv)

lemma take_copy_at:
  "i \<le> length dst \<Longrightarrow> take (i + length src) (copy_at i src dst) = take i dst @ src"
  by (simp add: copy_at_def min_def)

lemma slice_copy_at [simp]:
  "i + length src \<le> length dst \<Longrightarrow> slice i (i + length src) (copy_at i src dst) = src"
  by (simp add: copy_at_def slice_def)

lemma length_slice [simp]: "j \<le> length xs \<Longrightarrow> length (slice i j xs) = j - i"
  by (simp add: slice_def)

lemma slice_append:
  "slice i j (xs @ ys) =
     (if j \<le> length xs then slice i j xs
      else if length xs \<le> i then slice (i - length xs) (j - length xs) ys
      else drop i xs @ take (j - length xs) ys)"
  by (auto simp: slice_def)

section \<open>Byte encodings of integers\<close>

text \<open>\<open>le_nat\<close> reads bytes little-endian and \<open>le_bytes n\<close> writes the low \<open>n\<close>
  bytes; \<open>to_le_bytes\<close>, \<open>from_le_bytes\<close> and their big-endian duals are Rust's.\<close>

fun le_nat :: "bytes \<Rightarrow> nat" where
  "le_nat [] = 0"
| "le_nat (b # bs) = unat b + 256 * le_nat bs"

fun le_bytes :: "nat \<Rightarrow> nat \<Rightarrow> bytes" where
  "le_bytes 0 x = []"
| "le_bytes (Suc n) x = word_of_nat x # le_bytes n (x div 256)"

definition to_le_bytes :: "nat \<Rightarrow> 'a::len word \<Rightarrow> bytes" where
  "to_le_bytes n w = le_bytes n (unat w)"

definition from_le_bytes :: "bytes \<Rightarrow> 'a::len word" where
  "from_le_bytes bs = word_of_nat (le_nat bs)"

definition to_be_bytes :: "nat \<Rightarrow> 'a::len word \<Rightarrow> bytes" where
  "to_be_bytes n w = rev (to_le_bytes n w)"

definition from_be_bytes :: "bytes \<Rightarrow> 'a::len word" where
  "from_be_bytes bs = from_le_bytes (rev bs)"

lemma length_le_bytes [simp, byte_simps]: "length (le_bytes n x) = n"
  by (induction n arbitrary: x) auto

lemma le_nat_append: "le_nat (xs @ ys) = le_nat xs + 256 ^ length xs * le_nat ys"
  by (induction xs) (auto simp: algebra_simps)

lemma le_nat_replicate_0 [simp]: "le_nat (replicate n 0) = 0"
  by (induction n) auto

lemma le_nat_less: "le_nat bs < 256 ^ length bs"
proof (induction bs)
  case (Cons b bs)
  have "unat b < 256" using unsigned_less[of b, where ?'a = nat] by simp
  moreover from Cons have "256 * (le_nat bs + 1) \<le> 256 * 256 ^ length bs" by simp
  ultimately show ?case by simp
qed simp

lemma le_nat_le_bytes [byte_simps]: "le_nat (le_bytes n x) = x mod 256 ^ n"
proof (induction n arbitrary: x)
  case (Suc n)
  have "unat (word_of_nat x :: u8) = x mod 256"
    by (simp add: unat_of_nat)
  with Suc show ?case
    by (simp add: mod_mult2_eq ac_simps)
qed simp

lemma le_bytes_map: "le_bytes n x = map (\<lambda>i. word_of_nat (x div 256 ^ i)) [0..<n]"
proof (induction n arbitrary: x)
  case (Suc n)
  then show ?case
    by (simp add: upt_conv_Cons map_Suc_upt[symmetric] div_mult2_eq del: upt_Suc)
qed simp

lemma le_bytes_le_nat [byte_simps]: "le_bytes (length bs) (le_nat bs) = bs"
proof (induction bs)
  case (Cons b bs)
  have b: "unat b < 256" using unsigned_less[of b, where ?'a = nat] by simp
  have "word_of_nat (unat b + 256 * le_nat bs) = (b :: u8)"
    using b by (intro word_unat_eq_iff[THEN iffD2])
      (simp add: unat_of_nat del: of_nat_add of_nat_mult)
  with Cons b show ?case by (simp del: of_nat_add of_nat_mult)
qed simp

lemma le_nat_inject: "length xs = length ys \<Longrightarrow> le_nat xs = le_nat ys \<longleftrightarrow> xs = ys"
  by (metis le_bytes_le_nat)

lemma length_to_le_bytes [simp, byte_simps]: "length (to_le_bytes n w) = n"
  by (simp add: to_le_bytes_def)

lemma length_to_be_bytes [simp, byte_simps]: "length (to_be_bytes n w) = n"
  by (simp add: to_be_bytes_def)

lemma from_le_to_le [byte_simps]:
  "LENGTH('a) \<le> 8 * n \<Longrightarrow> from_le_bytes (to_le_bytes n w) = w" for w :: "'a::len word"
proof -
  assume l: "LENGTH('a) \<le> 8 * n"
  have "unat w < 2 ^ LENGTH('a)" by (rule unsigned_less)
  also have "(2::nat) ^ LENGTH('a) \<le> 2 ^ (8 * n)" using l by (intro power_increasing) auto
  also have "(2::nat) ^ (8 * n) = 256 ^ n" by (simp add: power_mult)
  finally show ?thesis by (simp add: from_le_bytes_def to_le_bytes_def le_nat_le_bytes)
qed

lemma from_be_to_be [byte_simps]:
  "LENGTH('a) \<le> 8 * n \<Longrightarrow> from_be_bytes (to_be_bytes n w) = w" for w :: "'a::len word"
  by (simp add: from_be_bytes_def to_be_bytes_def from_le_to_le)

lemma to_le_bytes_inject:
  "LENGTH('a) \<le> 8 * n \<Longrightarrow> to_le_bytes n v = to_le_bytes n w \<longleftrightarrow> v = w"
  for v w :: "'a::len word"
  by (metis from_le_to_le)

lemma to_be_bytes_inject:
  "LENGTH('a) \<le> 8 * n \<Longrightarrow> to_be_bytes n v = to_be_bytes n w \<longleftrightarrow> v = w"
  for v w :: "'a::len word"
  by (metis from_be_to_be)

text \<open>A byte-string literal \<open>b"..."\<close>.\<close>

definition ascii :: "string \<Rightarrow> bytes" where
  "ascii s = map of_char s"

lemma length_ascii [simp, byte_simps]: "length (ascii s) = length s"
  by (simp add: ascii_def)

section \<open>Chunks\<close>

text \<open>\<open>chunks n xs\<close> cuts \<open>xs\<close> into pieces of \<open>n\<close> elements, the last one possibly
  shorter: the blocks a message is processed in.\<close>

function chunks :: "nat \<Rightarrow> 'a list \<Rightarrow> 'a list list" where
  "chunks n xs = (if n = 0 \<or> xs = [] then [] else take n xs # chunks n (drop n xs))"
  by pat_completeness auto
termination
  by (relation "measure (\<lambda>(n, xs). length xs)") auto

declare chunks.simps [simp del]

lemma chunks_Nil [simp]: "chunks n [] = []"
  by (simp add: chunks.simps)

lemma chunks_short: "0 < length xs \<Longrightarrow> length xs \<le> n \<Longrightarrow> chunks n xs = [xs]"
  by (subst chunks.simps) (cases n; auto)

lemma chunks_append_full:
  "0 < n \<Longrightarrow> n dvd length xs \<Longrightarrow> chunks n (xs @ ys) = chunks n xs @ chunks n ys"
proof (induction n xs rule: chunks.induct)
  case (1 n xs)
  show ?case
  proof (cases "xs = []")
    case False
    with 1 have le: "n \<le> length xs" by (auto intro: dvd_imp_le)
    with 1 False have "n dvd length (drop n xs)" by simp
    with 1 False le have "chunks n (drop n xs @ ys) = chunks n (drop n xs) @ chunks n ys"
      by simp
    with le False \<open>0 < n\<close> show ?thesis
      by (simp add: chunks.simps[of n "xs @ ys"] chunks.simps[of n xs])
  qed simp
qed

lemma concat_chunks [simp]: "0 < n \<Longrightarrow> concat (chunks n xs) = xs"
  by (induction n xs rule: chunks.induct) (simp add: chunks.simps)

lemma length_chunks_full:
  "n dvd length xs \<Longrightarrow> c \<in> set (chunks n xs) \<Longrightarrow> length c = n"
proof (induction n xs rule: chunks.induct)
  case (1 n xs)
  then have ne: "n \<noteq> 0" "xs \<noteq> []" by (auto simp: chunks.simps[of n xs] split: if_splits)
  with 1 have le: "n \<le> length xs" by (auto intro: dvd_imp_le)
  with 1 ne have "n dvd length (drop n xs)" by simp
  with 1 ne le show ?case by (auto simp: chunks.simps[of n xs])
qed

section \<open>Byte-wise XOR and branch-free comparison\<close>

definition xor_bytes :: "bytes \<Rightarrow> bytes \<Rightarrow> bytes" where
  "xor_bytes xs ys = map2 (XOR) xs ys"

text \<open>\<open>let mut diff = 0; for i in 0..n { diff |= a[i] ^ b[i]; }\<close>, the loop of every
  tag comparison in the kernel.\<close>

definition ct_diff :: "nat \<Rightarrow> bytes \<Rightarrow> bytes \<Rightarrow> u8" where
  "ct_diff n a b = foldl (\<lambda>diff i. diff OR (a ! i XOR b ! i)) 0 [0..<n]"

lemma length_xor_bytes [simp]: "length (xor_bytes xs ys) = min (length xs) (length ys)"
  by (simp add: xor_bytes_def)

lemma xor_bytes_cancel: "length xs \<le> length ks \<Longrightarrow> xor_bytes (xor_bytes xs ks) ks = xs"
  by (rule nth_equalityI) (auto simp: xor_bytes_def xor.assoc)

lemma word_xor_eq_0: "a XOR b = 0 \<longleftrightarrow> a = b" for a b :: "'a::len word"
  by (metis xor.assoc xor.left_neutral xor_self_eq)

lemma word_or_eq_0: "a OR b = 0 \<longleftrightarrow> a = 0 \<and> b = 0" for a b :: "'a::len word"
  by (auto simp: bit_eq_iff bit_simps)

lemma ct_diff_0: "ct_diff n a b = 0 \<longleftrightarrow> (\<forall>i < n. a ! i = b ! i)"
  by (induction n) (auto simp: ct_diff_def word_or_eq_0 word_xor_eq_0 less_Suc_eq)

lemma ct_diff_0_eq: "length a = n \<Longrightarrow> length b = n \<Longrightarrow> ct_diff n a b = 0 \<longleftrightarrow> a = b"
  by (auto simp: ct_diff_0 intro: nth_equalityI)

lemma ct_diff_0_take:
  "n \<le> length a \<Longrightarrow> n \<le> length b \<Longrightarrow> ct_diff n a b = 0 \<longleftrightarrow> take n a = take n b"
  by (auto simp: ct_diff_0 list_eq_iff_nth_eq)

section \<open>Rings\<close>

text \<open>A ring of \<open>n\<close> slots with a write index is read from the oldest slot on by rotating it.
  Writing the slot under the index drops the oldest element and appends the new one.\<close>

lemma map_nth_rotate:
  "length xs = n \<Longrightarrow> map (\<lambda>i. xs ! ((w + i) mod n)) [0..<n] = rotate w xs"
  by (rule nth_equalityI) (auto simp: nth_rotate)

lemma rotate_push:
  assumes "length xs = n" and "w < n"
  shows "rotate ((w + 1) mod n) (xs[w := x]) = tl (rotate w xs) @ [x]"
proof (rule nth_equalityI)
  fix i assume "i < length (rotate ((w + 1) mod n) (xs[w := x]))"
  then have i: "i < n" using assms by simp
  have l: "rotate ((w + 1) mod n) (xs[w := x]) ! i = xs[w := x] ! ((w + 1 + i) mod n)"
    using assms i by (simp add: nth_rotate mod_simps)
  show "rotate ((w + 1) mod n) (xs[w := x]) ! i = (tl (rotate w xs) @ [x]) ! i"
  proof (cases "i = n - 1")
    case True
    then have "(w + 1 + i) mod n = w" using assms by simp
    with l True assms show ?thesis by (simp add: nth_append)
  next
    case False
    with i assms have "(w + 1 + i) mod n \<noteq> w" by (auto simp: mod_if)
    moreover have "i < n - 1" using False i by simp
    ultimately show ?thesis using l assms by (simp add: nth_append nth_tl nth_rotate)
  qed
qed (use assms in simp)

lemma rotate_update:
  assumes "length xs = n" and "i < n"
  shows "rotate w (xs[(w + i) mod n := x]) = (rotate w xs)[i := x]"
proof (rule nth_equalityI)
  fix j assume "j < length (rotate w (xs[(w + i) mod n := x]))"
  then have j: "j < n" using assms by simp
  define r where "r = w mod n"
  have "r < n" using j by (simp add: r_def)
  then have "(r + i) mod n = (r + j) mod n \<longleftrightarrow> i = j"
    using assms(2) j by (auto simp: mod_if split: if_splits)
  then have "(w + i) mod n = (w + j) mod n \<longleftrightarrow> i = j"
    by (simp add: r_def mod_simps)
  then show "rotate w (xs[(w + i) mod n := x]) ! j = (rotate w xs)[i := x] ! j"
    using assms j by (auto simp: nth_rotate nth_list_update)
qed simp

fun cat_options :: "'a option list \<Rightarrow> 'a list" where
  "cat_options [] = []"
| "cat_options (None # xs) = cat_options xs"
| "cat_options (Some x # xs) = x # cat_options xs"

lemma in_cat_options: "x \<in> set (cat_options xs) \<longleftrightarrow> Some x \<in> set xs"
  by (induction xs rule: cat_options.induct) auto

lemma cat_options_append [simp]: "cat_options (xs @ ys) = cat_options xs @ cat_options ys"
  by (induction xs rule: cat_options.induct) auto

lemma cat_options_replicate [simp]: "cat_options (replicate n None) = []"
  by (induction n) auto

lemma cat_options_map_Some [simp]: "cat_options (map Some xs) = xs"
  by (induction xs) auto

section \<open>Loops that stop at the first hit\<close>

text \<open>\<open>and_chk\<close> is the short-circuit \<open>&&\<close> of expressions that may panic; \<open>any_chk f xs\<close> is
  \<open>for x in xs { if f(x) { return .. } }\<close>, true when the loop returned early.\<close>

definition and_chk :: "bool panics \<Rightarrow> bool panics \<Rightarrow> bool panics" where
  "and_chk a b = do { x \<leftarrow> a; if x then b else Some False }"

fun any_chk :: "('a \<Rightarrow> bool panics) \<Rightarrow> 'a list \<Rightarrow> bool panics" where
  "any_chk f [] = Some False"
| "any_chk f (x # xs) = do { b \<leftarrow> f x; if b then Some True else any_chk f xs }"

lemma and_chk_Some [simp]: "and_chk (Some x) (Some y) = Some (x \<and> y)"
  by (simp add: and_chk_def)

lemma any_chk_cong [fundef_cong]:
  "xs = ys \<Longrightarrow> (\<And>x. x \<in> set ys \<Longrightarrow> f x = g x) \<Longrightarrow> any_chk f xs = any_chk g ys"
proof (induction ys arbitrary: xs)
  case (Cons y ys)
  then show ?case by (cases "g y") auto
qed simp

lemma any_chk_Some: "(\<And>x. x \<in> set xs \<Longrightarrow> f x = Some (P x)) \<Longrightarrow> any_chk f xs = Some (\<exists>x \<in> set xs. P x)"
  by (induction xs) auto

section \<open>Fixed-size names\<close>

text \<open>The 16-byte NUL-terminated names of lattice nodes and drivers, and Rust's
  \<open>core::str::from_utf8\<close> check.\<close>

abbreviation utf8_cont :: "u8 \<Rightarrow> bool" where
  "utf8_cont b \<equiv> 0x80 \<le> b \<and> b \<le> 0xBF"

fun utf8_valid :: "bytes \<Rightarrow> bool" where
  "utf8_valid [] = True"
| "utf8_valid (a # as) =
     (if a < 0x80 then utf8_valid as
      else case as of [] \<Rightarrow> False | b # bs \<Rightarrow>
        if 0xC2 \<le> a \<and> a \<le> 0xDF then utf8_cont b \<and> utf8_valid bs
        else case bs of [] \<Rightarrow> False | c # cs \<Rightarrow>
          if 0xE0 \<le> a \<and> a \<le> 0xEF
          then utf8_cont b \<and> (a = 0xE0 \<longrightarrow> 0xA0 \<le> b) \<and> (a = 0xED \<longrightarrow> b \<le> 0x9F) \<and> utf8_cont c \<and>
            utf8_valid cs
          else case cs of [] \<Rightarrow> False | d # ds \<Rightarrow>
            0xF0 \<le> a \<and> a \<le> 0xF4 \<and> utf8_cont b \<and> (a = 0xF0 \<longrightarrow> 0x90 \<le> b) \<and> (a = 0xF4 \<longrightarrow> b \<le> 0x8F) \<and>
            utf8_cont c \<and> utf8_cont d \<and> utf8_valid ds)"

definition name16 :: "bytes \<Rightarrow> bytes" where
  "name16 s = (let len = min (length s) 15 in copy_at 0 (take len s) (replicate 16 0))"

definition name16_str :: "bytes \<Rightarrow> bytes" where
  "name16_str name = (let s = takeWhile (\<lambda>b. b \<noteq> 0) name in if utf8_valid s then s else ascii ''?'')"

lemma length_name16 [simp]: "length (name16 s) = 16"
  by (simp add: name16_def Let_def)

lemma utf8_valid_ascii: "\<forall>b \<in> set s. b < 0x80 \<Longrightarrow> utf8_valid s"
  by (induction s) auto

lemma name16_str_name16: "\<forall>b \<in> set s. b \<noteq> 0 \<and> b < 0x80 \<Longrightarrow> name16_str (name16 s) = take 15 s"
proof -
  assume a: "\<forall>b \<in> set s. b \<noteq> 0 \<and> b < 0x80"
  then have "takeWhile (\<lambda>b. b \<noteq> 0) (take 15 s) = take 15 s"
    by (auto simp: takeWhile_eq_all_conv dest: in_set_takeD)
  then have "takeWhile (\<lambda>b. b \<noteq> 0) (name16 s) = take 15 s"
    by (simp add: name16_def Let_def copy_at_def min_def takeWhile_append takeWhile_eq_all_conv split: if_splits)
  moreover have "utf8_valid (take 15 s)"
    using a by (auto intro!: utf8_valid_ascii dest: in_set_takeD)
  ultimately show ?thesis by (simp add: name16_str_def)
qed

end
