(* ===== verification/Crypto.thy ===== *)
theory Crypto
  imports Axiom_Prelude
begin

text \<open>
  SHA-256 and HMAC-SHA-256 (\<open>kernel/src/crypto.rs\<close>): the compression function, the
  streaming hasher with its 64-byte buffer, the one-shot \<open>sha256\<close>, \<open>hmac_sha256\<close>
  and \<open>ct_eq_32\<close>. The streaming hasher is shown to return, without panicking, the
  digest of the padded message cut into 64-byte blocks (FIPS 180-4), and
  \<open>hmac_sha256\<close> the nested hash of RFC 2104.
\<close>

unbundle bit_operations_syntax

section \<open>Constants and the compression function\<close>

definition K :: "u32 list" where
  "K = concat [
    [0x428a2f98, 0x71374491, 0xb5c0fbcf, 0xe9b5dba5],
    [0x3956c25b, 0x59f111f1, 0x923f82a4, 0xab1c5ed5],
    [0xd807aa98, 0x12835b01, 0x243185be, 0x550c7dc3],
    [0x72be5d74, 0x80deb1fe, 0x9bdc06a7, 0xc19bf174],
    [0xe49b69c1, 0xefbe4786, 0x0fc19dc6, 0x240ca1cc],
    [0x2de92c6f, 0x4a7484aa, 0x5cb0a9dc, 0x76f988da],
    [0x983e5152, 0xa831c66d, 0xb00327c8, 0xbf597fc7],
    [0xc6e00bf3, 0xd5a79147, 0x06ca6351, 0x14292967],
    [0x27b70a85, 0x2e1b2138, 0x4d2c6dfc, 0x53380d13],
    [0x650a7354, 0x766a0abb, 0x81c2c92e, 0x92722c85],
    [0xa2bfe8a1, 0xa81a664b, 0xc24b8b70, 0xc76c51a3],
    [0xd192e819, 0xd6990624, 0xf40e3585, 0x106aa070],
    [0x19a4c116, 0x1e376c08, 0x2748774c, 0x34b0bcb5],
    [0x391c0cb3, 0x4ed8aa4a, 0x5b9cca4f, 0x682e6ff3],
    [0x748f82ee, 0x78a5636f, 0x84c87814, 0x8cc70208],
    [0x90befffa, 0xa4506ceb, 0xbef9a3f7, 0xc67178f2]]"

definition H0 :: "u32 list" where
  "H0 = [0x6a09e667, 0xbb67ae85, 0x3c6ef372, 0xa54ff53a,
    0x510e527f, 0x9b05688c, 0x1f83d9ab, 0x5be0cd19]"

text \<open>The message schedule: sixteen big-endian words, expanded in place to sixty-four.\<close>

definition load_block :: "bytes \<Rightarrow> u32 list" where
  "load_block block = foldl
     (\<lambda>w i. w[i := from_be_bytes [block ! (i*4), block ! (i*4+1), block ! (i*4+2), block ! (i*4+3)]])
     (replicate 64 0) [0..<16]"

definition expand :: "u32 list \<Rightarrow> nat \<Rightarrow> u32 list" where
  "expand w i =
     (let s0 = word_rotr 7 (w ! (i-15)) XOR word_rotr 18 (w ! (i-15)) XOR drop_bit 3 (w ! (i-15));
          s1 = word_rotr 17 (w ! (i-2)) XOR word_rotr 19 (w ! (i-2)) XOR drop_bit 10 (w ! (i-2))
      in w[i := w ! (i-16) + s0 + w ! (i-7) + s1])"

type_synonym working = "u32 \<times> u32 \<times> u32 \<times> u32 \<times> u32 \<times> u32 \<times> u32 \<times> u32"

fun round_step :: "u32 list \<Rightarrow> working \<Rightarrow> nat \<Rightarrow> working" where
  "round_step w (a, b, c, d, e, f, g, h) i =
     (let s1 = word_rotr 6 e XOR word_rotr 11 e XOR word_rotr 25 e;
          ch = (e AND f) XOR (NOT e AND g);
          t1 = h + s1 + ch + K ! i + w ! i;
          s0 = word_rotr 2 a XOR word_rotr 13 a XOR word_rotr 22 a;
          maj = (a AND b) XOR (a AND c) XOR (b AND c);
          t2 = s0 + maj
      in (t1 + t2, a, b, c, d + t1, e, f, g))"

definition compress :: "u32 list \<Rightarrow> bytes \<Rightarrow> u32 list" where
  "compress state block =
     (let w = foldl expand (load_block block) [16..<64];
          (a, b, c, d, e, f, g, h) = foldl (round_step w)
             (state ! 0, state ! 1, state ! 2, state ! 3, state ! 4, state ! 5, state ! 6, state ! 7)
             [0..<64]
      in [state ! 0 + a, state ! 1 + b, state ! 2 + c, state ! 3 + d,
          state ! 4 + e, state ! 5 + f, state ! 6 + g, state ! 7 + h])"

section \<open>The streaming hasher\<close>

record Sha256 =
  sha_state :: "u32 list"
  sha_buf :: bytes
  sha_buf_len :: nat
  sha_total_len :: u64

definition Sha256_new :: Sha256 where
  "Sha256_new = \<lparr>sha_state = H0, sha_buf = replicate 64 0, sha_buf_len = 0, sha_total_len = 0\<rparr>"

text \<open>
  The loop of \<open>update\<close>. With a full buffer (\<open>buf_len = 64\<close>, which no operation
  leaves behind) it would take no byte and never end; \<open>64 - buf_len\<close> underflows
  above that.
\<close>

partial_function (option) update_loop :: "Sha256 \<Rightarrow> bytes \<Rightarrow> Sha256 panics" where
  "update_loop h data =
     (if data = [] then Some h
      else if 64 < sha_buf_len h then None
      else
        let n = min (64 - sha_buf_len h) (length data);
            b = copy_at (sha_buf_len h) (take n data) (sha_buf h);
            len = sha_buf_len h + n
        in if len = 64
           then update_loop (h\<lparr>sha_buf := b, sha_state := compress (sha_state h) b, sha_buf_len := 0\<rparr>)
                  (drop n data)
           else update_loop (h\<lparr>sha_buf := b, sha_buf_len := len\<rparr>) (drop n data))"

definition Sha256_update :: "Sha256 \<Rightarrow> bytes \<Rightarrow> Sha256 panics" where
  "Sha256_update h data = do {
     total \<leftarrow> add_chk (sha_total_len h) (word_of_nat (length data));
     update_loop (h\<lparr>sha_total_len := total\<rparr>) data }"

text \<open>\<open>zero_from i j buf\<close> is \<open>for i in i..j { buf[i] = 0; }\<close>.\<close>

definition zero_from :: "nat \<Rightarrow> nat \<Rightarrow> bytes \<Rightarrow> bytes" where
  "zero_from i j buf = foldl (\<lambda>b n. b[n := 0]) buf [i..<j]"

definition Sha256_finalize :: "Sha256 \<Rightarrow> bytes panics" where
  "Sha256_finalize h = do {
     total_bits \<leftarrow> mul_chk (sha_total_len h) 8;
     if length (sha_buf h) \<le> sha_buf_len h then None else
     let buf = (sha_buf h)[sha_buf_len h := 0x80];
         buf_len = sha_buf_len h + 1;
         (state, buf, buf_len) =
           (if 56 < buf_len
            then let b = zero_from buf_len 64 buf in (compress (sha_state h) b, b, 0)
            else (sha_state h, buf, buf_len));
         buf = zero_from buf_len 56 buf;
         buf = copy_at 56 (to_be_bytes 8 total_bits) buf;
         state = compress state buf
     in Some (concat (map (to_be_bytes 4) state)) }"

definition sha256 :: "bytes \<Rightarrow> bytes panics" where
  "sha256 data = do { h \<leftarrow> Sha256_update Sha256_new data; Sha256_finalize h }"

text \<open>HMAC: the key is hashed when longer than a block and zero-padded otherwise.\<close>

definition hmac_sha256 :: "bytes \<Rightarrow> bytes \<Rightarrow> bytes panics" where
  "hmac_sha256 key data = do {
     k \<leftarrow> (if 64 < length key
           then do { hk \<leftarrow> sha256 key; Some (copy_at 0 hk (replicate 64 0)) }
           else Some (copy_at 0 key (replicate 64 0)));
     let k_ipad = xor_bytes (replicate 64 0x36) k;
         k_opad = xor_bytes (replicate 64 0x5c) k
     in do {
       inner \<leftarrow> Sha256_update Sha256_new k_ipad;
       inner \<leftarrow> Sha256_update inner data;
       inner_hash \<leftarrow> Sha256_finalize inner;
       outer \<leftarrow> Sha256_update Sha256_new k_opad;
       outer \<leftarrow> Sha256_update outer inner_hash;
       Sha256_finalize outer } }"

definition ct_eq_32 :: "bytes \<Rightarrow> bytes \<Rightarrow> bool" where
  "ct_eq_32 a b \<longleftrightarrow> ct_diff 32 a b = 0"

section \<open>Reference: FIPS 180-4 padding and block iteration, RFC 2104\<close>

text \<open>One 0x80 byte, the least number of zero bytes that leaves room for the length, and
  the bit length in eight big-endian bytes.\<close>

definition sha256_pad :: "bytes \<Rightarrow> bytes" where
  "sha256_pad msg = msg @ [0x80] @ replicate ((119 - length msg mod 64) mod 64) 0 @
     to_be_bytes 8 (word_of_nat (8 * length msg) :: u64)"

definition hash_blocks :: "bytes \<Rightarrow> u32 list" where
  "hash_blocks bs = foldl compress H0 (chunks 64 bs)"

definition sha256_spec :: "bytes \<Rightarrow> bytes" where
  "sha256_spec msg = concat (map (to_be_bytes 4) (hash_blocks (sha256_pad msg)))"

definition hmac_key :: "bytes \<Rightarrow> bytes" where
  "hmac_key key = (let k = if 64 < length key then sha256_spec key else key
     in k @ replicate (64 - length k) 0)"

definition hmac_spec :: "bytes \<Rightarrow> bytes \<Rightarrow> bytes" where
  "hmac_spec key data =
     sha256_spec (xor_bytes (replicate 64 0x5c) (hmac_key key) @
       sha256_spec (xor_bytes (replicate 64 0x36) (hmac_key key) @ data))"

lemma length_compress [simp]: "length (compress s b) = 8"
  by (simp add: compress_def Let_def split: prod.split)

lemma length_hash_blocks [simp]: "length (hash_blocks bs) = 8"
proof -
  have "length (foldl compress s cs) = 8" if "length s = 8" for s cs
    using that by (induction cs arbitrary: s) auto
  then show ?thesis by (simp add: hash_blocks_def H0_def)
qed

lemma length_concat_be4: "length (concat (map (to_be_bytes 4) (ws :: u32 list))) = 4 * length ws"
  by (induction ws) auto

lemma length_sha256_spec [simp]: "length (sha256_spec msg) = 32"
  by (simp add: sha256_spec_def length_concat_be4)

lemma length_hmac_spec [simp]: "length (hmac_spec key data) = 32"
  by (simp add: hmac_spec_def)

lemma length_hmac_key [simp]: "length (hmac_key key) = 64"
  by (simp add: hmac_key_def Let_def)

lemma length_sha256_pad: "64 dvd length (sha256_pad msg)"
proof -
  define q r where "q = length msg div 64" and "r = length msg mod 64"
  then have n: "length msg = 64 * q + r" and r: "r < 64" by simp_all
  have "(119 - r) mod 64 = (if r < 56 then 119 - r - 64 else 119 - r)"
    using r by (simp add: mod_if)
  with r have "length (sha256_pad msg) = 64 * q + (if r < 56 then 64 else 128)"
    by (simp add: sha256_pad_def n)
  then show ?thesis by simp
qed

lemma hash_blocks_Nil [simp]: "hash_blocks [] = H0"
  by (simp add: hash_blocks_def)

lemma hash_blocks_snoc:
  "64 dvd length bs \<Longrightarrow> length b = 64 \<Longrightarrow> hash_blocks (bs @ b) = compress (hash_blocks bs) b"
  by (simp add: hash_blocks_def chunks_append_full chunks_short)

section \<open>The hasher absorbs its input\<close>

text \<open>\<open>buffered h full rest\<close>: the full blocks are in the chaining state and the
  remainder is at the front of the buffer. \<open>absorbed h msg\<close>: the hasher holds exactly
  the bytes \<open>msg\<close>.\<close>

definition buffered :: "Sha256 \<Rightarrow> bytes \<Rightarrow> bytes \<Rightarrow> bool" where
  "buffered h full rest \<longleftrightarrow> 64 dvd length full \<and> length rest < 64 \<and>
     sha_state h = hash_blocks full \<and> sha_buf_len h = length rest \<and>
     take (length rest) (sha_buf h) = rest \<and> length (sha_buf h) = 64"

definition absorbed :: "Sha256 \<Rightarrow> bytes \<Rightarrow> bool" where
  "absorbed h msg \<longleftrightarrow> (\<exists>full rest. buffered h full rest \<and> msg = full @ rest) \<and>
     unat (sha_total_len h) = length msg"

lemma absorbed_new [simp]: "absorbed Sha256_new []"
  by (simp add: absorbed_def buffered_def Sha256_new_def)

lemma buffered_fill:
  assumes "buffered h full rest" and "length rest + length d = 64"
  shows "buffered (h\<lparr>sha_buf := copy_at (length rest) d (sha_buf h),
            sha_state := compress (sha_state h) (copy_at (length rest) d (sha_buf h)),
            sha_buf_len := 0\<rparr>) (full @ rest @ d) []"
proof -
  have "copy_at (length rest) d (sha_buf h) = rest @ d"
    using assms by (simp add: buffered_def copy_at_def)
  with assms show ?thesis
    by (simp add: buffered_def hash_blocks_snoc)
qed

lemma buffered_part:
  assumes "buffered h full rest" and "length rest + length d < 64"
  shows "buffered (h\<lparr>sha_buf := copy_at (length rest) d (sha_buf h),
            sha_buf_len := length rest + length d\<rparr>) full (rest @ d)"
  using assms take_copy_at[of "length rest" "sha_buf h" d]
  by (simp add: buffered_def)

lemma update_loop_buffered:
  assumes "buffered h full rest"
  shows "\<exists>h' full' rest'. update_loop h data = Some h' \<and> buffered h' full' rest' \<and>
           full' @ rest' = full @ rest @ data \<and> sha_total_len h' = sha_total_len h"
  using assms
proof (induction data arbitrary: h full rest rule: length_induct)
  case (1 data)
  show ?case
  proof (cases "data = []")
    case True
    with 1 show ?thesis by (auto simp: update_loop.simps)
  next
    case ne: False
    let ?n = "min (64 - sha_buf_len h) (length data)"
    let ?d = "take ?n data" and ?data = "drop ?n data"
    have len: "sha_buf_len h = length rest" "length rest < 64"
      using 1 by (auto simp: buffered_def)
    with ne have shorter: "length ?data < length data" by auto
    have ld: "length ?d = ?n" by simp
    show ?thesis
    proof (cases "length rest + ?n = 64")
      case True
      with ld have b: "buffered (h\<lparr>sha_buf := copy_at (length rest) ?d (sha_buf h),
            sha_state := compress (sha_state h) (copy_at (length rest) ?d (sha_buf h)),
            sha_buf_len := 0\<rparr>) (full @ rest @ ?d) []"
        by (intro buffered_fill 1) simp
      from 1(1)[rule_format, OF shorter b] show ?thesis
        using True len ne by (simp add: update_loop.simps[of h data] Let_def)
    next
      case False
      with len have l: "length rest + length data < 64" by (auto simp: min_def split: if_splits)
      from buffered_part[OF 1(2) this]
      have "buffered (h\<lparr>sha_buf := copy_at (length rest) data (sha_buf h),
              sha_buf_len := length rest + length data\<rparr>) full (rest @ data)" .
      with l len ne show ?thesis
        by (fastforce simp: update_loop.simps[of h data] Let_def update_loop.simps[of _ "[]"])
    qed
  qed
qed

lemma Sha256_update_absorbed:
  assumes "absorbed h msg" and "length msg + length data < 2 ^ 64"
  shows "\<exists>h'. Sha256_update h data = Some h' \<and> absorbed h' (msg @ data)"
proof -
  let ?t = "sha_total_len h + word_of_nat (length data)"
  have u: "unat (word_of_nat (length data) :: u64) = length data"
    using assms by (simp add: unat_of_nat)
  with assms have t: "add_chk (sha_total_len h) (word_of_nat (length data)) = Some ?t"
    by (simp add: add_chk_eq_Some absorbed_def)
  from assms obtain full rest where b: "buffered h full rest" "msg = full @ rest"
    by (auto simp: absorbed_def)
  then have "buffered (h\<lparr>sha_total_len := ?t\<rparr>) full rest"
    by (simp add: buffered_def)
  from update_loop_buffered[OF this, of data] obtain h' full' rest' where
    h': "update_loop (h\<lparr>sha_total_len := ?t\<rparr>) data = Some h'" "buffered h' full' rest'"
      "full' @ rest' = full @ rest @ data" "sha_total_len h' = ?t"
    by auto
  have "length (full' @ rest') = length msg + length data"
    by (simp only: h'(3) b(2) length_append)
  moreover have "unat ?t = length msg + length data"
    using add_chk_unat[OF t] u assms(1) by (simp add: absorbed_def)
  ultimately have "absorbed h' (full' @ rest')"
    unfolding absorbed_def by (intro conjI exI[of _ full'] exI[of _ rest']) (simp_all add: h')
  with h' t b show ?thesis by (simp add: Sha256_update_def)
qed

section \<open>Finalisation produces the reference digest\<close>

lemma zero_from_eq:
  "i \<le> j \<Longrightarrow> j \<le> length buf \<Longrightarrow> zero_from i j buf = take i buf @ replicate (j - i) 0 @ drop j buf"
proof (induction j)
  case (Suc j)
  show ?case
  proof (cases "i = Suc j")
    case False
    with Suc have le: "i \<le> j" by simp
    with Suc have "zero_from i (Suc j) buf = (take i buf @ replicate (j - i) 0 @ drop j buf)[j := 0]"
      by (simp add: zero_from_def)
    also have "\<dots> = take i buf @ replicate (j - i) 0 @ 0 # drop (Suc j) buf"
      using Suc le by (simp add: list_update_append Cons_nth_drop_Suc[symmetric])
    also have "\<dots> = take i buf @ replicate (Suc j - i) 0 @ drop (Suc j) buf"
      using le by (simp add: Suc_diff_le replicate_append_same[symmetric])
    finally show ?thesis .
  qed (simp add: zero_from_def)
qed (simp add: zero_from_def)

lemma unat_eq_word_of_nat: "unat w = n \<Longrightarrow> w = word_of_nat n" for w :: "'a::len word"
  by auto

lemma Sha256_finalize_short:
  assumes b: "buffered h full rest" and l: "length rest < 56"
    and t: "mul_chk (sha_total_len h) 8 = Some bits"
  shows "Sha256_finalize h = Some (concat (map (to_be_bytes 4)
           (hash_blocks (full @ rest @ [0x80] @ replicate (55 - length rest) 0 @ to_be_bytes 8 bits))))"
proof -
  let ?r = "length rest"
  have buf: "(sha_buf h)[?r := 0x80] = rest @ 0x80 # drop (Suc ?r) (sha_buf h)" and d: "64 dvd length full"
    using b l id_take_nth_drop[of ?r "sha_buf h"]
    by (simp_all add: buffered_def upd_conv_take_nth_drop)
  have "zero_from (?r + 1) 56 ((sha_buf h)[?r := 0x80]) =
      rest @ [0x80] @ replicate (55 - ?r) 0 @ drop 56 (sha_buf h)"
    using b l by (subst zero_from_eq) (auto simp: buf buffered_def drop_Cons')
  then have "copy_at 56 (to_be_bytes 8 bits) (zero_from (?r + 1) 56 ((sha_buf h)[?r := 0x80])) =
      rest @ [0x80] @ replicate (55 - ?r) 0 @ to_be_bytes 8 bits"
    using b l by (simp add: copy_at_def buffered_def take_Cons')
  with b l t d show ?thesis
    by (simp add: Sha256_finalize_def buffered_def hash_blocks_snoc)
qed

lemma Sha256_finalize_long:
  assumes b: "buffered h full rest" and l: "56 \<le> length rest"
    and t: "mul_chk (sha_total_len h) 8 = Some bits"
  shows "Sha256_finalize h = Some (concat (map (to_be_bytes 4)
           (hash_blocks (full @ rest @ [0x80] @ replicate (119 - length rest) 0 @ to_be_bytes 8 bits))))"
proof -
  let ?r = "length rest"
  let ?b = "rest @ [0x80] @ replicate (63 - ?r) 0" and ?c = "replicate 56 0 @ to_be_bytes 8 bits"
  have r: "?r < 64" and buf: "(sha_buf h)[?r := 0x80] = rest @ 0x80 # drop (Suc ?r) (sha_buf h)"
    and d: "64 dvd length full"
    using b l id_take_nth_drop[of ?r "sha_buf h"]
    by (simp_all add: buffered_def upd_conv_take_nth_drop)
  have z: "zero_from (?r + 1) 64 ((sha_buf h)[?r := 0x80]) = ?b"
    using b r by (subst zero_from_eq) (auto simp: buf buffered_def)
  have "zero_from 0 56 ?b = replicate 56 0 @ drop 56 ?b"
    using r by (subst zero_from_eq) auto
  then have c: "copy_at 56 (to_be_bytes 8 bits) (zero_from 0 56 ?b) = ?c"
    using r by (simp add: copy_at_def)
  have "compress (compress (sha_state h) ?b) ?c = hash_blocks (full @ ?b @ ?c)"
    using b r d hash_blocks_snoc[of "full @ ?b" ?c] hash_blocks_snoc[of full ?b]
    by (simp add: buffered_def)
  then have "Sha256_finalize h = Some (concat (map (to_be_bytes 4) (hash_blocks (full @ ?b @ ?c))))"
    using b l r t z c by (simp add: Sha256_finalize_def buffered_def Let_def)
  moreover have "replicate (63 - ?r) 0 @ replicate 56 0 @ xs = replicate (119 - ?r) 0 @ xs" for xs :: bytes
    using l r by (simp add: replicate_add[symmetric] flip: append_assoc)
  ultimately show ?thesis by simp
qed

lemma Sha256_finalize_absorbed:
  assumes "absorbed h msg" and "length msg < 2 ^ 61"
  shows "Sha256_finalize h = Some (sha256_spec msg)"
proof -
  from assms obtain full rest where b: "buffered h full rest" and msg: "msg = full @ rest"
    and total: "unat (sha_total_len h) = length msg"
    by (auto simp: absorbed_def)
  have t: "mul_chk (sha_total_len h) 8 = Some (word_of_nat (8 * length msg))"
    using assms(2) total unat_eq_word_of_nat[OF total] by (simp add: mul_chk_def)
  have r: "length rest < 64" "length msg mod 64 = length rest"
    using b msg by (auto simp: buffered_def)
  show ?thesis
  proof (cases "length rest < 56")
    case True
    then have "(119 - length rest) mod 64 = 55 - length rest" by (simp add: mod_if)
    with Sha256_finalize_short[OF b True t] msg r show ?thesis
      by (simp add: sha256_spec_def sha256_pad_def)
  next
    case False
    with Sha256_finalize_long[OF b _ t] msg r show ?thesis
      by (simp add: sha256_spec_def sha256_pad_def)
  qed
qed

section \<open>The public functions\<close>

lemma sha256_eq_spec [ret_simps]: "length data < 2 ^ 61 \<Longrightarrow> sha256 data = Some (sha256_spec data)"
proof -
  assume l: "length data < 2 ^ 61"
  with Sha256_update_absorbed[of Sha256_new "[]" data] obtain h
    where "Sha256_update Sha256_new data = Some h" "absorbed h data" by auto
  with l show ?thesis by (simp add: sha256_def Sha256_finalize_absorbed)
qed

lemma two_updates:
  assumes "length a + length b < 2 ^ 61"
  shows "do { h \<leftarrow> Sha256_update Sha256_new a; h \<leftarrow> Sha256_update h b; Sha256_finalize h } =
         Some (sha256_spec (a @ b))"
proof -
  from Sha256_update_absorbed[of Sha256_new "[]" a] assms obtain h
    where h: "Sha256_update Sha256_new a = Some h" "absorbed h a" by auto
  from Sha256_update_absorbed[OF h(2), of b] assms obtain h'
    where "Sha256_update h b = Some h'" "absorbed h' (a @ b)" by auto
  with h assms show ?thesis by (simp add: Sha256_finalize_absorbed)
qed

lemma hmac_sha256_eq_spec [ret_simps]:
  assumes "length key < 2 ^ 61" and "length data < 2 ^ 60"
  shows "hmac_sha256 key data = Some (hmac_spec key data)"
proof -
  have k: "(if 64 < length key
        then do { hk \<leftarrow> sha256 key; Some (copy_at 0 hk (replicate 64 0)) }
        else Some (copy_at 0 key (replicate 64 0))) = Some (hmac_key key)"
    using assms by (simp add: sha256_eq_spec hmac_key_def copy_at_def Let_def)
  have inner: "do { h \<leftarrow> Sha256_update Sha256_new (xor_bytes (replicate 64 0x36) (hmac_key key));
        h \<leftarrow> Sha256_update h data; Sha256_finalize h } =
      Some (sha256_spec (xor_bytes (replicate 64 0x36) (hmac_key key) @ data))"
    using assms by (intro two_updates) simp
  have outer: "do { h \<leftarrow> Sha256_update Sha256_new (xor_bytes (replicate 64 0x5c) (hmac_key key));
        h \<leftarrow> Sha256_update h (sha256_spec d); Sha256_finalize h } =
      Some (sha256_spec (xor_bytes (replicate 64 0x5c) (hmac_key key) @ sha256_spec d))" for d
    by (intro two_updates) simp
  show ?thesis
    unfolding hmac_sha256_def k hmac_spec_def
    using inner outer by (simp add: Let_def bind_assoc[symmetric] del: bind_assoc)
qed

lemma ct_eq_32_iff: "length a = 32 \<Longrightarrow> length b = 32 \<Longrightarrow> ct_eq_32 a b \<longleftrightarrow> a = b"
  by (simp add: ct_eq_32_def ct_diff_0_eq)

section \<open>Properties\<close>

fun update_all :: "Sha256 \<Rightarrow> bytes list \<Rightarrow> Sha256 panics" where
  "update_all h [] = Some h"
| "update_all h (p # ps) = do { h \<leftarrow> Sha256_update h p; update_all h ps }"

lemma update_all_absorbed:
  "absorbed h msg \<Longrightarrow> length msg + length (concat ps) < 2 ^ 64 \<Longrightarrow>
   \<exists>h'. update_all h ps = Some h' \<and> absorbed h' (msg @ concat ps)"
proof (induction ps arbitrary: h msg)
  case (Cons p ps)
  then obtain h' where h': "Sha256_update h p = Some h'" "absorbed h' (msg @ p)"
    using Sha256_update_absorbed[of h msg p] by auto
  with Cons.IH[OF h'(2)] Cons.prems show ?case by simp
qed simp



text \<open>C8: \<open>hmac_sha256\<close> is HMAC as RFC 2104 defines it, for keys shorter than, equal to and longer
  than a block, and never panics below the size limits of the length counter.\<close>

theorem hmac_rfc2104:
  assumes "length key < 2 ^ 61" and "length data < 2 ^ 60"
  shows "hmac_sha256 key data =
    (let k = (if 64 < length key then sha256_spec key else key);
         k0 = k @ replicate (64 - length k) 0
     in Some (sha256_spec (map (\<lambda>b. 0x5c XOR b) k0 @ sha256_spec (map (\<lambda>b. 0x36 XOR b) k0 @ data))))"
proof -
  have "xor_bytes (replicate (length k) c) k = map (\<lambda>b. c XOR b) k" for c and k :: bytes
    by (rule nth_equalityI) (auto simp: xor_bytes_def)
  from this[of "hmac_key key"] show ?thesis
    using assms by (simp add: hmac_sha256_eq_spec hmac_spec_def) (simp add: hmac_key_def Let_def)
qed

theorem hmac_rfc2104_witness:
  "hmac_sha256 [0x4b] [7] =
     Some (sha256_spec (map (\<lambda>b. 0x5c XOR b) (0x4b # replicate 63 0) @
       sha256_spec (map (\<lambda>b. 0x36 XOR b) (0x4b # replicate 63 0) @ [7])))"
  using hmac_rfc2104[of "[0x4b]" "[7]"] by (simp add: Let_def)

end
