(* ===== verification/Mac_Record.thy ===== *)
theory Mac_Record
  imports Crypto
begin

text \<open>
  The contract of a record authenticated by HMAC-SHA-256, shared by the capabilities
  (\<open>kernel/src/axiom/capability.rs\<close>) and the audit-log entries (\<open>kernel/src/meal.rs\<close>).
  A record serialises its fields without loss and is accepted exactly when it is live
  and carries the HMAC of that serialisation. From this alone: a changed tag is always
  rejected, and a changed field is accepted only if the two serialisations collide under HMAC.
\<close>

locale mac_record =
  fixes auth :: "'r \<Rightarrow> bytes" and tag :: "'r \<Rightarrow> bytes" and fields :: "'r \<Rightarrow> 'f"
    and live :: "'t \<Rightarrow> 'r \<Rightarrow> bool" and ok :: "'r \<Rightarrow> bool"
    and check :: "bytes \<Rightarrow> 't \<Rightarrow> 'r \<Rightarrow> bool option"
  assumes auth_inject: "ok r \<Longrightarrow> ok r' \<Longrightarrow> auth r = auth r' \<longleftrightarrow> fields r = fields r'"
    and check_iff: "ok r \<Longrightarrow> length k = 32 \<Longrightarrow> check k t r = Some (live t r \<and> tag r = hmac_spec k (auth r))"
begin

lemma changed_tag_rejected:
  assumes "length k = 32" "ok r" "ok r'" "check k t r = Some True"
    and "fields r' = fields r" "tag r' \<noteq> tag r"
  shows "check k t' r' = Some False"
  using assms auth_inject[of r' r] by (auto simp: check_iff)

lemma changed_field_collides:
  assumes "length k = 32" "ok r" "ok r'" "check k t r = Some True" "check k t' r' = Some True"
    and "tag r' = tag r" "fields r' \<noteq> fields r"
  shows "auth r' \<noteq> auth r \<and> hmac_spec k (auth r') = hmac_spec k (auth r)"
  using assms auth_inject[of r' r] by (auto simp: check_iff)

lemma accepted_tag_unique:
  assumes "length k = 32" "ok r" "ok r'" "check k t r = Some True" "check k t' r' = Some True"
    and "fields r' = fields r"
  shows "tag r' = tag r"
  using assms auth_inject[of r' r] by (auto simp: check_iff)

lemma signed_checks:
  "length k = 32 \<Longrightarrow> ok r \<Longrightarrow> tag r = hmac_spec k (auth r) \<Longrightarrow> check k t r = Some (live t r)"
  by (simp add: check_iff)

end

end
