(* ===== verification/Capability.thy ===== *)
theory Capability
  imports Mac_Record
begin

text \<open>
  Temporal capabilities (\<open>kernel/src/axiom/capability.rs\<close>): minting, verification, lifetime
  and derivation. Capabilities are the interpretation of the authenticated-record
  contract; delegation chains only ever lose rights and lifetime, and are at most 64 long.
\<close>

unbundle bit_operations_syntax

section \<open>The code\<close>

definition READ :: u8 where "READ = 0x01"
definition WRITE :: u8 where "WRITE = 0x02"
definition EXECUTE :: u8 where "EXECUTE = 0x04"
definition DERIVE :: u8 where "DERIVE = 0x08"
definition GRANT :: u8 where "GRANT = 0x10"

type_synonym MonotonicNs = u64

record Capability =
  object_id :: u64
  cap_rights :: u8
  expires_at :: MonotonicNs
  cap_depth :: u8
  parent_hash :: bytes
  cap_mac :: bytes

definition Capability_auth_bytes :: "u64 \<Rightarrow> u8 \<Rightarrow> u64 \<Rightarrow> u8 \<Rightarrow> bytes \<Rightarrow> bytes" where
  "Capability_auth_bytes oid r exp d ph =
     (let buf = replicate 50 0;
          buf = copy_at 0 (to_le_bytes 8 oid) buf;
          buf = buf[8 := r];
          buf = copy_at 9 (to_le_bytes 8 exp) buf;
          buf = buf[17 := d];
          buf = copy_at 18 ph buf
      in buf)"

definition Capability_mint :: "bytes \<Rightarrow> u64 \<Rightarrow> u8 \<Rightarrow> MonotonicNs \<Rightarrow> Capability panics" where
  "Capability_mint k oid r exp =
     (let ph = replicate 32 0; bytes = Capability_auth_bytes oid r exp 0 ph in
      do {
        m \<leftarrow> hmac_sha256 k bytes;
        Some \<lparr>object_id = oid, cap_rights = r, expires_at = exp, cap_depth = 0,
              parent_hash = ph, cap_mac = m\<rparr> })"

definition Capability_verify :: "Capability \<Rightarrow> bytes \<Rightarrow> MonotonicNs \<Rightarrow> bool panics" where
  "Capability_verify c k now =
     (if expires_at c \<le> now then Some False
      else do {
        expected \<leftarrow> hmac_sha256 k
          (Capability_auth_bytes (object_id c) (cap_rights c) (expires_at c) (cap_depth c) (parent_hash c));
        Some (ct_eq_32 expected (cap_mac c)) })"

definition Capability_ttl :: "Capability \<Rightarrow> MonotonicNs \<Rightarrow> u64" where
  "Capability_ttl c now = saturating_sub (expires_at c) now"

definition Capability_derive ::
  "Capability \<Rightarrow> bytes \<Rightarrow> MonotonicNs \<Rightarrow> u8 \<Rightarrow> MonotonicNs \<Rightarrow> Capability option panics" where
  "Capability_derive c k now new_rights new_expires_at = do {
     valid \<leftarrow> Capability_verify c k now;
     if \<not> valid then Some None
     else if cap_rights c AND DERIVE = 0 then Some None
     else if new_rights AND NOT (cap_rights c) \<noteq> 0 then Some None
     else if expires_at c < new_expires_at then Some None
     else case add_chk (cap_depth c) 1 of
       None \<Rightarrow> Some None
     | Some d \<Rightarrow>
         if 64 < d then Some None
         else do {
           ph \<leftarrow> sha256 (cap_mac c);
           m \<leftarrow> hmac_sha256 k (Capability_auth_bytes (object_id c) new_rights new_expires_at d ph);
           Some (Some \<lparr>object_id = object_id c, cap_rights = new_rights,
                       expires_at = new_expires_at, cap_depth = d,
                       parent_hash = ph, cap_mac = m\<rparr>) } }"

definition hex8 :: "bytes \<Rightarrow> bytes" where
  "hex8 b = concat (map (\<lambda>i. [ascii ''0123456789abcdef'' ! unat (drop_bit 4 (b ! i)),
                              ascii ''0123456789abcdef'' ! unat (b ! i AND 0xf)]) [0..<8])"

section \<open>Serialisation\<close>

definition Capability_ok :: "Capability \<Rightarrow> bool" where
  "Capability_ok c \<longleftrightarrow> length (parent_hash c) = 32 \<and> length (cap_mac c) = 32"

abbreviation cap_auth :: "Capability \<Rightarrow> bytes" where
  "cap_auth c \<equiv> Capability_auth_bytes (object_id c) (cap_rights c) (expires_at c) (cap_depth c) (parent_hash c)"

abbreviation cap_fields :: "Capability \<Rightarrow> u64 \<times> u8 \<times> u64 \<times> u8 \<times> bytes" where
  "cap_fields c \<equiv> (object_id c, cap_rights c, expires_at c, cap_depth c, parent_hash c)"

lemma auth_bytes_eq:
  "length ph = 32 \<Longrightarrow>
   Capability_auth_bytes oid r exp d ph = to_le_bytes 8 oid @ [r] @ to_le_bytes 8 exp @ [d] @ ph"
  by (simp add: Capability_auth_bytes_def Let_def copy_at_def list_update_append list_update.simps)

lemma auth_bytes_inject:
  "length ph = 32 \<Longrightarrow> length ph' = 32 \<Longrightarrow>
   Capability_auth_bytes oid r exp d ph = Capability_auth_bytes oid' r' exp' d' ph' \<longleftrightarrow>
   (oid, r, exp, d, ph) = (oid', r', exp', d', ph')"
  by (auto simp: auth_bytes_eq to_le_bytes_inject)

lemma length_auth_bytes: "length ph = 32 \<Longrightarrow> length (Capability_auth_bytes oid r exp d ph) = 50"
  by (simp add: auth_bytes_eq)

lemma hmac_auth_bytes [ret_simps]:
  "length k = 32 \<Longrightarrow> length ph = 32 \<Longrightarrow>
   hmac_sha256 k (Capability_auth_bytes oid r exp d ph) = Some (hmac_spec k (Capability_auth_bytes oid r exp d ph))"
  by (intro hmac_sha256_eq_spec) (simp_all add: length_auth_bytes)

lemma Capability_verify_eq:
  "Capability_ok c \<Longrightarrow> length k = 32 \<Longrightarrow>
   Capability_verify c k now = Some (now < expires_at c \<and> cap_mac c = hmac_spec k (cap_auth c))"
  by (auto simp: Capability_verify_def Capability_ok_def ret_simps ct_eq_32_iff not_less)

interpretation cap_record: mac_record cap_auth cap_mac cap_fields "\<lambda>now c. now < expires_at c" Capability_ok
  "\<lambda>k now c. Capability_verify c k now"
  by unfold_locales (simp_all only: auth_bytes_inject Capability_verify_eq Capability_ok_def)

section \<open>Derivation\<close>

definition may_derive :: "Capability \<Rightarrow> MonotonicNs \<Rightarrow> u8 \<Rightarrow> MonotonicNs \<Rightarrow> bool" where
  "may_derive c now r exp \<longleftrightarrow> now < expires_at c \<and> cap_rights c AND DERIVE \<noteq> 0 \<and>
     r AND NOT (cap_rights c) = 0 \<and> exp \<le> expires_at c \<and> cap_depth c < 64"

definition child_of :: "bytes \<Rightarrow> Capability \<Rightarrow> u8 \<Rightarrow> MonotonicNs \<Rightarrow> Capability" where
  "child_of k c r exp =
     (let ph = sha256_spec (cap_mac c)
      in \<lparr>object_id = object_id c, cap_rights = r, expires_at = exp, cap_depth = cap_depth c + 1,
          parent_hash = ph,
          cap_mac = hmac_spec k (Capability_auth_bytes (object_id c) r exp (cap_depth c + 1) ph)\<rparr>)"

definition root_cap :: "bytes \<Rightarrow> u64 \<Rightarrow> u8 \<Rightarrow> MonotonicNs \<Rightarrow> Capability" where
  "root_cap k oid r exp =
     \<lparr>object_id = oid, cap_rights = r, expires_at = exp, cap_depth = 0, parent_hash = replicate 32 0,
      cap_mac = hmac_spec k (Capability_auth_bytes oid r exp 0 (replicate 32 0))\<rparr>"

lemma depth_guard:
  "(case add_chk (d :: u8) 1 of None \<Rightarrow> a | Some d' \<Rightarrow> if 64 < d' then a else f d') =
   (if d < 64 then f (d + 1) else a)"
proof (cases "unat d + 1 < 256")
  case True
  then have "unat (d + 1) = unat d + 1" by (simp add: unat_word_ariths)
  with True show ?thesis
    by (auto simp: add_chk_def word_less_nat_alt word_le_nat_alt)
qed (auto simp: add_chk_def word_less_nat_alt)

lemma Capability_mint_eq: "length k = 32 \<Longrightarrow> Capability_mint k oid r exp = Some (root_cap k oid r exp)"
  by (simp add: Capability_mint_def Let_def ret_simps root_cap_def)

lemma Capability_derive_eq:
  assumes "Capability_ok c" and "length k = 32"
  shows "Capability_derive c k now r exp =
    Some (if cap_mac c = hmac_spec k (cap_auth c) \<and> may_derive c now r exp then Some (child_of k c r exp) else None)"
proof -
  have "sha256 (cap_mac c) = Some (sha256_spec (cap_mac c))"
    using assms by (intro sha256_eq_spec) (simp add: Capability_ok_def)
  with assms show ?thesis
    by (simp add: Capability_derive_def Capability_verify_eq depth_guard ret_simps may_derive_def
        child_of_def Let_def linorder_not_less[symmetric])
qed

lemma child_ok [simp]: "Capability_ok (child_of k c r exp)"
  by (simp add: Capability_ok_def child_of_def Let_def)

lemma root_ok [simp]: "Capability_ok (root_cap k oid r exp)"
  by (simp add: Capability_ok_def root_cap_def)

lemma child_signed [simp]: "cap_mac (child_of k c r exp) = hmac_spec k (cap_auth (child_of k c r exp))"
  by (simp add: child_of_def Let_def)

lemma root_signed [simp]: "cap_mac (root_cap k oid r exp) = hmac_spec k (cap_auth (root_cap k oid r exp))"
  by (simp add: root_cap_def)

section \<open>Delegation\<close>

text \<open>\<open>delegated k root n c\<close>: \<open>c\<close> is reached from the minted \<open>root\<close> by \<open>n\<close> successful calls
  of \<open>derive\<close>, each at some time and by some holder of the key.\<close>

inductive delegated :: "bytes \<Rightarrow> Capability \<Rightarrow> nat \<Rightarrow> Capability \<Rightarrow> bool" for k where
  minted: "Capability_mint k oid r exp = Some root \<Longrightarrow> delegated k root 0 root"
| derived: "delegated k root n c \<Longrightarrow> Capability_derive c k now r exp = Some (Some c') \<Longrightarrow>
    delegated k root (Suc n) c'"

inductive_cases delegated_0E: "delegated k root 0 c"
inductive_cases delegated_SucE: "delegated k root (Suc n) c"

lemma delegated_signed:
  assumes "delegated k root n c" and "length k = 32"
  shows "Capability_ok c \<and> cap_mac c = hmac_spec k (cap_auth c)"
  using assms
proof induction
  case (derived root n c now r exp c')
  then show ?case by (auto simp: Capability_derive_eq split: if_splits)
qed (auto simp: Capability_mint_eq)

lemma delegated_step:
  assumes "delegated k root n c" and "length k = 32"
    and "Capability_derive c k now r exp = Some (Some c')"
  shows "may_derive c now r exp \<and> c' = child_of k c r exp"
  using assms delegated_signed[OF assms(1,2)] by (auto simp: Capability_derive_eq split: if_splits)

lemma subset_trans_word: "a AND NOT b = 0 \<Longrightarrow> b AND NOT c = 0 \<Longrightarrow> a AND NOT c = 0" for a b c :: "'a::len word"
  by (rule bit_word_eqI) (metis bit_0_eq bit_and_iff bit_not_iff bot_apply bot_bool_def possible_bit_word)

section \<open>Properties\<close>

text \<open>C3: Along every delegation chain from a minted capability, the object stays the same, the rights are a
  subset of the root's, the expiry is not later than the root's, the depth field counts the
  derivations, and there are at most 64 of them.\<close>

theorem delegation_attenuates:
  assumes "delegated k root n c" and "length k = 32"
  shows "object_id c = object_id root \<and> cap_rights c AND NOT (cap_rights root) = 0 \<and>
    expires_at c \<le> expires_at root \<and> unat (cap_depth c) = n \<and> n \<le> 64"
  using assms
proof induction
  case (minted oid r exp root)
  then show ?case by (auto simp: Capability_mint_eq root_cap_def)
next
  case (derived root n c now r exp c')
  from delegated_step[OF derived(1,4,2)]
  have m: "may_derive c now r exp" and c': "c' = child_of k c r exp" by auto
  have "unat (cap_depth c + 1) = unat (cap_depth c) + 1" "unat (cap_depth c) < 64"
    using m by (auto simp: may_derive_def word_less_nat_alt unat_word_ariths)
  with m c' derived show ?case
    by (auto simp: may_derive_def child_of_def Let_def intro: subset_trans_word order_trans)
qed

definition demo_key :: bytes where
  "demo_key = [0x5E,0xC0,0xDE,0xCA,0xFE,0xBA,0xBE,0xDE,0xAD,0xBE,0xEF,0xCA,0xFE,0xBA,0xBE,0x00,
     0xAA,0xBB,0xCC,0xDD,0xEE,0xFF,0x01,0x23,0x45,0x67,0x89,0xAB,0xCD,0xEF,0x00,0x11]"

definition demo_root :: Capability where
  "demo_root = root_cap demo_key 0xF11E (READ OR WRITE OR DERIVE) 1000"

lemma demo_key_len [simp]: "length demo_key = 32"
  by (simp add: demo_key_def)

lemma demo_root_minted: "Capability_mint demo_key 0xF11E (READ OR WRITE OR DERIVE) 1000 = Some demo_root"
  by (simp add: Capability_mint_eq demo_root_def)

lemma demo_root_derive:
  "Capability_derive demo_root demo_key now r exp =
     Some (if may_derive demo_root now r exp then Some (child_of demo_key demo_root r exp) else None)"
  by (simp add: Capability_derive_eq demo_root_def)

lemma demo_child_derived: "Capability_derive demo_root demo_key 500 READ 800 = Some (Some (child_of demo_key demo_root READ 800))"
  unfolding demo_root_derive
  by (simp add: may_derive_def demo_root_def root_cap_def READ_def WRITE_def DERIVE_def)

lemma demo_child_delegated: "delegated demo_key demo_root 1 (child_of demo_key demo_root READ 800)"
  using delegated.derived[OF delegated.minted[OF demo_root_minted] demo_child_derived] by simp

theorem delegation_attenuates_witness:
  "object_id (child_of demo_key demo_root READ 800) = object_id demo_root \<and>
   expires_at (child_of demo_key demo_root READ 800) \<le> expires_at demo_root"
  using delegation_attenuates[OF demo_child_delegated] by simp

text \<open>C11: A minted or derived capability verifies at exactly the instants before its expiry: it never panics,
  never fails while live, and never verifies again once expired.\<close>

theorem delegated_verifies_until_expiry:
  assumes "delegated k root n c" and "length k = 32"
  shows "Capability_verify c k now = Some (now < expires_at c) \<and>
    (now < expires_at c \<longleftrightarrow> Capability_ttl c now \<noteq> 0)"
  using delegated_signed[OF assms] assms(2) cap_record.signed_checks[of k c now]
  by (auto simp: Capability_ttl_def saturating_sub_def)

theorem delegated_verifies_until_expiry_witness:
  "Capability_verify demo_root demo_key 500 = Some True \<and> Capability_verify demo_root demo_key 1500 = Some False"
  using delegated_verifies_until_expiry[OF delegated.minted[OF demo_root_minted], of 500]
    delegated_verifies_until_expiry[OF delegated.minted[OF demo_root_minted], of 1500]
  by (simp add: demo_root_def root_cap_def)

text \<open>C12: \<open>derive\<close> never panics and succeeds exactly when the parent is authentic and live, holds DERIVE,
  covers every requested right, outlives the child and is less than 64 deep; the child then
  records the hash of the parent's MAC and is authentic itself.\<close>

theorem derive_exact:
  assumes "Capability_ok c" and "length k = 32"
  shows "Capability_derive c k now r exp =
    Some (if Capability_verify c k now = Some True \<and> cap_rights c AND DERIVE \<noteq> 0 \<and>
             r AND NOT (cap_rights c) = 0 \<and> exp \<le> expires_at c \<and> cap_depth c < 64
          then let ph = sha256_spec (cap_mac c); d = cap_depth c + 1
               in Some \<lparr>object_id = object_id c, cap_rights = r, expires_at = exp, cap_depth = d,
                       parent_hash = ph,
                       cap_mac = hmac_spec k (Capability_auth_bytes (object_id c) r exp d ph)\<rparr>
          else None)"
  using assms by (auto simp: Capability_derive_eq Capability_verify_eq may_derive_def child_of_def Let_def)

theorem derive_exact_witness:
  "Capability_derive demo_root demo_key 500 (READ OR EXECUTE) 800 = Some None"
proof -
  have "Capability_ok demo_root" by (simp add: demo_root_def)
  then show ?thesis
    by (subst derive_exact)
      (simp_all add: demo_root_def root_cap_def READ_def WRITE_def DERIVE_def EXECUTE_def)
qed

text \<open>C13: Tampering with an accepted capability. Changing only its MAC makes every later verification fail;
  changing any covered field under the same MAC is accepted only if the two different
  serialisations have the same HMAC under the master key.\<close>

theorem tampering_rejected:
  assumes "length k = 32" "Capability_ok c" "Capability_ok c'" "Capability_verify c k now = Some True"
  shows "(cap_fields c' = cap_fields c \<and> cap_mac c' \<noteq> cap_mac c \<longrightarrow> Capability_verify c' k now' = Some False) \<and>
    (cap_fields c' \<noteq> cap_fields c \<and> cap_mac c' = cap_mac c \<and> Capability_verify c' k now' = Some True \<longrightarrow>
       cap_auth c' \<noteq> cap_auth c \<and> hmac_spec k (cap_auth c') = hmac_spec k (cap_auth c))"
  using cap_record.changed_tag_rejected[OF assms, of now']
    cap_record.changed_field_collides[OF assms, of now'] by blast

theorem tampering_rejected_witness:
  "Capability_verify (demo_root\<lparr>cap_mac := (cap_mac demo_root)[0 := cap_mac demo_root ! 0 XOR 1]\<rparr>) demo_key 500 =
     Some False"
proof -
  let ?m = "cap_mac demo_root" and ?f = "demo_root\<lparr>cap_mac := (cap_mac demo_root)[0 := cap_mac demo_root ! 0 XOR 1]\<rparr>"
  have l: "length ?m = 32" by (simp add: demo_root_def root_cap_def)
  have "?m ! 0 XOR 1 \<noteq> ?m ! 0" by (metis one_neq_zero xor.right_neutral xor_self_eq xor.assoc xor.left_neutral)
  then have ne: "?m[0 := ?m ! 0 XOR 1] \<noteq> ?m" using l by (metis length_0_conv nth_list_update_eq neq0_conv zero_neq_numeral)
  have "Capability_ok demo_root" "Capability_ok ?f" by (simp_all add: demo_root_def root_cap_def Capability_ok_def)
  moreover have "Capability_verify demo_root demo_key 500 = Some True"
    by (simp add: Capability_verify_eq demo_root_def) (simp add: root_cap_def)
  ultimately show ?thesis
    using tampering_rejected[of demo_key demo_root ?f 500 500] ne by simp
qed

end
