(* ===== verification/Meal.thy ===== *)
theory Meal
  imports Mac_Record
begin

text \<open>
  The audit log MEAL (\<open>kernel/src/meal.rs\<close>): a ring of 64 entries, each carrying the hash of
  its predecessor and an HMAC. The ring is refined to the unbounded history of events:
  reachable logs verify, show the latest 64 events in order with consecutive sequence
  numbers, and an accepted log made of authentic entries is a contiguous window of the
  history. What verification does not notice, a truncated window, is stated as well.
\<close>

unbundle bit_operations_syntax

section \<open>Events and entries\<close>

datatype AuditEvent =
  LogInitialised | CapabilityDerived | CapabilityExpired | ProcessCreated | ProcessExited |
  EipcSend | EipcReceive | SyscallDispatched | ScbaFenceFired | DriverLoaded | DriverFaultMmio |
  DriverFaultSyscall | DriverStopped | LatticeReconfigured | MemoryZeroed | BootComplete

fun AuditEvent_code :: "AuditEvent \<Rightarrow> u16" where
  "AuditEvent_code LogInitialised = 0x0000"
| "AuditEvent_code CapabilityDerived = 0x0001"
| "AuditEvent_code CapabilityExpired = 0x0002"
| "AuditEvent_code ProcessCreated = 0x0100"
| "AuditEvent_code ProcessExited = 0x0101"
| "AuditEvent_code EipcSend = 0x0200"
| "AuditEvent_code EipcReceive = 0x0201"
| "AuditEvent_code SyscallDispatched = 0x0300"
| "AuditEvent_code ScbaFenceFired = 0x0500"
| "AuditEvent_code DriverLoaded = 0x0400"
| "AuditEvent_code DriverFaultMmio = 0x0401"
| "AuditEvent_code DriverFaultSyscall = 0x0402"
| "AuditEvent_code DriverStopped = 0x0404"
| "AuditEvent_code LatticeReconfigured = 0x0600"
| "AuditEvent_code MemoryZeroed = 0x0700"
| "AuditEvent_code BootComplete = 0xFF00"

fun AuditEvent_name :: "AuditEvent \<Rightarrow> string" where
  "AuditEvent_name LogInitialised = ''LogInit''"
| "AuditEvent_name CapabilityDerived = ''CapDerived''"
| "AuditEvent_name CapabilityExpired = ''CapExpired''"
| "AuditEvent_name ProcessCreated = ''ProcCreated''"
| "AuditEvent_name ProcessExited = ''ProcExited''"
| "AuditEvent_name EipcSend = ''EipcSend''"
| "AuditEvent_name EipcReceive = ''EipcRecv''"
| "AuditEvent_name SyscallDispatched = ''Syscall''"
| "AuditEvent_name ScbaFenceFired = ''ScbaFence''"
| "AuditEvent_name DriverLoaded = ''DrvLoaded''"
| "AuditEvent_name DriverFaultMmio = ''DrvFaultMmio''"
| "AuditEvent_name DriverFaultSyscall = ''DrvFaultSys''"
| "AuditEvent_name DriverStopped = ''DrvStopped''"
| "AuditEvent_name LatticeReconfigured = ''LatticeReconf''"
| "AuditEvent_name MemoryZeroed = ''MemZeroed''"
| "AuditEvent_name BootComplete = ''BootDone''"

record AuditEntry =
  sequence :: u64
  timestamp :: u64
  event_type :: AuditEvent
  actor :: u32
  value_a :: u64
  value_b :: u64
  prev_hash :: bytes
  entry_mac :: bytes

definition AuditEntry_auth_bytes :: "AuditEntry \<Rightarrow> bytes" where
  "AuditEntry_auth_bytes e =
     (let b = replicate 80 0;
          b = copy_at 0 (to_le_bytes 8 (sequence e)) b;
          b = copy_at 8 (to_le_bytes 8 (timestamp e)) b;
          b = copy_at 16 (to_le_bytes 2 (AuditEvent_code (event_type e))) b;
          b = copy_at 24 (to_le_bytes 4 (actor e)) b;
          b = copy_at 32 (to_le_bytes 8 (value_a e)) b;
          b = copy_at 40 (to_le_bytes 8 (value_b e)) b;
          b = copy_at 48 (prev_hash e) b
      in b)"

definition AuditEntry_self_hash :: "AuditEntry \<Rightarrow> bytes panics" where
  "AuditEntry_self_hash e = sha256 (AuditEntry_auth_bytes e)"

section \<open>The log\<close>

definition CAPACITY :: nat where "CAPACITY = 64"

record MealLog =
  entries :: "AuditEntry option list"
  write_head :: nat
  total :: u64
  chain_tip :: bytes
  audit_key :: bytes

definition MealLog_new :: "bytes \<Rightarrow> MealLog panics" where
  "MealLog_new key = do {
     tip \<leftarrow> sha256 (ascii ''AXIOM-MEAL-GENESIS-v4'');
     Some \<lparr>entries = replicate CAPACITY None, write_head = 0, total = 0, chain_tip = tip,
           audit_key = key\<rparr> }"

text \<open>\<open>append\<close>, with the value of the atomic \<open>TICKS\<close> as an argument.\<close>

definition MealLog_append ::
  "MealLog \<Rightarrow> u64 \<Rightarrow> AuditEvent \<Rightarrow> u32 \<Rightarrow> u64 \<Rightarrow> u64 \<Rightarrow> (u64 \<times> MealLog) panics" where
  "MealLog_append m ticks ev act a b =
     (let seq = total m;
          e = \<lparr>sequence = seq, timestamp = ticks, event_type = ev, actor = act, value_a = a,
               value_b = b, prev_hash = chain_tip m, entry_mac = replicate 32 0\<rparr>
      in do {
        tag \<leftarrow> hmac_sha256 (audit_key m) (AuditEntry_auth_bytes e);
        let e = e\<lparr>entry_mac := tag\<rparr> in do {
        tip \<leftarrow> AuditEntry_self_hash e;
        let m = m\<lparr>chain_tip := tip, entries := (entries m)[write_head m := Some e],
                  write_head := (write_head m + 1) mod CAPACITY\<rparr> in do {
        t \<leftarrow> add_chk (total m) 1;
        Some (seq, m\<lparr>total := t\<rparr>) } } })"

definition MealLog_verify_entry :: "MealLog \<Rightarrow> AuditEntry \<Rightarrow> bool panics" where
  "MealLog_verify_entry m e = do {
     exp \<leftarrow> hmac_sha256 (audit_key m) (AuditEntry_auth_bytes e);
     Some (ct_diff 32 exp (entry_mac e) = 0) }"

fun verify_chain_loop :: "MealLog \<Rightarrow> nat list \<Rightarrow> bytes option \<Rightarrow> nat \<Rightarrow> (nat \<times> bool) panics" where
  "verify_chain_loop m [] prev n = Some (n, True)"
| "verify_chain_loop m (i # is) prev n =
     (case entries m ! ((write_head m + i) mod CAPACITY) of
        None \<Rightarrow> verify_chain_loop m is prev n
      | Some e \<Rightarrow> do {
          ok \<leftarrow> MealLog_verify_entry m e;
          if \<not> ok then Some (n, False)
          else if (case prev of Some ph \<Rightarrow> prev_hash e \<noteq> ph | None \<Rightarrow> False) then Some (n, False)
          else do {
            h \<leftarrow> AuditEntry_self_hash e;
            verify_chain_loop m is (Some h) (n + 1) } })"

definition MealLog_verify_chain :: "MealLog \<Rightarrow> (nat \<times> bool) panics" where
  "MealLog_verify_chain m = verify_chain_loop m [0..<CAPACITY] None 0"

definition MealLog_entry_count :: "MealLog \<Rightarrow> u64" where
  "MealLog_entry_count m = total m"

text \<open>\<open>print_all\<close> as the list of printed rows: sequence, time, event name, actor, value and the
  first four bytes of the entry hash.\<close>

type_synonym row = "u64 \<times> u64 \<times> string \<times> u32 \<times> u64 \<times> bytes"

fun print_all_loop :: "MealLog \<Rightarrow> nat list \<Rightarrow> row list panics" where
  "print_all_loop m [] = Some []"
| "print_all_loop m (i # is) =
     (case entries m ! ((write_head m + i) mod CAPACITY) of
        None \<Rightarrow> print_all_loop m is
      | Some e \<Rightarrow> do {
          h \<leftarrow> AuditEntry_self_hash e;
          rows \<leftarrow> print_all_loop m is;
          Some ((sequence e, timestamp e, AuditEvent_name (event_type e), actor e, value_a e,
                 [h ! 0, h ! 1, h ! 2, h ! 3]) # rows) })"

definition MealLog_print_all :: "MealLog \<Rightarrow> row list panics" where
  "MealLog_print_all m = print_all_loop m [0..<CAPACITY]"

definition K_AUDIT :: bytes where
  "K_AUDIT = [0xA1,0xB2,0xC3,0xD4,0xE5,0xF6,0x07,0x18,0x29,0x3A,0x4B,0x5C,0x6D,0x7E,0x8F,0x90,
     0xA1,0xB2,0xC3,0xD4,0xE5,0xF6,0x07,0x18,0x29,0x3A,0x4B,0x5C,0x6D,0x7E,0x8F,0x90]"

text \<open>\<open>meal::log\<close> on the global log behind its spin lock: a held lock drops the event.\<close>

definition meal_log :: "bool \<Rightarrow> MealLog \<Rightarrow> u64 \<Rightarrow> AuditEvent \<Rightarrow> u32 \<Rightarrow> u64 \<Rightarrow> u64 \<Rightarrow> MealLog panics" where
  "meal_log locked m ticks ev act a b =
     (if locked then Some m
      else do { (_, m) \<leftarrow> MealLog_append m ticks ev act a b; Some m })"

section \<open>Serialisation\<close>

definition AuditEntry_ok :: "AuditEntry \<Rightarrow> bool" where
  "AuditEntry_ok e \<longleftrightarrow> length (prev_hash e) = 32 \<and> length (entry_mac e) = 32"

abbreviation entry_fields ::
  "AuditEntry \<Rightarrow> u64 \<times> u64 \<times> AuditEvent \<times> u32 \<times> u64 \<times> u64 \<times> bytes" where
  "entry_fields e \<equiv>
     (sequence e, timestamp e, event_type e, actor e, value_a e, value_b e, prev_hash e)"

lemma AuditEvent_code_inject [simp]: "AuditEvent_code e = AuditEvent_code e' \<longleftrightarrow> e = e'"
  by (cases e; cases e') simp_all

lemma entry_auth_bytes_eq:
  "length (prev_hash e) = 32 \<Longrightarrow>
   AuditEntry_auth_bytes e =
     to_le_bytes 8 (sequence e) @ to_le_bytes 8 (timestamp e) @
     to_le_bytes 2 (AuditEvent_code (event_type e)) @ replicate 6 0 @
     to_le_bytes 4 (actor e) @ replicate 4 0 @
     to_le_bytes 8 (value_a e) @ to_le_bytes 8 (value_b e) @ prev_hash e"
  by (simp add: AuditEntry_auth_bytes_def Let_def copy_at_fill)

lemma length_entry_auth_bytes: "length (prev_hash e) = 32 \<Longrightarrow> length (AuditEntry_auth_bytes e) = 80"
  by (simp add: entry_auth_bytes_eq)

lemma entry_auth_bytes_inject:
  "length (prev_hash e) = 32 \<Longrightarrow> length (prev_hash e') = 32 \<Longrightarrow>
   AuditEntry_auth_bytes e = AuditEntry_auth_bytes e' \<longleftrightarrow> entry_fields e = entry_fields e'"
  by (auto simp: entry_auth_bytes_eq to_le_bytes_inject)

abbreviation entry_hash :: "AuditEntry \<Rightarrow> bytes" where
  "entry_hash e \<equiv> sha256_spec (AuditEntry_auth_bytes e)"

lemma self_hash_eq [ret_simps]:
  "length (prev_hash e) = 32 \<Longrightarrow> AuditEntry_self_hash e = Some (entry_hash e)"
  unfolding AuditEntry_self_hash_def by (intro sha256_eq_spec) (simp add: length_entry_auth_bytes)

lemma hmac_entry [ret_simps]:
  "length k = 32 \<Longrightarrow> length (prev_hash e) = 32 \<Longrightarrow>
   hmac_sha256 k (AuditEntry_auth_bytes e) = Some (hmac_spec k (AuditEntry_auth_bytes e))"
  by (intro hmac_sha256_eq_spec) (simp_all add: length_entry_auth_bytes)

lemma verify_entry_eq:
  "AuditEntry_ok e \<Longrightarrow> length (audit_key m) = 32 \<Longrightarrow>
   MealLog_verify_entry m e = Some (entry_mac e = hmac_spec (audit_key m) (AuditEntry_auth_bytes e))"
  by (auto simp: MealLog_verify_entry_def AuditEntry_ok_def ret_simps ct_diff_0_eq)

interpretation audit_record: mac_record AuditEntry_auth_bytes entry_mac entry_fields "\<lambda>m e. True"
  AuditEntry_ok "\<lambda>k m e. MealLog_verify_entry (m\<lparr>audit_key := k\<rparr>) e"
  by unfold_locales (simp_all add: entry_auth_bytes_inject verify_entry_eq AuditEntry_ok_def)

section \<open>What verification checks\<close>

definition visible :: "MealLog \<Rightarrow> AuditEntry list" where
  "visible m = cat_options (rotate (write_head m) (entries m))"

definition MealLog_ok :: "MealLog \<Rightarrow> bool" where
  "MealLog_ok m \<longleftrightarrow> length (entries m) = CAPACITY \<and> write_head m < CAPACITY \<and> length (audit_key m) = 32 \<and>
     (\<forall>e \<in> set (visible m). AuditEntry_ok e)"

abbreviation signed :: "bytes \<Rightarrow> AuditEntry \<Rightarrow> bool" where
  "signed k e \<equiv> entry_mac e = hmac_spec k (AuditEntry_auth_bytes e)"

fun linked_from :: "bytes \<Rightarrow> AuditEntry list \<Rightarrow> bool" where
  "linked_from h [] = True"
| "linked_from h (e # es) = (prev_hash e = h \<and> linked_from (entry_hash e) es)"

fun linked :: "AuditEntry list \<Rightarrow> bool" where
  "linked [] = True"
| "linked (e # es) = linked_from (entry_hash e) es"

fun check_entries :: "bytes \<Rightarrow> bytes option \<Rightarrow> nat \<Rightarrow> AuditEntry list \<Rightarrow> nat \<times> bool" where
  "check_entries k prev n [] = (n, True)"
| "check_entries k prev n (e # es) =
     (if \<not> signed k e then (n, False)
      else if (case prev of Some ph \<Rightarrow> prev_hash e \<noteq> ph | None \<Rightarrow> False) then (n, False)
      else check_entries k (Some (entry_hash e)) (n + 1) es)"

lemma verify_chain_loop_eq:
  assumes "length (audit_key m) = 32"
    and "\<forall>e \<in> set (cat_options (map (\<lambda>i. entries m ! ((write_head m + i) mod CAPACITY)) is)). AuditEntry_ok e"
  shows "verify_chain_loop m is prev n =
    Some (check_entries (audit_key m) prev n (cat_options (map (\<lambda>i. entries m ! ((write_head m + i) mod CAPACITY)) is)))"
  using assms
proof (induction "is" arbitrary: prev n)
  case (Cons i "is")
  then show ?case
    by (cases "entries m ! ((write_head m + i) mod CAPACITY)")
      (auto simp: verify_entry_eq ret_simps AuditEntry_ok_def)
qed simp

lemma verify_chain_eq:
  "MealLog_ok m \<Longrightarrow> MealLog_verify_chain m = Some (check_entries (audit_key m) None 0 (visible m))"
  by (simp add: MealLog_verify_chain_def verify_chain_loop_eq MealLog_ok_def visible_def map_nth_rotate)

lemma check_entries_Some:
  "check_entries k (Some h) n es = (m, True) \<longleftrightarrow>
     m = n + length es \<and> (\<forall>e \<in> set es. signed k e) \<and> linked_from h es"
  by (induction es arbitrary: h n) auto

lemma check_entries_None:
  "check_entries k None n es = (m, True) \<longleftrightarrow>
     m = n + length es \<and> (\<forall>e \<in> set es. signed k e) \<and> linked es"
  by (cases es) (auto simp: check_entries_Some)

lemma verify_chain_iff:
  "MealLog_ok m \<Longrightarrow> MealLog_verify_chain m = Some (n, True) \<longleftrightarrow>
     n = length (visible m) \<and> (\<forall>e \<in> set (visible m). signed (audit_key m) e) \<and> linked (visible m)"
  by (simp add: verify_chain_eq check_entries_None)

text \<open>What \<open>print_all\<close> prints of an entry.\<close>

definition print_row :: "AuditEntry \<Rightarrow> row" where
  "print_row e = (sequence e, timestamp e, AuditEvent_name (event_type e), actor e, value_a e, map ((!) (entry_hash e)) [0, 1, 2, 3])"

lemma print_all_loop_eq:
  assumes "\<forall>e \<in> set (cat_options (map (\<lambda>i. entries m ! ((write_head m + i) mod CAPACITY)) is)). AuditEntry_ok e"
  shows "print_all_loop m is = Some (map print_row (cat_options (map (\<lambda>i. entries m ! ((write_head m + i) mod CAPACITY)) is)))"
  using assms
proof (induction "is")
  case (Cons i "is")
  then show ?case
    by (cases "entries m ! ((write_head m + i) mod CAPACITY)") (auto simp: print_row_def ret_simps AuditEntry_ok_def)
qed simp

lemma print_all_eq: "MealLog_ok m \<Longrightarrow> MealLog_print_all m = Some (map print_row (visible m))"
  by (simp add: MealLog_print_all_def print_all_loop_eq MealLog_ok_def visible_def map_nth_rotate)

lemma append_ok:
  assumes "MealLog_ok m" "length (chain_tip m) = 32" "total m \<noteq> - 1"
  shows "\<exists>m'. MealLog_append m t ev act a b = Some (total m, m') \<and> MealLog_ok m' \<and> length (chain_tip m') = 32 \<and> total m' = total m + 1"
proof -
  have len: "length (audit_key m) = 32" "length (entries m) = CAPACITY" "write_head m < CAPACITY"
    and es: "\<And>e. Some e \<in> set (entries m) \<Longrightarrow> AuditEntry_ok e"
    using assms(1) by (auto simp: MealLog_ok_def visible_def in_cat_options)
  have t: "add_chk (total m) 1 = Some (total m + 1)"
    using assms(3) by (rule add_chk_1)
  have new: "AuditEntry_ok e" if "Some e \<in> set ((entries m)[write_head m := Some e'])" "AuditEntry_ok e'" for e e'
    using that es set_update_subset_insert[of "entries m" "write_head m" "Some e'"] by blast
  show ?thesis
    using len assms(2) t new
    by (auto simp: MealLog_append_def Let_def ret_simps MealLog_ok_def visible_def in_cat_options AuditEntry_ok_def CAPACITY_def)
qed

section \<open>The history of events\<close>

definition GENESIS :: bytes where "GENESIS = ascii ''AXIOM-MEAL-GENESIS-v4''"

type_synonym event = "u64 \<times> AuditEvent \<times> u32 \<times> u64 \<times> u64"

definition tip :: "AuditEntry list \<Rightarrow> bytes" where
  "tip H = (if H = [] then sha256_spec GENESIS else entry_hash (last H))"

fun next_entry :: "bytes \<Rightarrow> AuditEntry list \<Rightarrow> event \<Rightarrow> AuditEntry" where
  "next_entry k H (t, ev, act, a, b) =
     (let e = \<lparr>sequence = word_of_nat (length H), timestamp = t, event_type = ev, actor = act, value_a = a,
               value_b = b, prev_hash = tip H, entry_mac = replicate 32 0\<rparr>
      in e\<lparr>entry_mac := hmac_spec k (AuditEntry_auth_bytes e)\<rparr>)"

definition history :: "bytes \<Rightarrow> event list \<Rightarrow> AuditEntry list" where
  "history k evs = foldl (\<lambda>H ev. H @ [next_entry k H ev]) [] evs"

fun payload :: "AuditEntry \<Rightarrow> event" where
  "payload e = (timestamp e, event_type e, actor e, value_a e, value_b e)"

lemma history_Nil [simp]: "history k [] = []"
  by (simp add: history_def)

lemma history_snoc [simp]: "history k (evs @ [ev]) = history k evs @ [next_entry k (history k evs) ev]"
  by (simp add: history_def)

lemma length_history [simp]: "length (history k evs) = length evs"
  by (induction evs rule: rev_induct) simp_all

lemma auth_bytes_mac [simp]: "AuditEntry_auth_bytes (e\<lparr>entry_mac := x\<rparr>) = AuditEntry_auth_bytes e"
  by (simp add: AuditEntry_auth_bytes_def)

lemma auth_bytes_lit:
  "NO_MATCH (replicate 32 0) x \<Longrightarrow>
   AuditEntry_auth_bytes \<lparr>sequence = s, timestamp = t, event_type = ev, actor = act, value_a = a,
     value_b = b, prev_hash = p, entry_mac = x\<rparr> =
   AuditEntry_auth_bytes \<lparr>sequence = s, timestamp = t, event_type = ev, actor = act, value_a = a,
     value_b = b, prev_hash = p, entry_mac = replicate 32 0\<rparr>"
  by (simp add: AuditEntry_auth_bytes_def)

lemma length_tip [simp]: "length (tip H) = 32"
  by (simp add: tip_def)

lemma next_entry_simps [simp]:
  "sequence (next_entry k H ev) = word_of_nat (length H)"
  "prev_hash (next_entry k H ev) = tip H"
  "payload (next_entry k H ev) = ev"
  "length (entry_mac (next_entry k H ev)) = 32"
  by (cases ev, simp add: Let_def)+

lemma next_entry_ok [simp]: "AuditEntry_ok (next_entry k H ev)"
  by (simp add: AuditEntry_ok_def del: next_entry.simps)

lemma next_entry_signed [simp]: "signed k (next_entry k H ev)"
  by (cases ev) (simp add: Let_def auth_bytes_lit)

declare next_entry.simps [simp del] payload.simps [simp del]

lemma linked_from_snoc:
  "linked_from h (es @ [e]) \<longleftrightarrow> linked_from h es \<and> prev_hash e = (if es = [] then h else entry_hash (last es))"
  by (induction es arbitrary: h) auto

lemma history_linked: "linked_from (sha256_spec GENESIS) (history k evs)"
  by (induction evs rule: rev_induct) (simp_all add: linked_from_snoc tip_def)

lemma history_entries:
  "e \<in> set (history k evs) \<Longrightarrow> signed k e \<and> AuditEntry_ok e"
  by (induction evs rule: rev_induct) auto

lemma history_sequence: "map sequence (history k evs) = map word_of_nat [0..<length evs]"
  by (induction evs rule: rev_induct) simp_all

lemma history_payload: "map payload (history k evs) = evs"
  by (induction evs rule: rev_induct) simp_all

lemma linked_from_drop: "linked_from h es \<Longrightarrow> linked (drop n es)"
proof (induction es arbitrary: h n)
  case (Cons e es)
  then show ?case by (cases n) auto
qed simp

section \<open>The ring refines the history\<close>

definition refines :: "bytes \<Rightarrow> MealLog \<Rightarrow> event list \<Rightarrow> bool" where
  "refines k m evs \<longleftrightarrow> length (entries m) = CAPACITY \<and> write_head m < CAPACITY \<and> audit_key m = k \<and> length k = 32 \<and>
     rotate (write_head m) (entries m) =
       replicate (CAPACITY - length evs) None @ map Some (drop (length evs - CAPACITY) (history k evs)) \<and>
     unat (total m) = length evs \<and> chain_tip m = tip (history k evs)"

lemma refines_visible: "refines k m evs \<Longrightarrow> visible m = drop (length evs - CAPACITY) (history k evs)"
  by (simp add: refines_def visible_def)

lemma refines_ok: "refines k m evs \<Longrightarrow> MealLog_ok m"
  using refines_visible[of k m evs] history_entries[of _ k evs]
  by (auto simp: refines_def MealLog_ok_def dest: in_set_dropD)

lemma refines_new:
  "length k = 32 \<Longrightarrow> \<exists>m. MealLog_new k = Some m \<and> refines k m []"
proof -
  have "sha256 GENESIS = Some (sha256_spec GENESIS)"
    by (intro sha256_eq_spec) (simp add: GENESIS_def)
  then show "length k = 32 \<Longrightarrow> ?thesis"
    by (simp add: MealLog_new_def refines_def tip_def CAPACITY_def flip: GENESIS_def)
qed

lemma drop_push:
  "tl (replicate (c - length xs) None @ map Some (drop (length xs - c) xs)) @ [Some x] =
   replicate (c - Suc (length xs)) None @ map Some (drop (Suc (length xs) - c) (xs @ [x]))" if "0 < c"
proof (cases "length xs < c")
  case True
  then show ?thesis by (cases "c - length xs") auto
next
  case False
  then have "Suc (length xs) - c = Suc (length xs - c)" by simp
  with False that show ?thesis by (simp add: drop_Suc tl_drop[symmetric] map_tl)
qed

lemma append_refines:
  assumes r: "refines k m evs" and l: "length evs < 2 ^ 64 - 1"
  shows "\<exists>m'. MealLog_append m t ev act a b = Some (word_of_nat (length evs), m') \<and>
    refines k m' (evs @ [(t, ev, act, a, b)])"
proof -
  let ?e = "next_entry k (history k evs) (t, ev, act, a, b)"
  have t: "total m = word_of_nat (length evs)" "chain_tip m = tip (history k evs)" "audit_key m = k" "length k = 32"
    using r by (auto simp: refines_def intro: unat_eq_word_of_nat)
  have n: "add_chk (word_of_nat (length evs)) (1::u64) = Some (word_of_nat (Suc (length evs)))"
    using l by (simp add: add_chk_def unat_of_nat)
  have a: "MealLog_append m t ev act a b = Some (word_of_nat (length evs),
      m\<lparr>chain_tip := entry_hash ?e, entries := (entries m)[write_head m := Some ?e],
        write_head := (write_head m + 1) mod CAPACITY, total := word_of_nat (Suc (length evs))\<rparr>)"
    unfolding MealLog_append_def Let_def using t
    by (simp add: ret_simps n next_entry.simps Let_def auth_bytes_lit)
  show ?thesis
    unfolding a using r l rotate_push[of "entries m" CAPACITY "write_head m" "Some ?e"]
      drop_push[of CAPACITY "history k evs" ?e]
    by (simp add: refines_def CAPACITY_def tip_def unat_of_nat del: of_nat_Suc)
qed

lemma meal_log_refines:
  assumes "refines k m evs" "length evs < 2 ^ 64 - 1"
  shows "\<exists>m'. meal_log locked m t ev act a b = Some m' \<and> refines k m' (if locked then evs else evs @ [(t, ev, act, a, b)])"
  using append_refines[OF assms, of t ev act a b] assms(1) by (auto simp: meal_log_def)

lemma refines_verifies:
  assumes "refines k m evs"
  shows "MealLog_verify_chain m = Some (min CAPACITY (length evs), True)"
proof -
  note v = refines_visible[OF assms]
  have "audit_key m = k" using assms by (simp add: refines_def)
  then show ?thesis
    unfolding verify_chain_iff[OF refines_ok[OF assms]] v
    using history_entries[of _ k evs] linked_from_drop[OF history_linked[of k evs]] by (auto dest: in_set_dropD)
qed

text \<open>\<open>logged k evs m\<close>: \<open>m\<close> is the log after the calls of \<open>append\<close> recorded in \<open>evs\<close>.\<close>

inductive logged :: "bytes \<Rightarrow> event list \<Rightarrow> MealLog \<Rightarrow> bool" for k where
  empty: "MealLog_new k = Some m \<Longrightarrow> logged k [] m"
| push: "logged k evs m \<Longrightarrow> MealLog_append m t ev act a b = Some (seq, m') \<Longrightarrow>
    logged k (evs @ [(t, ev, act, a, b)]) m'"

lemma append_total_bound:
  "MealLog_append m t ev act a b = Some (seq, m') \<Longrightarrow> unat (total m) < 2 ^ 64 - 1"
  by (auto simp: MealLog_append_def Let_def add_chk_def split: bind_splits if_splits)

lemma logged_refines: "logged k evs m \<Longrightarrow> length k = 32 \<Longrightarrow> refines k m evs"
proof (induction rule: logged.induct)
  case (empty m)
  then show ?case using refines_new[of k] by auto
next
  case (push evs m t ev act a b seq m')
  then have r: "refines k m evs" by simp
  then have "length evs < 2 ^ 64 - 1" using append_total_bound[OF push(2)] by (simp add: refines_def)
  from append_refines[OF r this, of t ev act a b] push(2) show ?case by auto
qed

lemma logged_exists:
  "length k = 32 \<Longrightarrow> length evs < 2 ^ 64 \<Longrightarrow> \<exists>m. logged k evs m"
proof (induction evs rule: rev_induct)
  case Nil
  then show ?case using refines_new[of k] logged.empty by blast
next
  case (snoc e evs)
  then obtain m where m: "logged k evs m" by auto
  obtain t ev act a b where e: "e = (t, ev, act, a, b)" by (cases e)
  from append_refines[OF logged_refines[OF m], of t ev act a b] snoc.prems
  show ?case unfolding e by (auto intro: logged.push[OF m])
qed

lemma seq_window:
  "map sequence (drop n (history k evs)) = map word_of_nat [n..<length evs]"
  by (metis add_0 drop_map drop_upt history_sequence)

section \<open>Accepted logs are windows of the history\<close>

lemma history_nth:
  assumes "i < length evs"
  shows "sequence (history k evs ! i) = word_of_nat i"
    and "prev_hash (history k evs ! i) =
      (if i = 0 then sha256_spec GENESIS else entry_hash (history k evs ! (i - 1)))"
proof -
  have "map sequence (history k evs) ! i = map word_of_nat [0..<length evs] ! i"
    by (simp add: history_sequence)
  with assms show "sequence (history k evs ! i) = word_of_nat i" by simp
  have "linked_from h es \<Longrightarrow> i < length es \<Longrightarrow>
      prev_hash (es ! i) = (if i = 0 then h else entry_hash (es ! (i - 1)))" for h es i
  proof (induction es arbitrary: h i)
    case (Cons e es)
    then show ?case by (cases i) (auto simp: nth_Cons')
  qed simp
  from this[OF history_linked, of i k evs] assms
  show "prev_hash (history k evs ! i) =
      (if i = 0 then sha256_spec GENESIS else entry_hash (history k evs ! (i - 1)))"
    by simp
qed

text \<open>The strings hashed for the chain; the window property needs SHA-256 to be injective on them.\<close>

definition chain_strings :: "bytes \<Rightarrow> event list \<Rightarrow> bytes set" where
  "chain_strings k evs = insert GENESIS (AuditEntry_auth_bytes ` set (history k evs))"

lemma link_is_successor:
  assumes inj: "inj_on sha256_spec (chain_strings k evs)" and l: "length evs < 2 ^ 64"
    and i: "i < length evs" and j: "j < length evs"
    and p: "prev_hash (history k evs ! j) = entry_hash (history k evs ! i)"
  shows "j = Suc i"
proof -
  let ?H = "history k evs"
  have s: "AuditEntry_auth_bytes (?H ! i) \<in> chain_strings k evs" if "i < length evs" for i
    using that by (auto simp: chain_strings_def)
  have ok: "length (prev_hash (?H ! i)) = 32" if "i < length evs" for i
    using that history_entries[of "?H ! i" k evs] by (auto simp: AuditEntry_ok_def)
  show ?thesis
  proof (cases j)
    case 0
    then have "GENESIS = AuditEntry_auth_bytes (?H ! i)"
      using p j history_nth(2)[of 0 evs k] inj_onD[OF inj, of GENESIS, OF _ _ s[OF i]] by (auto simp: chain_strings_def)
    then have "length GENESIS = 80" using length_entry_auth_bytes[OF ok[OF i]] by simp
    then show ?thesis by (simp add: GENESIS_def)
  next
    case (Suc m)
    with j have m: "m < length evs" by simp
    have "entry_hash (?H ! m) = entry_hash (?H ! i)"
      using history_nth(2)[OF j, of k] by (simp only: p[symmetric] Suc) simp
    from inj_onD[OF inj this s[OF m] s[OF i]] have "sequence (?H ! m) = sequence (?H ! i)"
      using entry_auth_bytes_inject[OF ok[OF m] ok[OF i]] by simp
    then have "(word_of_nat m :: u64) = word_of_nat i"
      using history_nth(1)[OF m, of k] history_nth(1)[OF i, of k] by simp
    then have "m = i" using l m i by (simp add: word_unat_eq_iff unat_of_nat)
    with Suc show ?thesis by simp
  qed
qed

lemma linked_window:
  assumes "inj_on sha256_spec (chain_strings k evs)" "length evs < 2 ^ 64"
    and "i < length evs" "set es \<subseteq> set (history k evs)" "linked_from (entry_hash (history k evs ! i)) es"
  shows "es = take (length es) (drop (Suc i) (history k evs))"
  using assms(3-)
proof (induction es arbitrary: i)
  case (Cons e es)
  then obtain j where j: "j < length evs" "e = history k evs ! j" by (auto simp: in_set_conv_nth)
  have "j = Suc i" using link_is_successor[OF assms(1,2) Cons.prems(1) j(1)] Cons.prems(3) j(2) by simp
  with j Cons.IH[of j] Cons.prems show ?case by (simp add: Cons_nth_drop_Suc[symmetric])
qed simp

section \<open>Properties\<close>

text \<open>C4: After any sequence of appended events the log verifies completely and shows exactly the latest
  64 events in the order they happened, numbered consecutively; the next append does not
  panic (short of \<open>2 ^ 64\<close> events) and returns the number of events before it.\<close>

theorem log_shows_latest_events:
  assumes "logged k evs m" and "length k = 32"
  shows "MealLog_verify_chain m = Some (min (length evs) 64, True) \<and>
    map payload (visible m) = drop (length evs - 64) evs \<and>
    map sequence (visible m) = map word_of_nat [length evs - 64..<length evs] \<and>
    (length evs < 2 ^ 64 - 1 \<longrightarrow>
       (\<exists>m'. MealLog_append m t ev act a b = Some (MealLog_entry_count m, m') \<and>
             logged k (evs @ [(t, ev, act, a, b)]) m'))"
proof -
  have r: "refines k m evs" using logged_refines[OF assms] .
  note v = refines_visible[OF r]
  have "MealLog_verify_chain m = Some (min (length evs) 64, True)"
    using verify_chain_iff[OF refines_ok[OF r]] r v history_entries[of _ k evs]
      linked_from_drop[OF history_linked, of "length evs - 64" k evs]
    by (auto simp: CAPACITY_def refines_def dest: in_set_dropD)
  moreover have "map payload (visible m) = drop (length evs - 64) evs"
    by (simp add: v CAPACITY_def drop_map[symmetric] history_payload)
  moreover have "map sequence (visible m) = map word_of_nat [length evs - 64..<length evs]"
    using seq_window[of "length evs - 64" k evs] by (simp add: v CAPACITY_def)
  moreover have "total m = word_of_nat (length evs)"
    using r by (auto simp: refines_def intro: unat_eq_word_of_nat)
  ultimately show ?thesis
    using append_refines[OF r, of t ev act a b] by (auto simp: MealLog_entry_count_def intro: logged.push[OF assms(1)])
qed

lemma length_K_AUDIT [simp]: "length K_AUDIT = 32"
  by (simp add: K_AUDIT_def)

theorem log_shows_latest_events_witness:
  "\<exists>m. logged K_AUDIT [(5, BootComplete, 0, 7, 8)] m \<and> MealLog_verify_chain m = Some (1, True) \<and>
       map payload (visible m) = [(5, BootComplete, 0, 7, 8)] \<and> map sequence (visible m) = [0]"
proof -
  obtain m where "logged K_AUDIT [(5, BootComplete, 0, 7, 8)] m"
    using logged_exists[of K_AUDIT "[(5, BootComplete, 0, 7, 8)]"] by auto
  with log_shows_latest_events[OF this] show ?thesis by auto
qed

text \<open>C5: Whatever is done to the ring and its indices, if the log still verifies and holds only authentic
  entries, then it is a contiguous window of the true history, in order and without gaps or
  repetitions, unless two of the strings hashed for the chain collide under SHA-256.\<close>

theorem accepted_log_is_window:
  assumes "MealLog_ok m" and "set (visible m) \<subseteq> set (history (audit_key m) evs)" and "length evs < 2 ^ 64"
    and "MealLog_verify_chain m = Some (n, True)"
  shows "(\<exists>i. visible m = take n (drop i (history (audit_key m) evs))) \<or>
    \<not> inj_on sha256_spec (chain_strings (audit_key m) evs)"
proof (cases "visible m")
  case Nil
  then show ?thesis using assms(1,4) by (auto simp: verify_chain_iff)
next
  case (Cons e es)
  let ?H = "history (audit_key m) evs"
  obtain i where i: "i < length evs" "e = ?H ! i"
    using assms(2) Cons by (auto simp: in_set_conv_nth)
  have n: "n = Suc (length es)" and l: "linked_from (entry_hash (?H ! i)) es"
    using assms(1,4) Cons i(2) by (auto simp: verify_chain_iff)
  have "visible m = take n (drop i ?H)" if inj: "inj_on sha256_spec (chain_strings (audit_key m) evs)"
    using linked_window[OF inj assms(3) i(1) _ l] assms(2) Cons i n
    by (simp add: Cons_nth_drop_Suc[symmetric])
  then show ?thesis by blast
qed

theorem accepted_log_is_window_witness:
  "\<exists>m. MealLog_verify_chain m = Some (1, True) \<and>
     ((\<exists>i. visible m = take 1 (drop i (history K_AUDIT [(5, BootComplete, 0, 7, 8)]))) \<or>
      \<not> inj_on sha256_spec (chain_strings K_AUDIT [(5, BootComplete, 0, 7, 8)]))"
proof -
  let ?evs = "[(5, BootComplete, 0, 7, 8)] :: event list"
  obtain m where m: "logged K_AUDIT ?evs m" using logged_exists[of K_AUDIT ?evs] by auto
  then have r: "refines K_AUDIT m ?evs" by (simp add: logged_refines)
  have v: "visible m = history K_AUDIT ?evs" using refines_visible[OF r] by (simp add: CAPACITY_def)
  have k: "audit_key m = K_AUDIT" using r by (simp add: refines_def)
  have c: "MealLog_verify_chain m = Some (1, True)"
    using verify_chain_iff[OF refines_ok[OF r], of 1] history_entries[of _ K_AUDIT ?evs]
      linked_from_drop[OF history_linked, of 0 K_AUDIT ?evs] by (auto simp: v k)
  show ?thesis
    using accepted_log_is_window[OF refines_ok[OF r], of ?evs 1] c v k by auto
qed

text \<open>Verification does not notice truncation at the young end: clearing the slot of the newest entry of
  any non-empty log leaves a log that verifies with one entry less. Neither \<open>chain_tip\<close> nor
  \<open>total\<close> is compared with the entries.\<close>

theorem newest_entry_deletable:
  assumes "logged k evs m" and "length k = 32" and "evs \<noteq> []"
  shows "MealLog_verify_chain (m\<lparr>entries := (entries m)[(write_head m + 63) mod 64 := None]\<rparr>) =
    Some (min (length evs) 64 - 1, True)"
proof -
  have r: "refines k m evs" using logged_refines[OF assms(1,2)] .
  let ?H = "drop (length evs - 64) (history k evs)"
  let ?m = "m\<lparr>entries := (entries m)[(write_head m + 63) mod 64 := None]\<rparr>"
  let ?p = "replicate (64 - length evs) None @ map Some (butlast ?H)"
  have H: "?H \<noteq> []" using assms(3) by (cases evs) auto
  have "rotate (write_head m) (entries ?m) = (replicate (64 - length evs) None @ map Some ?H)[63 := None]"
    using r rotate_update[of "entries m" 64 63 "write_head m" None] by (simp add: refines_def CAPACITY_def)
  also have "replicate (64 - length evs) None @ map Some ?H = ?p @ [Some (last ?H)]"
    using arg_cong[OF append_butlast_last_id[OF H], of "map Some"] by simp
  also have "(?p @ [Some (last ?H)])[63 := None] = ?p @ [None]"
  proof -
    have "length ?p = 63" using assms(3) by (cases evs) auto
    then show ?thesis using list_update_length[of ?p "Some (last ?H)" "[]" None] by simp
  qed
  finally have v: "visible ?m = butlast ?H" by (simp add: visible_def)
  have b: "butlast ?H = drop (length evs - 64) (history k (butlast evs))"
    using assms(3) by (cases evs rule: rev_cases) (auto simp: butlast_append)
  have ok: "MealLog_ok ?m"
    using r history_entries[of _ k evs] v by (auto simp: MealLog_ok_def refines_def CAPACITY_def dest!: in_set_butlastD in_set_dropD)
  show ?thesis
    using verify_chain_iff[OF ok] v r history_entries[of _ k evs]
      linked_from_drop[OF history_linked, of "length evs - 64" k "butlast evs"]
    by (auto simp: refines_def b[symmetric] dest!: in_set_butlastD in_set_dropD)
qed

theorem newest_entry_deletable_witness:
  "\<exists>m. logged K_AUDIT [(1, ProcessCreated, 2, 3, 4), (5, BootComplete, 0, 7, 8)] m \<and>
     MealLog_verify_chain (m\<lparr>entries := (entries m)[(write_head m + 63) mod 64 := None]\<rparr>) = Some (1, True)"
proof -
  let ?evs = "[(1, ProcessCreated, 2, 3, 4), (5, BootComplete, 0, 7, 8)] :: event list"
  obtain m where "logged K_AUDIT ?evs m" using logged_exists[of K_AUDIT ?evs] by auto
  with newest_entry_deletable[OF this] show ?thesis by auto
qed

end
