(* ===== verification/Crypto_Aead.thy ===== *)
theory Crypto_Aead
  imports Crypto
begin

text \<open>
  ChaCha20, HKDF-SHA-256 and the encrypt-then-HMAC construction
  (\<open>kernel/src/crypto_aead.rs\<close>). The quarter round is a permutation, sealed messages
  open to their plaintext, and a message opens exactly when its tag is the truncated HMAC
  of nonce and ciphertext.
\<close>

unbundle bit_operations_syntax

section \<open>ChaCha20\<close>

definition qr :: "u32 list \<Rightarrow> nat \<Rightarrow> nat \<Rightarrow> nat \<Rightarrow> nat \<Rightarrow> u32 list" where
  "qr s a b c d =
     (let s = s[a := s ! a + s ! b]; s = s[d := s ! d XOR s ! a]; s = s[d := word_rotl 16 (s ! d)];
          s = s[c := s ! c + s ! d]; s = s[b := s ! b XOR s ! c]; s = s[b := word_rotl 12 (s ! b)];
          s = s[a := s ! a + s ! b]; s = s[d := s ! d XOR s ! a]; s = s[d := word_rotl 8 (s ! d)];
          s = s[c := s ! c + s ! d]; s = s[b := s ! b XOR s ! c]; s = s[b := word_rotl 7 (s ! b)]
      in s)"

definition chacha20_init :: "bytes \<Rightarrow> u32 \<Rightarrow> bytes \<Rightarrow> u32 list" where
  "chacha20_init key counter nonce =
     [0x61707865, 0x3320646e, 0x79622d32, 0x6b206574] @
     map (\<lambda>i. let off = i * 4
              in from_le_bytes [key ! off, key ! (off+1), key ! (off+2), key ! (off+3)]) [0..<8] @
     [counter,
      from_le_bytes [nonce ! 0, nonce ! 1, nonce ! 2, nonce ! 3],
      from_le_bytes [nonce ! 4, nonce ! 5, nonce ! 6, nonce ! 7],
      from_le_bytes [nonce ! 8, nonce ! 9, nonce ! 10, nonce ! 11]]"

definition double_round :: "u32 list \<Rightarrow> u32 list" where
  "double_round s =
     (let s = qr s 0 4 8 12; s = qr s 1 5 9 13; s = qr s 2 6 10 14; s = qr s 3 7 11 15;
          s = qr s 0 5 10 15; s = qr s 1 6 11 12; s = qr s 2 7 8 13; s = qr s 3 4 9 14
      in s)"

definition chacha20_block :: "bytes \<Rightarrow> u32 \<Rightarrow> bytes \<Rightarrow> bytes" where
  "chacha20_block key counter nonce =
     (let init = chacha20_init key counter nonce;
          s = (double_round ^^ 10) init
      in concat (map (\<lambda>i. to_le_bytes 4 (s ! i + init ! i)) [0..<16]))"

text \<open>\<open>chacha20_xor\<close> writes into the slice \<open>out\<close>; the debug assertion on the length
  is active in the \<open>dev\<close> profile.\<close>

definition chacha20_xor :: "bytes \<Rightarrow> bytes \<Rightarrow> bytes \<Rightarrow> bytes \<Rightarrow> bytes panics" where
  "chacha20_xor key nonce data out =
     (if 64 < length data \<or> length out < length data then None
      else let ks = chacha20_block key 1 nonce
           in Some (copy_at 0 (map (\<lambda>i. data ! i XOR ks ! i) [0..<length data]) out))"

definition chacha20_self_test :: bool where
  "chacha20_self_test =
     (let block = chacha20_block (replicate 32 0) 0 (replicate 12 0);
          word0 = from_le_bytes [block ! 0, block ! 1, block ! 2, block ! 3] :: u32
      in word0 = 0xade0b876)"

section \<open>HKDF-SHA-256\<close>

definition hkdf_extract :: "bytes \<Rightarrow> bytes \<Rightarrow> bytes panics" where
  "hkdf_extract salt ikm = hmac_sha256 salt ikm"

definition hkdf_expand_32 :: "bytes \<Rightarrow> bytes \<Rightarrow> bytes panics" where
  "hkdf_expand_32 prk info =
     (let len = min (length info) 127;
          buf = copy_at 0 (take len info) (replicate 128 0);
          buf = buf[len := 0x01]
      in hmac_sha256 prk (take (len + 1) buf))"

definition eipc_session_key :: "bytes \<Rightarrow> u32 \<Rightarrow> u32 \<Rightarrow> bytes panics" where
  "eipc_session_key cap_chain_hash sender receiver = do {
     prk \<leftarrow> hkdf_extract (replicate 32 0) cap_chain_hash;
     let info = replicate 21 0;
         info = copy_at 0 (ascii ''AXIOM-EIPC-v1'') info;
         info = copy_at 13 (to_le_bytes 4 sender) info;
         info = copy_at 17 (to_le_bytes 4 receiver) info
     in hkdf_expand_32 prk info }"

section \<open>Encrypt-then-HMAC\<close>

definition MAX_PT :: nat where "MAX_PT = 48"
definition TAG_LEN :: nat where "TAG_LEN = 16"

record AeadCt =
  aead_ct :: bytes
  aead_len :: nat
  aead_tag :: bytes

definition aead_seal :: "bytes \<Rightarrow> bytes \<Rightarrow> bytes \<Rightarrow> AeadCt panics" where
  "aead_seal key nonce plaintext =
     (let len = length plaintext; ct = replicate MAX_PT 0 in
      if MAX_PT < len then None
      else do {
        enc \<leftarrow> chacha20_xor key nonce plaintext (take len ct);
        let ct = copy_at 0 enc ct;
            auth_in = replicate (12 + MAX_PT) 0;
            auth_in = copy_at 0 nonce auth_in;
            auth_in = copy_at 12 (take len ct) auth_in
        in do {
          h \<leftarrow> hmac_sha256 key (take (12 + len) auth_in);
          Some \<lparr>aead_ct = ct, aead_len = len, aead_tag = take TAG_LEN h\<rparr> } })"

definition aead_open :: "bytes \<Rightarrow> bytes \<Rightarrow> AeadCt \<Rightarrow> (bytes \<times> nat) option panics" where
  "aead_open key nonce c =
     (if MAX_PT < aead_len c then None
      else
        let auth_in = replicate (12 + MAX_PT) 0;
            auth_in = copy_at 0 nonce auth_in;
            auth_in = copy_at 12 (take (aead_len c) (aead_ct c)) auth_in
        in do {
          h \<leftarrow> hmac_sha256 key (take (12 + aead_len c) auth_in);
          if ct_diff TAG_LEN (aead_tag c) h \<noteq> 0 then Some None
          else do {
            let pt = replicate MAX_PT 0 in do {
            dec \<leftarrow> chacha20_xor key nonce (take (aead_len c) (aead_ct c)) (take (aead_len c) pt);
            Some (Some (copy_at 0 dec pt, aead_len c)) } } })"

section \<open>Authenticated encryption as an interface\<close>

text \<open>What a caller relies on: sealing never panics on admissible input, opening always
  answers, and it answers with a plaintext exactly when the ciphertext is the sealing of
  that plaintext.\<close>

locale aead_scheme =
  fixes seal :: "'k \<Rightarrow> bytes \<Rightarrow> 'c option"
    and unseal :: "'k \<Rightarrow> 'c \<Rightarrow> bytes option option"
    and key_ok :: "'k \<Rightarrow> bool" and msg_ok :: "bytes \<Rightarrow> bool" and ct_ok :: "'c \<Rightarrow> bool"
  assumes seal_total: "key_ok k \<Longrightarrow> msg_ok m \<Longrightarrow> \<exists>c. seal k m = Some c \<and> ct_ok c"
    and unseal_total: "key_ok k \<Longrightarrow> ct_ok c \<Longrightarrow> \<exists>r. unseal k c = Some r"
    and unseal_iff: "key_ok k \<Longrightarrow> ct_ok c \<Longrightarrow> (unseal k c = Some (Some m)) = (msg_ok m \<and> seal k m = Some c)"
begin

lemma round_trip: "key_ok k \<Longrightarrow> msg_ok m \<Longrightarrow> \<exists>c. seal k m = Some c \<and> unseal k c = Some (Some m)"
  using seal_total unseal_iff by blast

lemma seal_inject:
  "key_ok k \<Longrightarrow> msg_ok m \<Longrightarrow> msg_ok m' \<Longrightarrow> seal k m = seal k m' \<longleftrightarrow> m = m'"
  by (metis option.inject round_trip)

lemma unseal_rejects:
  "key_ok k \<Longrightarrow> ct_ok c \<Longrightarrow>
   unseal k c = Some None \<longleftrightarrow> (\<forall>m. msg_ok m \<longrightarrow> seal k m \<noteq> Some c)"
  using unseal_total[of k c] unseal_iff[of k c] by (metis not_Some_eq option.inject option.distinct(1))

end

section \<open>The quarter round is a permutation\<close>

text \<open>A quarter round is four add-xor-rotate steps, each undone by rotating back, xoring
  and subtracting.\<close>

definition arx :: "nat \<Rightarrow> u32 list \<Rightarrow> nat \<Rightarrow> nat \<Rightarrow> nat \<Rightarrow> u32 list" where
  "arx r s x y z = (let s = s[x := s ! x + s ! y]; s = s[z := s ! z XOR s ! x]
     in s[z := word_rotl r (s ! z)])"

definition arx_inv :: "nat \<Rightarrow> u32 list \<Rightarrow> nat \<Rightarrow> nat \<Rightarrow> nat \<Rightarrow> u32 list" where
  "arx_inv r s x y z = (let s = s[z := word_rotr r (s ! z)]; s = s[z := s ! z XOR s ! x]
     in s[x := s ! x - s ! y])"

definition qr_inv :: "u32 list \<Rightarrow> nat \<Rightarrow> nat \<Rightarrow> nat \<Rightarrow> nat \<Rightarrow> u32 list" where
  "qr_inv s a b c d =
     arx_inv 16 (arx_inv 12 (arx_inv 8 (arx_inv 7 s c d b) a b d) c d b) a b d"

definition double_round_inv :: "u32 list \<Rightarrow> u32 list" where
  "double_round_inv s =
     (let s = qr_inv s 3 4 9 14; s = qr_inv s 2 7 8 13; s = qr_inv s 1 6 11 12; s = qr_inv s 0 5 10 15;
          s = qr_inv s 3 7 11 15; s = qr_inv s 2 6 10 14; s = qr_inv s 1 5 9 13; s = qr_inv s 0 4 8 12
      in s)"

lemma qr_arx: "qr s a b c d = arx 7 (arx 8 (arx 12 (arx 16 s a b d) c d b) a b d) c d b"
  by (simp only: qr_def arx_def Let_def)

lemma length_arx [simp]: "length (arx r s x y z) = length s"
  by (simp add: arx_def Let_def)

lemma length_qr [simp]: "length (qr s a b c d) = length s"
  by (simp add: qr_arx)

lemma xor_cancel_right: "(x XOR y) XOR y = x" for x y :: "'a::len word"
  by (simp add: xor.assoc)

lemma arx_inv_arx [simp]:
  "distinct [x, y, z] \<Longrightarrow> x < length s \<Longrightarrow> y < length s \<Longrightarrow> z < length s \<Longrightarrow>
   arx_inv r (arx r s x y z) x y z = s"
  by (auto simp: arx_def arx_inv_def Let_def xor_cancel_right list_eq_iff_nth_eq nth_list_update)

lemma qr_inv_qr [simp]:
  "distinct [a, b, c, d] \<Longrightarrow> a < length s \<Longrightarrow> b < length s \<Longrightarrow> c < length s \<Longrightarrow> d < length s \<Longrightarrow>
   qr_inv (qr s a b c d) a b c d = s"
  by (simp add: qr_arx qr_inv_def)

lemma double_round_inverse: "length s = 16 \<Longrightarrow> double_round_inv (double_round s) = s"
  by (simp add: double_round_def double_round_inv_def Let_def)

lemma length_double_round [simp]: "length (double_round s) = length s"
  by (simp add: double_round_def Let_def)

lemma length_double_rounds [simp]: "length ((double_round ^^ n) s) = length s"
  by (induction n) auto

lemma double_rounds_inject:
  "length s = 16 \<Longrightarrow> length t = 16 \<Longrightarrow>
   (double_round ^^ n) s = (double_round ^^ n) t \<longleftrightarrow> s = t"
proof (induction n)
  case (Suc n)
  have "(double_round ^^ n) s = (double_round ^^ n) t"
    if "double_round ((double_round ^^ n) s) = double_round ((double_round ^^ n) t)"
    using arg_cong[OF that, of double_round_inv] Suc.prems by (simp add: double_round_inverse)
  with Suc show ?case by auto
qed simp

section \<open>Lengths\<close>

lemma length_chacha20_init [simp]: "length (chacha20_init key counter nonce) = 16"
  by (simp add: chacha20_init_def)

lemma length_concat_map_const:
  "(\<And>x. x \<in> set xs \<Longrightarrow> length (f x) = n) \<Longrightarrow> length (concat (map f xs)) = n * length xs"
  by (induction xs) auto

lemma length_chacha20_block [simp]: "length (chacha20_block key counter nonce) = 64"
  by (simp add: chacha20_block_def Let_def length_concat_map_const[where n = 4])

section \<open>Stream encryption\<close>

lemma xor_map_nth:
  "length data \<le> length ks \<Longrightarrow>
   map (\<lambda>i. data ! i XOR ks ! i) [0..<length data] = xor_bytes data ks"
  by (rule nth_equalityI) (auto simp: xor_bytes_def)

lemma chacha20_xor_eq:
  "length data \<le> 64 \<Longrightarrow> length out = length data \<Longrightarrow>
   chacha20_xor key nonce data out = Some (xor_bytes data (chacha20_block key 1 nonce))"
  by (simp add: chacha20_xor_def Let_def xor_map_nth copy_at_def)

section \<open>Key derivation\<close>

lemma hkdf_expand_32_eq:
  assumes "length prk < 2 ^ 61"
  shows "hkdf_expand_32 prk info = Some (hmac_spec prk (take 127 info @ [0x01]))"
proof -
  let ?l = "min (length info) 127"
  have "take ?l (copy_at 0 (take ?l info) (replicate 128 0)) = take 127 info"
    by (simp add: copy_at_def min_def)
  then have "take (?l + 1) ((copy_at 0 (take ?l info) (replicate 128 0))[?l := 0x01]) =
      take 127 info @ [0x01]"
    by (simp add: take_Suc_conv_app_nth)
  then show ?thesis
    using assms by (simp add: hkdf_expand_32_def Let_def hmac_sha256_eq_spec)
qed

definition eipc_info :: "u32 \<Rightarrow> u32 \<Rightarrow> bytes" where
  "eipc_info sender receiver =
     ascii ''AXIOM-EIPC-v1'' @ to_le_bytes 4 sender @ to_le_bytes 4 receiver"

lemma eipc_info_inject: "eipc_info s r = eipc_info s' r' \<longleftrightarrow> s = s' \<and> r = r'"
  by (simp add: eipc_info_def to_le_bytes_inject)

lemma eipc_session_key_eq:
  "length cap_chain_hash < 2 ^ 60 \<Longrightarrow>
   eipc_session_key cap_chain_hash sender receiver =
     Some (hmac_spec (hmac_spec (replicate 32 0) cap_chain_hash) (eipc_info sender receiver @ [0x01]))"
  by (simp add: eipc_session_key_def hkdf_extract_def hmac_sha256_eq_spec hkdf_expand_32_eq
      eipc_info_def copy_at_def)

section \<open>Encrypt-then-HMAC\<close>

lemma auth_in_eq:
  assumes "length nonce = 12" and "n \<le> MAX_PT" and "n \<le> length ct"
  shows "take (12 + n) (copy_at 12 (take n ct) (copy_at 0 nonce (replicate (12 + MAX_PT) 0))) =
           nonce @ take n ct"
  using assms by (simp add: copy_at_def)

definition aead_tag_of :: "bytes \<Rightarrow> bytes \<Rightarrow> bytes \<Rightarrow> bytes" where
  "aead_tag_of key nonce ct = take TAG_LEN (hmac_spec key (nonce @ ct))"

lemma aead_seal_eq:
  assumes "length key = 32" and "length nonce = 12" and "length pt \<le> MAX_PT"
  shows "aead_seal key nonce pt =
    (let c = xor_bytes pt (chacha20_block key 1 nonce)
     in Some \<lparr>aead_ct = c @ replicate (MAX_PT - length pt) 0, aead_len = length pt,
              aead_tag = aead_tag_of key nonce c\<rparr>)"
proof -
  let ?c = "xor_bytes pt (chacha20_block key 1 nonce)"
  have l: "length ?c = length pt" using assms by (simp add: MAX_PT_def)
  have "copy_at 0 ?c (replicate MAX_PT 0) = ?c @ replicate (MAX_PT - length pt) 0"
    using assms l by (simp add: copy_at_def)
  moreover have "chacha20_xor key nonce pt (take (length pt) (replicate MAX_PT 0)) = Some ?c"
    using assms by (intro chacha20_xor_eq) (auto simp: MAX_PT_def)
  moreover have "hmac_sha256 key (nonce @ ?c) = Some (hmac_spec key (nonce @ ?c))"
    using assms l by (intro hmac_sha256_eq_spec) (auto simp: MAX_PT_def)
  ultimately show ?thesis
    using assms l auth_in_eq[of nonce "length pt" "?c @ replicate (MAX_PT - length pt) 0"]
    by (simp add: aead_seal_def Let_def aead_tag_of_def)
qed

lemma aead_open_eq:
  assumes "length key = 32" and "length nonce = 12"
    and "aead_len c \<le> MAX_PT" and "length (aead_ct c) = MAX_PT" and "length (aead_tag c) = TAG_LEN"
  shows "aead_open key nonce c =
    (let ct = take (aead_len c) (aead_ct c)
     in Some (if aead_tag c = aead_tag_of key nonce ct
              then Some (xor_bytes ct (chacha20_block key 1 nonce) @ replicate (MAX_PT - aead_len c) 0,
                         aead_len c)
              else None))"
proof -
  let ?ct = "take (aead_len c) (aead_ct c)"
  let ?h = "hmac_spec key (nonce @ ?ct)"
  have h: "hmac_sha256 key (nonce @ ?ct) = Some ?h"
    using assms by (intro hmac_sha256_eq_spec) (auto simp: MAX_PT_def)
  have tag: "ct_diff TAG_LEN (aead_tag c) ?h = 0 \<longleftrightarrow> aead_tag c = aead_tag_of key nonce ?ct"
    using assms by (subst ct_diff_0_take) (auto simp: TAG_LEN_def aead_tag_of_def)
  have x: "chacha20_xor key nonce ?ct (take (aead_len c) (replicate MAX_PT 0)) =
      Some (xor_bytes ?ct (chacha20_block key 1 nonce))"
    using assms by (intro chacha20_xor_eq) (auto simp: MAX_PT_def)
  have "copy_at 0 (xor_bytes ?ct (chacha20_block key 1 nonce)) (replicate MAX_PT 0) =
      xor_bytes ?ct (chacha20_block key 1 nonce) @ replicate (MAX_PT - aead_len c) 0"
    using assms by (simp add: copy_at_def MAX_PT_def)
  with assms auth_in_eq[of nonce "aead_len c" "aead_ct c"] h tag x show ?thesis
    by (simp add: aead_open_def Let_def)
qed

text \<open>The interface as the message channel uses it: the opened plaintext is the first
  \<open>len\<close> bytes of the returned buffer.\<close>

fun hmac_seal :: "bytes \<times> bytes \<Rightarrow> bytes \<Rightarrow> AeadCt panics" where
  "hmac_seal (key, nonce) pt = aead_seal key nonce pt"

fun hmac_open :: "bytes \<times> bytes \<Rightarrow> AeadCt \<Rightarrow> bytes option panics" where
  "hmac_open (key, nonce) c = map_option (map_option (\<lambda>(pt, len). take len pt)) (aead_open key nonce c)"

definition AeadCt_ok :: "AeadCt \<Rightarrow> bool" where
  "AeadCt_ok c \<longleftrightarrow> aead_len c \<le> MAX_PT \<and> length (aead_ct c) = MAX_PT \<and> length (aead_tag c) = TAG_LEN \<and>
     drop (aead_len c) (aead_ct c) = replicate (MAX_PT - aead_len c) 0"

lemma length_aead_tag_of [simp]: "length (aead_tag_of key nonce ct) = TAG_LEN"
  by (simp add: aead_tag_of_def TAG_LEN_def)

lemma AeadCt_eqI:
  "AeadCt_ok c \<Longrightarrow> length ct = aead_len c \<Longrightarrow>
   \<lparr>aead_ct = ct @ replicate (MAX_PT - aead_len c) 0, aead_len = aead_len c, aead_tag = t\<rparr> = c \<longleftrightarrow>
   take (aead_len c) (aead_ct c) = ct \<and> aead_tag c = t"
  by (cases c) (auto simp: AeadCt_ok_def append_eq_conv_conj)

lemma hmac_open_iff:
  assumes "length key = 32" "length nonce = 12" "AeadCt_ok c"
  shows "hmac_open (key, nonce) c = Some (Some m) \<longleftrightarrow> length m \<le> MAX_PT \<and> hmac_seal (key, nonce) m = Some c"
proof -
  let ?ks = "chacha20_block key 1 nonce" and ?ct = "take (aead_len c) (aead_ct c)"
  have c: "aead_len c \<le> MAX_PT" "length ?ct = aead_len c" using assms(3) by (auto simp: AeadCt_ok_def)
  have ks: "length x \<le> MAX_PT \<Longrightarrow> length x \<le> length ?ks" for x :: bytes by (simp add: MAX_PT_def)
  have "hmac_open (key, nonce) c = Some (Some m) \<longleftrightarrow>
      aead_tag c = aead_tag_of key nonce ?ct \<and> xor_bytes ?ct ?ks = m"
    using assms c ks[of ?ct] by (subst hmac_open.simps, subst aead_open_eq) (auto simp: AeadCt_ok_def Let_def)
  also have "\<dots> \<longleftrightarrow> length m = aead_len c \<and> ?ct = xor_bytes m ?ks \<and> aead_tag c = aead_tag_of key nonce (xor_bytes m ?ks)"
    using xor_bytes_cancel[OF ks, of ?ct] xor_bytes_cancel[OF ks, of m] c ks[of ?ct] by auto
  also have "\<dots> \<longleftrightarrow> length m \<le> MAX_PT \<and> hmac_seal (key, nonce) m = Some c"
    using assms(1,2) c AeadCt_eqI[OF assms(3), of "xor_bytes m ?ks"] ks[of m]
    by (auto simp: aead_seal_eq Let_def)
  finally show ?thesis .
qed

interpretation hmac_aead: aead_scheme hmac_seal hmac_open
  "\<lambda>(key, nonce). length key = 32 \<and> length nonce = 12" "\<lambda>m. length m \<le> MAX_PT" AeadCt_ok
proof unfold_locales
  fix k :: "bytes \<times> bytes" and m and c
  obtain key nonce where k: "k = (key, nonce)" by (cases k)
  assume kok: "case k of (key, nonce) \<Rightarrow> length key = 32 \<and> length nonce = 12"
  show "\<exists>c. hmac_seal k m = Some c \<and> AeadCt_ok c" if "length m \<le> MAX_PT"
    using that kok by (auto simp: k aead_seal_eq AeadCt_ok_def Let_def MAX_PT_def)
  assume cok: "AeadCt_ok c"
  show "\<exists>r. hmac_open k c = Some r"
    using kok cok by (auto simp: k aead_open_eq AeadCt_ok_def Let_def)
  show "(hmac_open k c = Some (Some m)) = (length m \<le> MAX_PT \<and> hmac_seal k m = Some c)"
    using hmac_open_iff[of key nonce c m] kok cok by (simp add: k)
qed

section \<open>The block function separates its inputs\<close>

lemma from_le_bytes4_inject:
  "from_le_bytes [a, b, c, d] = (from_le_bytes [a', b', c', d'] :: u32) \<longleftrightarrow>
   a = a' \<and> b = b' \<and> c = c' \<and> d = d'"
proof -
  have "unat (from_le_bytes bs :: u32) = le_nat bs" if "length bs = 4" for bs
    using le_nat_less[of bs] that by (simp add: from_le_bytes_def unat_of_nat)
  then show ?thesis
    using le_nat_inject[of "[a, b, c, d]" "[a', b', c', d']"] by (auto simp: word_unat_eq_iff)
qed

lemma nth_eq_upto: "length xs = n \<Longrightarrow> length ys = n \<Longrightarrow> (\<forall>i\<in>set [0..<n]. xs ! i = ys ! i) \<Longrightarrow> xs = ys"
  by (auto intro: nth_equalityI)

lemma chacha20_init_inject:
  assumes "length key = 32" "length key' = 32" "length nonce = 12" "length nonce' = 12"
  shows "chacha20_init key counter nonce = chacha20_init key' counter' nonce' \<longleftrightarrow>
    key = key' \<and> counter = counter' \<and> nonce = nonce'"
proof
  assume e: "chacha20_init key counter nonce = chacha20_init key' counter' nonce'"
  have "key = key'"
    by (rule nth_eq_upto[OF assms(1,2)])
      (use e in \<open>simp add: chacha20_init_def from_le_bytes4_inject upt_rec numeral_2_eq_2[symmetric]\<close>)
  moreover have "nonce = nonce'"
    by (rule nth_eq_upto[OF assms(3,4)])
      (use e in \<open>simp add: chacha20_init_def from_le_bytes4_inject upt_rec numeral_2_eq_2[symmetric]\<close>)
  ultimately show "key = key' \<and> counter = counter' \<and> nonce = nonce'"
    using e by (simp add: chacha20_init_def)
qed simp

section \<open>Properties\<close>

text \<open>Before the final feed-forward addition, the twenty ChaCha20 rounds send different (key, counter,
  nonce) triples to different states: the rounds are a permutation and the state layout
  loses no input bit.\<close>

theorem chacha20_core_injective:
  assumes "length key = 32" "length key' = 32" "length nonce = 12" "length nonce' = 12"
  shows "(double_round ^^ 10) (chacha20_init key counter nonce) =
         (double_round ^^ 10) (chacha20_init key' counter' nonce') \<longleftrightarrow>
         key = key' \<and> counter = counter' \<and> nonce = nonce'"
  by (simp add: double_rounds_inject chacha20_init_inject[OF assms])

theorem chacha20_core_injective_witness:
  "(double_round ^^ 10) (chacha20_init (replicate 32 7) 1 (replicate 12 0)) \<noteq>
   (double_round ^^ 10) (chacha20_init (replicate 32 7) 2 (replicate 12 0))"
  using chacha20_core_injective[of "replicate 32 7" "replicate 32 7" "replicate 12 0" "replicate 12 0" 1 2]
  by simp

text \<open>C10: \<open>aead_open\<close> returns a plaintext exactly when the ciphertext is what \<open>aead_seal\<close> makes of that
  plaintext under the same key and nonce; every other well-formed ciphertext is rejected
  without a panic, and every plaintext of at most 48 bytes survives the round trip.\<close>

theorem aead_open_iff_sealed:
  assumes "length key = 32" and "length nonce = 12" and "AeadCt_ok c" and "length m \<le> MAX_PT"
  shows "(aead_open key nonce c = Some (Some (m @ replicate (MAX_PT - length m) 0, length m)) \<longleftrightarrow>
            aead_seal key nonce m = Some c) \<and>
         (aead_open key nonce c = Some None \<longleftrightarrow>
            (\<forall>m. length m \<le> MAX_PT \<longrightarrow> aead_seal key nonce m \<noteq> Some c)) \<and>
         (\<exists>s. aead_seal key nonce m = Some s \<and> AeadCt_ok s)"
proof (intro conjI)
  have "aead_open key nonce c = Some (Some (m @ replicate (MAX_PT - length m) 0, length m)) \<longleftrightarrow>
      hmac_open (key, nonce) c = Some (Some m)"
    using assms by (auto simp: aead_open_eq AeadCt_ok_def Let_def MAX_PT_def)
  with assms show "aead_open key nonce c = Some (Some (m @ replicate (MAX_PT - length m) 0, length m)) \<longleftrightarrow>
      aead_seal key nonce m = Some c"
    by (simp add: hmac_aead.unseal_iff[of "(key, nonce)"] del: hmac_open.simps)
  show "aead_open key nonce c = Some None \<longleftrightarrow> (\<forall>m. length m \<le> MAX_PT \<longrightarrow> aead_seal key nonce m \<noteq> Some c)"
    using hmac_aead.unseal_rejects[of "(key, nonce)" c] assms by auto
  show "\<exists>s. aead_seal key nonce m = Some s \<and> AeadCt_ok s"
    using hmac_aead.seal_total[of "(key, nonce)" m] assms by auto
qed

theorem aead_open_iff_sealed_witness:
  "\<exists>s. aead_seal (replicate 32 1) (replicate 12 2) [3, 4] = Some s \<and>
       aead_open (replicate 32 1) (replicate 12 2) s = Some (Some ([3, 4] @ replicate 46 0, 2))"
proof -
  let ?k = "replicate 32 1 :: bytes" and ?n = "replicate 12 2 :: bytes"
  have "AeadCt_ok \<lparr>aead_ct = replicate 48 0, aead_len = 0, aead_tag = replicate 16 0\<rparr>"
    by (simp add: AeadCt_ok_def MAX_PT_def TAG_LEN_def)
  then obtain s where s: "aead_seal ?k ?n [3, 4] = Some s" "AeadCt_ok s"
    using aead_open_iff_sealed[of ?k ?n _ "[3, 4]"] by (auto simp: MAX_PT_def)
  with aead_open_iff_sealed[of ?k ?n s "[3, 4]"] show ?thesis
    by (simp add: MAX_PT_def numeral_2_eq_2)
qed

text \<open>A session key is the RFC 5869 HKDF output (extract with a zero salt, one expand block) of the
  capability-chain hash under an info string that determines sender and receiver, so two
  different ordered pairs never share an HKDF input.\<close>

theorem eipc_session_key_hkdf:
  assumes "length cap_chain_hash < 2 ^ 60"
  shows "\<exists>info. (\<forall>s r. eipc_session_key cap_chain_hash s r =
             Some (hmac_spec (hmac_spec (replicate 32 0) cap_chain_hash) (info s r @ [0x01]))) \<and>
           (\<forall>s r. info s r = ascii ''AXIOM-EIPC-v1'' @ to_le_bytes 4 s @ to_le_bytes 4 r) \<and>
           (\<forall>s r s' r'. info s r = info s' r' \<longleftrightarrow> s = s' \<and> r = r')"
  using eipc_session_key_eq[OF assms] eipc_info_inject eipc_info_def by blast

theorem eipc_session_key_hkdf_witness:
  "eipc_session_key (replicate 32 9) 1 2 =
     Some (hmac_spec (hmac_spec (replicate 32 0) (replicate 32 9))
       (ascii ''AXIOM-EIPC-v1'' @ [1, 0, 0, 0, 2, 0, 0, 0, 1]))"
  using eipc_session_key_hkdf[of "replicate 32 9"]
  by (auto simp: to_le_bytes_def le_bytes_map upt_rec)

end
