(* ===== verification/Poly1305.thy ===== *)
theory Poly1305
  imports Crypto_Aead
begin

text \<open>
  Poly1305 and the ChaCha20-Poly1305 AEAD (\<open>kernel/src/poly1305.rs\<close>). The accumulator of
  the code is a pair of machine words (two high bits and 128 low bits); it is shown to
  compute the polynomial of RFC 8439 modulo \<open>2 ^ 130 - 5\<close> exactly, with no intermediate
  overflow, and sealed messages open to their plaintext.
\<close>

unbundle bit_operations_syntax

section \<open>Poly1305\<close>

definition clamp :: "bytes \<Rightarrow> bytes" where
  "clamp r =
     (let r = r[3 := r ! 3 AND 15]; r = r[7 := r ! 7 AND 15];
          r = r[11 := r ! 11 AND 15]; r = r[15 := r ! 15 AND 15];
          r = r[4 := r ! 4 AND 252]; r = r[8 := r ! 8 AND 252]; r = r[12 := r ! 12 AND 252]
      in r)"

definition load_le_u128 :: "bytes \<Rightarrow> u128" where
  "load_le_u128 b =
     (let len = min (length b) 16 in from_le_bytes (copy_at 0 (take len b) (replicate 16 0)))"

text \<open>The high 128 bits of \<open>b * r\<close> by schoolbook multiplication on 64-bit halves.\<close>

definition mul_hi :: "u128 \<Rightarrow> u128 \<Rightarrow> u128" where
  "mul_hi b r =
     (let blo = (ucast b :: u64); bhi = (ucast (drop_bit 64 b) :: u64);
          rlo = (ucast r :: u64); rhi = (ucast (drop_bit 64 r) :: u64);
          lo_lo = (ucast blo :: u128) * ucast rlo; lo_hi = (ucast blo :: u128) * ucast rhi;
          hi_lo = (ucast bhi :: u128) * ucast rlo; hi_hi = (ucast bhi :: u128) * ucast rhi;
          mid = drop_bit 64 lo_lo + (lo_hi AND 0xFFFFFFFFFFFFFFFF) + (hi_lo AND 0xFFFFFFFFFFFFFFFF)
      in drop_bit 64 mid + drop_bit 64 lo_hi + drop_bit 64 hi_lo + hi_hi)"

type_synonym acc = "u64 \<times> u128"

definition add_block :: "u128 \<Rightarrow> acc \<Rightarrow> bytes \<Rightarrow> bool \<Rightarrow> acc" where
  "add_block r h block full =
     (let (h0, h1) = h;
          n = load_le_u128 block;
          (n1, carry) =
            (if full \<and> length block = 16 then (n, 1)
             else let pos = length block * 8
                  in if pos < 128
                     then let (v, c) = overflowing_add n (push_bit pos 1) in (v, of_bool c)
                     else (n, 1 :: u64));
          (h1, c) = overflowing_add h1 n1;
          h0 = h0 + carry + of_bool c;
          prod_lo = h1 * r;
          prod_hi = mul_hi h1 r + ucast h0 * r;
          carry_bits = drop_bit 2 prod_hi;
          new_h0 = (ucast (prod_hi AND 3) :: u64);
          (h1, c) = overflowing_add prod_lo (carry_bits * 5);
          h0 = new_h0 + of_bool c
      in if 4 \<le> h0 \<or> h0 = 3 \<and> - 1 - 3 \<le> h1
         then let (h1, borrow) = overflowing_sub h1 (- 1 - 4) in (h0 - 3 - of_bool borrow, h1)
         else (h0, h1))"

function poly1305_blocks :: "u128 \<Rightarrow> bytes \<Rightarrow> nat \<Rightarrow> acc \<Rightarrow> nat \<times> acc" where
  "poly1305_blocks r msg offset h =
     (if offset + 16 \<le> length msg
      then poly1305_blocks r msg (offset + 16) (add_block r h (slice offset (offset + 16) msg) True)
      else (offset, h))"
  by pat_completeness auto
termination
  by (relation "measure (\<lambda>(r, msg, offset, h). length msg - offset)") auto

declare poly1305_blocks.simps [simp del]

definition poly1305 :: "bytes \<Rightarrow> bytes \<Rightarrow> bytes" where
  "poly1305 key msg =
     (let r_bytes = clamp (take 16 key);
          r = load_le_u128 r_bytes;
          s = load_le_u128 (drop 16 key);
          (offset, h) = poly1305_blocks r msg 0 (0, 0);
          (h0, h1) = (if offset < length msg then add_block r h (drop offset msg) False else h);
          p_lo = - 1 - 4; p_hi = 3;
          (h0, h1) =
            (if p_hi < h0 \<or> h0 = p_hi \<and> p_lo \<le> h1
             then let (h1, borrow) = overflowing_sub h1 p_lo in (h0 - p_hi - of_bool borrow, h1)
             else (h0, h1));
          (tag_val, _) = overflowing_add h1 s
      in to_le_bytes 16 tag_val)"

section \<open>ChaCha20-Poly1305\<close>

text \<open>The keystream loop shared by \<open>chacha20_poly1305_seal\<close> and
  \<open>chacha20_poly1305_open\<close>; \<open>counter += 1\<close> and the writes to \<open>out\<close> can panic.\<close>

function chacha20_stream :: "bytes \<Rightarrow> bytes \<Rightarrow> bytes \<Rightarrow> u32 \<Rightarrow> nat \<Rightarrow> bytes \<Rightarrow> bytes panics" where
  "chacha20_stream key nonce input counter pos out =
     (if pos < length input
      then
        let ks = chacha20_block key counter nonce; n = min (length input - pos) 64 in
        do {
          counter \<leftarrow> add_chk counter 1;
          if length out < pos + n then None
          else chacha20_stream key nonce input counter (pos + n)
                 (copy_at pos (map (\<lambda>i. input ! (pos + i) XOR ks ! i) [0..<n]) out) }
      else Some out)"
  by pat_completeness auto
termination
  by (relation "measure (\<lambda>(key, nonce, input, counter, pos, out). length input - pos)") auto

declare chacha20_stream.simps [simp del]

definition pad16 :: "nat \<Rightarrow> nat" where
  "pad16 n = (16 - n mod 16) mod 16"

definition mac_input :: "bytes \<Rightarrow> bytes \<Rightarrow> bytes" where
  "mac_input aad ciphertext =
     (let mac_len = length aad + pad16 (length aad) + length ciphertext + pad16 (length ciphertext) + 8 + 8;
          buf = replicate mac_len 0;
          buf = copy_at 0 aad buf;
          off = length aad + pad16 (length aad);
          buf = copy_at off ciphertext buf;
          off = off + length ciphertext + pad16 (length ciphertext);
          buf = copy_at off (to_le_bytes 8 (word_of_nat (length aad) :: u64)) buf;
          off = off + 8
      in copy_at off (to_le_bytes 8 (word_of_nat (length ciphertext) :: u64)) buf)"

text \<open>\<open>seal\<close> returns the tag and the filled ciphertext buffer; \<open>open\<close> the verdict and the
  plaintext buffer.\<close>

definition chacha20_poly1305_seal ::
  "bytes \<Rightarrow> bytes \<Rightarrow> bytes \<Rightarrow> bytes \<Rightarrow> bytes \<Rightarrow> (bytes \<times> bytes) panics" where
  "chacha20_poly1305_seal key nonce aad plaintext ciphertext =
     (let otk = take 32 (chacha20_block key 0 nonce) in
      do {
        ciphertext \<leftarrow> chacha20_stream key nonce plaintext 1 0 ciphertext;
        Some (poly1305 otk (mac_input aad ciphertext), ciphertext) })"

definition chacha20_poly1305_open ::
  "bytes \<Rightarrow> bytes \<Rightarrow> bytes \<Rightarrow> bytes \<Rightarrow> bytes \<Rightarrow> bytes \<Rightarrow> (bool \<times> bytes) panics" where
  "chacha20_poly1305_open key nonce aad ciphertext tag plaintext =
     (let otk = take 32 (chacha20_block key 0 nonce);
          expected = poly1305 otk (mac_input aad ciphertext)
      in if ct_diff 16 expected tag \<noteq> 0 then Some (False, plaintext)
         else do {
           plaintext \<leftarrow> chacha20_stream key nonce ciphertext 1 0 plaintext;
           Some (True, plaintext) })"

definition poly1305_self_test :: bool where
  "poly1305_self_test =
     (let key = [0x85,0xd6,0xbe,0x78,0x57,0x55,0x6d,0x33,
                 0x7f,0x44,0x52,0xfe,0x42,0xd5,0x06,0xa8,
                 0x01,0x03,0x80,0x8a,0xfb,0x0d,0xb2,0xfd,
                 0x4a,0xbf,0xf6,0xaf,0x41,0x49,0xf5,0x1b];
          tag = poly1305 key (ascii ''Cryptographic Forum Research Group'')
      in tag ! 0 = 0xa8 \<and> tag ! 1 = 0x06 \<and> tag ! 2 = 0x1d \<and> tag ! 3 = 0xc1)"

section \<open>Word-level facts\<close>

lemma unat_ucast_64: "unat (ucast (x :: u128) :: u64) = unat x mod 2 ^ 64"
  by (simp add: unsigned_ucast_eq take_bit_eq_mod)

lemma unat_ucast_128: "unat (ucast (x :: u64) :: u128) = unat x"
  using unsigned_less[of x, where ?'a = nat] by (simp add: unsigned_ucast_eq take_bit_eq_mod)

lemma unat_shift: "unat (drop_bit k (x :: 'a::len word)) = unat x div 2 ^ k"
  by (subst unat_drop_bit_eq) (simp add: drop_bit_eq_div)

lemma unat_and_mask: "unat ((x :: 'a::len word) AND mask k) = unat x mod 2 ^ k"
  by (subst take_bit_eq_mask[symmetric], subst unsigned_take_bit_eq) (simp add: take_bit_eq_mod)

lemma mask_64: "(0xFFFFFFFFFFFFFFFF :: u128) = mask 64"
  by (simp add: mask_eq_exp_minus_1)

lemma mask_2: "(3 :: u128) = mask 2"
  by (simp add: mask_eq_exp_minus_1)

lemma div_sq_sum:
  fixes a b c d :: nat
  assumes "0 < B"
  shows "(a * B + b) * (c * B + d) div (B * B) =
    ((b * d) div B + (b * c) mod B + (a * d) mod B) div B + (b * c) div B + (a * d) div B + a * c"
proof -
  have *: "(x * B + y) div (B * B) = (x + y div B) div B" for x y
    using assms by (simp add: div_mult2_eq)
  have split: "x + y + z = (x div B + y div B) * B + (z + x mod B + y mod B)" for x y z
    using div_mult_mod_eq[of x B] div_mult_mod_eq[of y B] by (simp only: add_mult_distrib)
  have "(a * B + b) * (c * B + d) = ((a * c) * B + (b * c + a * d)) * B + b * d"
    by (simp add: algebra_simps)
  then have "(a * B + b) * (c * B + d) div (B * B) = ((a * c) * B + (b * c + a * d + b * d div B)) div B"
    by (simp only: * add.assoc)
  also have "\<dots> = a * c + (b * c + a * d + b * d div B) div B"
    using assms by simp
  also have "(b * c + a * d + b * d div B) div B = (b * c) div B + (a * d) div B +
      ((b * d) div B + (b * c) mod B + (a * d) mod B) div B"
    by (subst split) (use assms in simp)
  finally show ?thesis by simp
qed

lemma mul_hi_eq: "unat (mul_hi b r) = unat b * unat r div 2 ^ 128"
proof -
  let ?B = "2 ^ 64 :: nat"
  define bl bh rl rh where "bl = unat b mod ?B" and "bh = unat b div ?B"
    and "rl = unat r mod ?B" and "rh = unat r div ?B"
  have b: "unat b = bh * ?B + bl" and r: "unat r = rh * ?B + rl"
    by (simp_all add: bl_def bh_def rl_def rh_def)
  have lt: "bl < ?B" "bh < ?B" "rl < ?B" "rh < ?B"
    using unsigned_less[of b, where ?'a = nat] unsigned_less[of r, where ?'a = nat]
    by (auto simp: bl_def bh_def rl_def rh_def less_mult_imp_div_less)
  have prod: "x * y < ?B * ?B" if "x < ?B" "y < ?B" for x y
    using that by (rule mult_strict_mono') auto
  note u = unat_word_ariths unat_ucast_64 unat_ucast_128 unat_shift unat_and_mask mask_64
  have ll: "unat ((ucast (ucast b :: u64) :: u128) * ucast (ucast r :: u64)) = bl * rl"
    and lh: "unat ((ucast (ucast b :: u64) :: u128) * ucast (ucast (drop_bit 64 r) :: u64)) = bl * rh"
    and hl: "unat ((ucast (ucast (drop_bit 64 b) :: u64) :: u128) * ucast (ucast r :: u64)) = bh * rl"
    and hh: "unat ((ucast (ucast (drop_bit 64 b) :: u64) :: u128) * ucast (ucast (drop_bit 64 r) :: u64)) = bh * rh"
    using prod lt by (simp_all add: u bl_def bh_def rl_def rh_def)
  let ?mid = "(bl * rl) div ?B + (bl * rh) mod ?B + (bh * rl) mod ?B"
  let ?S = "?mid div ?B + (bl * rh) div ?B + (bh * rl) div ?B + bh * rh"
  have S: "?S = unat b * unat r div 2 ^ 128"
    using div_sq_sum[of ?B bh bl rh rl] by (simp add: b r)
  have "unat b * unat r < 2 ^ 128 * 2 ^ 128"
    by (rule mult_strict_mono') (use unsigned_less[of b, where ?'a = nat] unsigned_less[of r, where ?'a = nat] in auto)
  then have small: "?S < 2 ^ 128" unfolding S by (rule less_mult_imp_div_less)
  have mid: "?mid < 2 ^ 128"
  proof -
    have "(bl * rl) div ?B < ?B" using prod[of bl rl] lt by (auto intro: less_mult_imp_div_less)
    moreover have "(bl * rh) mod ?B < ?B" "(bh * rl) mod ?B < ?B" by simp_all
    ultimately have "?mid < 3 * ?B" by linarith
    then show ?thesis by simp
  qed
  have "unat (mul_hi b r) = ?S mod 2 ^ 128"
    unfolding mul_hi_def Let_def mask_64
    by (simp only: unat_word_ariths(1) unat_shift unat_and_mask ll lh hl hh)
      (use mid in \<open>simp add: mod_simps\<close>)
  with small S show ?thesis by simp
qed

section \<open>The accumulator as a number\<close>

definition P130 :: nat where "P130 = 2 ^ 130 - 5"

fun acc_val :: "acc \<Rightarrow> nat" where
  "acc_val (h0, h1) = unat h0 * 2 ^ 128 + unat h1"

lemma unat_load_le_u128: "length b \<le> 16 \<Longrightarrow> unat (load_le_u128 b) = le_nat b"
proof -
  assume l: "length b \<le> 16"
  have "le_nat b < 256 ^ 16"
    using le_nat_less[of b] power_increasing[OF l, of "256::nat"] by simp
  with l show ?thesis
    by (simp add: load_le_u128_def Let_def from_le_bytes_def copy_at_def le_nat_append unat_of_nat)
qed

lemma unat_power_2: "k < 128 \<Longrightarrow> unat (2 ^ k :: u128) = 2 ^ k"
proof -
  assume "k < 128"
  then have "(2::nat) ^ k < 2 ^ 128" by (rule power_strict_increasing) simp
  then have "unat (of_nat (2 ^ k) :: u128) = 2 ^ k" by (subst unat_of_nat) simp
  then show ?thesis by simp
qed

text \<open>A block is read as its little-endian number with a one bit appended.\<close>

lemma block_number:
  assumes "length block \<le> 16"
    and "(n1, carry) =
      (if full \<and> length block = 16 then (load_le_u128 block, 1)
       else let pos = length block * 8
            in if pos < 128
               then let (v, c) = overflowing_add (load_le_u128 block) (push_bit pos 1) in (v, of_bool c)
               else (load_le_u128 block, 1 :: u64))"
  shows "unat n1 + unat carry * 2 ^ 128 = le_nat block + 2 ^ (8 * length block)" "unat carry \<le> 1"
proof -
  have "unat n1 + unat carry * 2 ^ 128 = le_nat block + 2 ^ (8 * length block) \<and> unat carry \<le> 1"
  proof (cases "length block = 16")
    case True
    with assms show ?thesis by (auto simp: unat_load_le_u128 Let_def split: if_splits)
  next
    case False
    with assms obtain c where c: "overflowing_add (load_le_u128 block) (push_bit (length block * 8) 1) = (n1, c)"
      "carry = of_bool c"
      by (auto simp: Let_def split: prod.splits)
    with False assms unat_overflowing_sum[OF c(1)] show ?thesis
      by (auto simp: unat_load_le_u128 unat_power_2 mult.commute)
  qed
  then show "unat n1 + unat carry * 2 ^ 128 = le_nat block + 2 ^ (8 * length block)" "unat carry \<le> 1"
    by auto
qed

lemma product_number:
  assumes h0: "unat h0 \<le> 5" and r: "unat r < 2 ^ 124"
  shows "unat (mul_hi h1 r + ucast (h0 :: u64) * r) * 2 ^ 128 + unat (h1 * r) = acc_val (h0, h1) * unat r"
    and "unat (mul_hi h1 r + ucast h0 * r) < 6 * 2 ^ 124"
proof -
  have h1: "unat h1 < 2 ^ 128" using unsigned_less[of h1, where ?'a = nat] by simp
  have "unat h1 * unat r < 2 ^ 128 * 2 ^ 124"
    by (rule mult_strict_mono') (use h1 r in auto)
  then have hi: "unat h1 * unat r div 2 ^ 128 < 2 ^ 124"
    by (simp add: less_mult_imp_div_less mult.commute)
  have ar: "unat h0 * unat r \<le> 5 * 2 ^ 124"
    by (rule mult_mono) (use h0 r in auto)
  then have "unat (ucast h0 * r :: u128) = unat h0 * unat r"
    by (simp add: unat_word_ariths unat_ucast_128)
  with hi ar have sum: "unat (mul_hi h1 r + ucast h0 * r) = unat h1 * unat r div 2 ^ 128 + unat h0 * unat r"
    by (simp add: unat_word_ariths(1) mul_hi_eq)
  then show "unat (mul_hi h1 r + ucast h0 * r) < 6 * 2 ^ 124"
    using hi ar by linarith
  have "unat (h1 * r) = unat h1 * unat r mod 2 ^ 128"
    by (simp add: unat_word_ariths)
  moreover have "unat h1 * unat r = unat h1 * unat r div 2 ^ 128 * 2 ^ 128 + unat h1 * unat r mod 2 ^ 128"
    by (simp only: div_mult_mod_eq)
  ultimately show "unat (mul_hi h1 r + ucast h0 * r) * 2 ^ 128 + unat (h1 * r) = acc_val (h0, h1) * unat r"
    unfolding sum acc_val.simps add_mult_distrib add_mult_distrib2
    by (simp only: mult.assoc mult.commute mult.left_commute)
qed

text \<open>Folding the bits above 130 back in: \<open>2 ^ 130\<close> is 5 modulo the prime.\<close>

lemma fold_high:
  assumes hi: "unat hi < 6 * 2 ^ 124"
    and o: "overflowing_add lo (drop_bit 2 hi * 5) = (h1, c)"
    and h0: "h0 = (ucast (hi AND 3) :: u64) + of_bool c"
  shows "acc_val (h0, h1) = unat hi mod 4 * 2 ^ 128 + unat lo + 5 * (unat hi div 4)"
    and "acc_val (h0, h1) mod P130 = (unat hi * 2 ^ 128 + unat lo) mod P130"
    and "acc_val (h0, h1) < 2 * P130"
proof -
  have m: "unat (ucast (hi AND 3) :: u64) = unat hi mod 4"
    by (simp add: unat_ucast_64 unat_and_mask mask_2)
  have h0': "unat h0 = unat hi mod 4 + of_bool c"
    using m unfolding h0 by (subst unat_plus_if') auto
  have five: "unat (drop_bit 2 hi * 5 :: u128) = 5 * (unat hi div 4)"
    using hi by (simp add: unat_word_ariths unat_shift)
  from unat_overflowing_sum[OF o] five
  have s: "unat h1 + of_bool c * 2 ^ 128 = unat lo + 5 * (unat hi div 4)"
    by simp
  then show v: "acc_val (h0, h1) = unat hi mod 4 * 2 ^ 128 + unat lo + 5 * (unat hi div 4)"
    by (simp add: h0' add_mult_distrib)
  have "unat hi * 2 ^ 128 + unat lo = acc_val (h0, h1) + unat hi div 4 * P130"
  proof -
    define q m where "q = unat hi div 4" and "m = unat hi mod 4"
    then have "unat hi = 4 * q + m" by simp
    then show ?thesis unfolding v P130_def q_def[symmetric] m_def[symmetric] by simp
  qed
  then show "acc_val (h0, h1) mod P130 = (unat hi * 2 ^ 128 + unat lo) mod P130"
    by simp
  have "unat lo < 2 ^ 128" "unat hi mod 4 \<le> 3" "unat hi div 4 < 6 * 2 ^ 122"
    using hi unsigned_less[of lo, where ?'a = nat] by auto
  then show "acc_val (h0, h1) < 2 * P130"
    unfolding v P130_def by simp
qed

text \<open>Subtracting the prime once.\<close>

definition sub_p :: "acc \<Rightarrow> acc" where
  "sub_p h = (let (h0, h1) = h; (h1, borrow) = overflowing_sub h1 (- 1 - 4)
     in (h0 - 3 - of_bool borrow, h1))"

lemma unat_p_lo: "unat (- 1 - 4 :: u128) = 2 ^ 128 - 5" "unat (- 1 - 3 :: u128) = 2 ^ 128 - 4"
  by simp_all

lemma acc_val_sub_p: "P130 \<le> acc_val h \<Longrightarrow> acc_val (sub_p h) = acc_val h - P130"
proof -
  assume ge: "P130 \<le> acc_val h"
  obtain h0 h1 where h: "h = (h0, h1)" by (cases h)
  obtain d b where o: "overflowing_sub h1 (- 1 - 4) = (d, b)" by (cases "overflowing_sub h1 (- 1 - 4)")
  have d: "unat d + (2 ^ 128 - 5) = unat h1 + of_bool b * 2 ^ 128"
    using unat_overflowing_diff[OF o] unat_p_lo by simp
  have b: "b \<longleftrightarrow> unat h1 < 2 ^ 128 - 5"
    using o unat_p_lo by (auto simp: overflowing_sub_def word_less_nat_alt)
  have h1: "unat h1 < 2 ^ 128" using unsigned_less[of h1, where ?'a = nat] by simp
  have h0: "3 + of_bool b \<le> unat h0"
    using ge h1 b unfolding h P130_def by (cases b) auto
  have "unat (h0 - 3 - of_bool b) = unat h0 - 3 - of_bool b"
    using h0 by (cases b) (simp_all add: unat_sub_if')
  with h0 d show ?thesis
    unfolding h sub_p_def Let_def prod.case o P130_def
    by (cases b) (auto simp: algebra_simps)
qed

lemma above_p: "4 \<le> h0 \<or> h0 = 3 \<and> - 1 - 3 \<le> h1 \<longleftrightarrow> P130 < acc_val (h0, h1)"
proof -
  have "unat h1 < 2 ^ 128" using unsigned_less[of h1, where ?'a = nat] by simp
  then show ?thesis
    unfolding word_le_nat_alt unat_p_lo P130_def word_unat_eq_iff[of h0 3] by auto
qed

lemma at_least_p: "3 < h0 \<or> h0 = 3 \<and> - 1 - 4 \<le> h1 \<longleftrightarrow> P130 \<le> acc_val (h0, h1)"
proof -
  have "unat h1 < 2 ^ 128" using unsigned_less[of h1, where ?'a = nat] by simp
  then show ?thesis
    unfolding word_le_nat_alt word_less_nat_alt unat_p_lo P130_def word_unat_eq_iff[of h0 3] by auto
qed

lemma acc_add:
  assumes "unat h0 \<le> 3" and "unat carry \<le> 1" and "overflowing_add h1 n1 = (h1', c)"
  shows "acc_val (h0 + carry + of_bool c, h1') = acc_val (h0, h1) + unat n1 + unat carry * 2 ^ 128"
    and "unat (h0 + carry + of_bool c) \<le> 5"
proof -
  have "unat (h0 + carry + of_bool c) = unat h0 + unat carry + of_bool c"
    using assms(1,2) by (cases c) (simp_all add: unat_word_ariths)
  with unat_overflowing_sum[OF assms(3)] assms(1,2)
  show "acc_val (h0 + carry + of_bool c, h1') = acc_val (h0, h1) + unat n1 + unat carry * 2 ^ 128"
    and "unat (h0 + carry + of_bool c) \<le> 5"
    by (simp_all add: add_mult_distrib)
qed

lemma add_block_correct:
  assumes h: "acc_val h \<le> P130" and r: "unat r < 2 ^ 124" and b: "length block \<le> 16"
  shows "acc_val (add_block r h block full) \<le> P130"
    and "acc_val (add_block r h block full) mod P130 =
      (acc_val h + le_nat block + 2 ^ (8 * length block)) * unat r mod P130"
proof -
  obtain h0 h1 where hh: "h = (h0, h1)" by (cases h)
  obtain n1 carry where n: "(n1, carry) =
      (if full \<and> length block = 16 then (load_le_u128 block, 1)
       else let pos = length block * 8
            in if pos < 128
               then let (v, c) = overflowing_add (load_le_u128 block) (push_bit pos 1) in (v, of_bool c)
               else (load_le_u128 block, 1 :: u64))" (is "_ = ?n")
    by (cases ?n) simp
  obtain h1' c where a: "overflowing_add h1 n1 = (h1', c)" by (cases "overflowing_add h1 n1")
  define h0' where "h0' = h0 + carry + of_bool c"
  define lo hi where "lo = h1' * r" and "hi = mul_hi h1' r + ucast h0' * r"
  obtain g1 d where f: "overflowing_add lo (drop_bit 2 hi * 5) = (g1, d)"
    by (cases "overflowing_add lo (drop_bit 2 hi * 5)")
  define g where "g = ((ucast (hi AND 3) :: u64) + of_bool d, g1)"
  have out: "add_block r h block full = (if P130 < acc_val g then sub_p g else g)"
    unfolding add_block_def hh Let_def prod.case n[unfolded Let_def, symmetric] a f
      h0'_def[symmetric] lo_def[symmetric] hi_def[symmetric] g_def above_p sub_p_def ..
  have "unat h0 \<le> 3"
    using h unsigned_less[of h1, where ?'a = nat] unfolding hh P130_def by simp
  note add = acc_add[OF this block_number(2)[OF b n] a, folded h0'_def]
  note prod = product_number[OF add(2) r, of h1', folded lo_def hi_def]
  note fold = fold_high[OF prod(2) f refl, folded g_def]
  have "acc_val (h0', h1') = acc_val h + le_nat block + 2 ^ (8 * length block)"
    using add(1) block_number(1)[OF b n] unfolding hh by linarith
  with fold(2) prod(1) have g: "acc_val g mod P130 =
      (acc_val h + le_nat block + 2 ^ (8 * length block)) * unat r mod P130"
    by simp
  show "acc_val (add_block r h block full) \<le> P130"
    using fold(3) by (auto simp: out acc_val_sub_p)
  show "acc_val (add_block r h block full) mod P130 =
      (acc_val h + le_nat block + 2 ^ (8 * length block)) * unat r mod P130"
    unfolding g[symmetric] using le_mod_geq[of P130 "acc_val g"] by (auto simp: out acc_val_sub_p)
qed

section \<open>Poly1305 computes the polynomial of RFC 8439\<close>

definition poly1305_spec :: "bytes \<Rightarrow> bytes \<Rightarrow> bytes" where
  "poly1305_spec key msg =
     (let r = le_nat (clamp (take 16 key)); s = le_nat (drop 16 key);
          a = fold (\<lambda>block a. (a + le_nat block + 2 ^ (8 * length block)) * r mod P130) (chunks 16 msg) 0
      in le_bytes 16 ((a + s) mod 2 ^ 128))"

lemma unat_and_15: "unat (x AND 15 :: u8) \<le> 15"
proof -
  have "(15 :: u8) = mask 4" by (simp add: mask_eq_exp_minus_1)
  then have "unat (x AND 15) = unat x mod 2 ^ 4" by (simp only: unat_and_mask)
  then show ?thesis by simp
qed

lemma length_clamp [simp]: "length (clamp r) = length r"
  by (simp add: clamp_def Let_def)

lemma clamp_bound: "length r = 16 \<Longrightarrow> le_nat (clamp r) < 2 ^ 124"
proof -
  assume l: "length r = 16"
  have last: "clamp r ! 15 = r ! 15 AND 15"
    using l by (simp add: clamp_def Let_def)
  have "clamp r = take 15 (clamp r) @ [clamp r ! 15]"
    using l take_Suc_conv_app_nth[of 15 "clamp r"] by simp
  then have "le_nat (clamp r) = le_nat (take 15 (clamp r)) + 256 ^ 15 * le_nat [clamp r ! 15]"
    using l le_nat_append[of "take 15 (clamp r)" "[clamp r ! 15]"] by simp
  moreover have "le_nat (take 15 (clamp r)) < 256 ^ 15"
    using l le_nat_less[of "take 15 (clamp r)"] by simp
  ultimately show ?thesis
    using unat_and_15[of "r ! 15"] last by simp
qed

abbreviation poly_step :: "nat \<Rightarrow> bytes \<Rightarrow> nat \<Rightarrow> nat" where
  "poly_step r block a \<equiv> (a + le_nat block + 2 ^ (8 * length block)) * r mod P130"

lemma poly_step_mod: "poly_step r block (a mod P130) = poly_step r block a"
  unfolding add.assoc by (rule mod_mult_cong[OF mod_add_cong[OF mod_mod_trivial refl] refl])

lemma blocks_correct:
  assumes "unat r < 2 ^ 124" and "acc_val h \<le> P130" and "poly1305_blocks r msg offset h = (offset', h')"
    and "h'' = (if offset' < length msg then add_block r h' (drop offset' msg) False else h')"
  shows "acc_val h'' \<le> P130 \<and>
    acc_val h'' mod P130 = fold (poly_step (unat r)) (chunks 16 (drop offset msg)) (acc_val h mod P130)"
  using assms
proof (induction r msg offset h rule: poly1305_blocks.induct)
  case (1 r msg offset h)
  show ?case
  proof (cases "offset + 16 \<le> length msg")
    case True
    let ?b = "slice offset (offset + 16) msg"
    have l: "length ?b = 16" using True by simp
    have "chunks 16 (drop offset msg) = ?b # chunks 16 (drop (offset + 16) msg)"
      using True by (subst chunks.simps) (auto simp: slice_def add.commute)
    moreover note add_block_correct[OF 1(3,2), of ?b True] poly_step_mod[where r = "unat r" and block = ?b and a = "acc_val h"]
    ultimately show ?thesis
      using 1(1)[OF True 1(2)] 1(4,5) True l by (simp add: poly1305_blocks.simps[of r msg offset])
  next
    case False
    then have e: "offset' = offset" "h' = h" using 1(4) by (auto simp: poly1305_blocks.simps[of r msg offset])
    show ?thesis
    proof (cases "offset < length msg")
      case True
      with False add_block_correct[OF 1(3,2), of "drop offset msg" False]
        poly_step_mod[where r = "unat r" and block = "drop offset msg" and a = "acc_val h"] 1(5) show ?thesis
        by (simp add: e chunks_short)
    qed (use 1 e in simp)
  qed
qed

lemma poly1305_eq_spec: "length key = 32 \<Longrightarrow> poly1305 key msg = poly1305_spec key msg"
proof -
  assume k: "length key = 32"
  define r s where "r = load_le_u128 (clamp (take 16 key))" and "s = load_le_u128 (drop 16 key)"
  have r: "unat r = le_nat (clamp (take 16 key))" "unat r < 2 ^ 124" and s: "unat s = le_nat (drop 16 key)"
    using k clamp_bound[of "take 16 key"] by (auto simp: r_def s_def unat_load_le_u128)
  obtain offset h' where b: "poly1305_blocks r msg 0 (0, 0) = (offset, h')"
    by (cases "poly1305_blocks r msg 0 (0, 0)")
  define h where "h = (if offset < length msg then add_block r h' (drop offset msg) False else h')"
  obtain h0 h1 where hh: "h = (h0, h1)" by (cases h)
  define a where "a = fold (poly_step (unat r)) (chunks 16 msg) 0"
  have h: "acc_val h \<le> P130" "acc_val h mod P130 = a"
    using blocks_correct[OF r(2) _ b h_def] by (auto simp: a_def)
  define g where "g = (if P130 \<le> acc_val h then sub_p h else h)"
  have g: "acc_val g = a"
    using h le_mod_geq[of P130 "acc_val h"] by (auto simp: g_def acc_val_sub_p P130_def)
  have "poly1305 key msg = to_le_bytes 16 (fst (overflowing_add (snd g) s))"
    unfolding poly1305_def Let_def r_def[symmetric] s_def[symmetric] b prod.case h_def[symmetric]
    unfolding hh prod.case at_least_p g_def sub_p_def Let_def by (auto split: prod.splits)
  moreover have "unat (fst (overflowing_add (snd g) s)) = (a + unat s) mod 2 ^ 128"
    using g by (cases g) (auto simp: overflowing_add_def unat_word_ariths add.assoc)
  ultimately show ?thesis
    by (simp add: poly1305_spec_def to_le_bytes_def r(1)[symmetric] s[symmetric] a_def)
qed

section \<open>The keystream\<close>

text \<open>\<open>keystream key nonce c n\<close> is the concatenation of \<open>n\<close> blocks from counter \<open>c\<close>.\<close>

definition keystream :: "bytes \<Rightarrow> bytes \<Rightarrow> nat \<Rightarrow> nat \<Rightarrow> bytes" where
  "keystream key nonce c n = concat (map (\<lambda>i. chacha20_block key (word_of_nat i) nonce) [c..<c + n])"

definition blocks_for :: "bytes \<Rightarrow> nat" where
  "blocks_for xs = (length xs + 63) div 64"

definition stream_xor :: "bytes \<Rightarrow> bytes \<Rightarrow> bytes \<Rightarrow> bytes" where
  "stream_xor key nonce xs = xor_bytes xs (keystream key nonce 1 (blocks_for xs))"

lemma length_keystream [simp]: "length (keystream key nonce c n) = 64 * n"
  by (simp add: keystream_def length_concat_map_const[where n = 64])

lemma length_le_blocks: "length xs \<le> 64 * blocks_for xs"
  by (simp add: blocks_for_def)

lemma keystream_Suc:
  "keystream key nonce c (Suc n) =
     chacha20_block key (word_of_nat c) nonce @ keystream key nonce (Suc c) n"
  unfolding keystream_def by (subst upt_rec) simp

lemma xor_bytes_split:
  "xor_bytes xs (ks @ ls) = xor_bytes (take (length ks) xs) ks @ xor_bytes (drop (length ks) xs) ls"
  by (simp add: xor_bytes_def zip_append2)

lemma copy_at_copy_at:
  "pos + length xs + length ys \<le> length out \<Longrightarrow>
   copy_at (pos + length xs) ys (copy_at pos xs out) = copy_at pos (xs @ ys) out"
  by (auto simp: copy_at_def ac_simps min_def)

lemma blocks_for_drop: "pos < length xs \<Longrightarrow> blocks_for (drop pos xs) = Suc (blocks_for (drop (pos + 64) xs))"
proof -
  assume "pos < length xs"
  then obtain k where k: "length (drop pos xs) = Suc k" by (metis Suc_diff_Suc length_drop)
  have l: "length (drop (pos + 64) xs) = Suc k - 64" using k by simp
  show ?thesis
  proof (cases "63 \<le> k")
    case True
    then obtain c where "k = 63 + c" using le_Suc_ex by blast
    then show ?thesis unfolding blocks_for_def k l by simp
  next
    case False
    then show ?thesis unfolding blocks_for_def k l by simp
  qed
qed

lemma stream_piece:
  "pos \<le> length input \<Longrightarrow> length ks = 64 \<Longrightarrow>
   map (\<lambda>i. input ! (pos + i) XOR ks ! i) [0..<min (length input - pos) 64] =
     xor_bytes (take 64 (drop pos input)) ks"
  by (rule nth_equalityI) (auto simp: xor_bytes_def)

lemma chacha20_stream_eq:
  assumes "pos \<le> length input" and "length input \<le> length out" and "c + blocks_for (drop pos input) < 2 ^ 32"
  shows "chacha20_stream key nonce input (word_of_nat c) pos out =
    Some (copy_at pos (xor_bytes (drop pos input)
            (keystream key nonce c (blocks_for (drop pos input)))) out)"
  using assms
proof (induction "length input - pos" arbitrary: pos c out rule: less_induct)
  case less
  show ?case
  proof (cases "pos < length input")
    case True
    let ?n = "min (length input - pos) 64" and ?ks = "chacha20_block key (word_of_nat c) nonce"
    let ?x = "xor_bytes (take 64 (drop pos input)) ?ks"
    have l: "length ?x = ?n" by auto
    have d: "drop (pos + ?n) input = drop (pos + 64) input" by (auto simp: min_def)
    note b = blocks_for_drop[OF True]
    have c: "add_chk (word_of_nat c) (1::u32) = Some (word_of_nat (Suc c))"
      using less.prems(3) b by (simp add: add_chk_def unat_of_nat)
    have "chacha20_stream key nonce input (word_of_nat (Suc c)) (pos + ?n) (copy_at pos ?x out) =
      Some (copy_at (pos + ?n) (xor_bytes (drop (pos + 64) input)
            (keystream key nonce (Suc c) (blocks_for (drop (pos + 64) input)))) (copy_at pos ?x out))"
      using less.hyps[of "pos + ?n" "copy_at pos ?x out" "Suc c"] less.prems True b d l by auto
    moreover have "copy_at (pos + ?n) (xor_bytes (drop (pos + 64) input)
            (keystream key nonce (Suc c) (blocks_for (drop (pos + 64) input)))) (copy_at pos ?x out) =
      copy_at pos (xor_bytes (drop pos input) (keystream key nonce c (blocks_for (drop pos input)))) out"
      unfolding b keystream_Suc xor_bytes_split length_chacha20_block l[symmetric]
      by (subst copy_at_copy_at) (use less.prems length_le_blocks[of "drop (pos + 64) input"] in \<open>auto simp: add.commute\<close>)
    ultimately show ?thesis
      using True less.prems by (subst chacha20_stream.simps) (simp add: Let_def c stream_piece)
  qed (use less.prems in \<open>simp add: chacha20_stream.simps blocks_for_def xor_bytes_def copy_at_def\<close>)
qed

lemma chacha20_stream_whole:
  "length input \<le> length out \<Longrightarrow> blocks_for input < 2 ^ 32 - 1 \<Longrightarrow>
   chacha20_stream key nonce input 1 0 out =
     Some (stream_xor key nonce input @ drop (length input) out)"
  using chacha20_stream_eq[of 0 input out 1 key nonce] length_le_blocks[of input]
  by (simp add: stream_xor_def copy_at_def min_def)

lemma length_stream_xor [simp]: "length (stream_xor key nonce xs) = length xs"
  using length_le_blocks[of xs] by (simp add: stream_xor_def)

lemma stream_xor_involution [simp]: "stream_xor key nonce (stream_xor key nonce xs) = xs"
  using length_le_blocks[of xs] xor_bytes_cancel[of xs "keystream key nonce 1 (blocks_for xs)"]
  by (simp add: stream_xor_def blocks_for_def)

section \<open>The authenticated message\<close>

definition mac_message :: "bytes \<Rightarrow> bytes \<Rightarrow> bytes" where
  "mac_message aad ct = aad @ replicate (pad16 (length aad)) 0 @ ct @ replicate (pad16 (length ct)) 0 @
     le_bytes 8 (length aad) @ le_bytes 8 (length ct)"

lemma to_le_bytes_u64: "n < 2 ^ 64 \<Longrightarrow> to_le_bytes 8 (word_of_nat n :: u64) = le_bytes 8 n"
  by (simp add: to_le_bytes_def unat_of_nat)

lemma mac_input_eq:
  assumes "length aad < 2 ^ 64" and "length ct < 2 ^ 64"
  shows "mac_input aad ct = mac_message aad ct"
  using assms unfolding mac_input_def mac_message_def Let_def
  by (simp add: copy_at_def to_le_bytes_u64 add.assoc replicate_add)

text \<open>The length fields make the authenticated message determine both its parts.\<close>

lemma mac_message_inject:
  assumes "length aad < 2 ^ 64" "length ct < 2 ^ 64" "length aad' < 2 ^ 64" "length ct' < 2 ^ 64"
  shows "mac_message aad ct = mac_message aad' ct' \<longleftrightarrow> aad = aad' \<and> ct = ct'"
proof
  assume e: "mac_message aad ct = mac_message aad' ct'"
  define body where "body a c = a @ replicate (pad16 (length a)) 0 @ c @ replicate (pad16 (length c)) (0 :: u8)" for a c
  have "(body aad ct @ le_bytes 8 (length aad)) @ le_bytes 8 (length ct) =
        (body aad' ct' @ le_bytes 8 (length aad')) @ le_bytes 8 (length ct')"
    using e by (simp add: mac_message_def body_def)
  then have b: "body aad ct = body aad' ct'" and
    l: "le_bytes 8 (length aad) = le_bytes 8 (length aad')" "le_bytes 8 (length ct) = le_bytes 8 (length ct')"
    by auto
  have "length aad = length aad'" "length ct = length ct'"
    using l[THEN arg_cong, of le_nat] assms by (simp_all add: le_nat_le_bytes)
  with b show "aad = aad' \<and> ct = ct'" by (simp add: body_def)
qed simp

section \<open>Sealing and opening\<close>

definition otk :: "bytes \<Rightarrow> bytes \<Rightarrow> bytes" where
  "otk key nonce = take 32 (chacha20_block key 0 nonce)"

definition seal_tag :: "bytes \<Rightarrow> bytes \<Rightarrow> bytes \<Rightarrow> bytes \<Rightarrow> bytes" where
  "seal_tag key nonce aad ct = poly1305_spec (otk key nonce) (mac_message aad ct)"

lemma length_poly1305_spec [simp]: "length (poly1305_spec key msg) = 16"
  by (simp add: poly1305_spec_def Let_def)

lemma blocks_bound: "blocks_for xs < 2 ^ 32 - 1 \<Longrightarrow> length xs < 2 ^ 64"
  using length_le_blocks[of xs] by simp

lemma seal_eq:
  assumes "length pt \<le> length buf" and "blocks_for pt < 2 ^ 32 - 1" and "length aad < 2 ^ 64" and "length buf < 2 ^ 64"
  shows "chacha20_poly1305_seal key nonce aad pt buf =
    (let ct = stream_xor key nonce pt @ drop (length pt) buf in Some (seal_tag key nonce aad ct, ct))"
  using assms
  by (simp add: chacha20_poly1305_seal_def chacha20_stream_whole mac_input_eq seal_tag_def otk_def
      poly1305_eq_spec Let_def)

lemma open_eq:
  assumes "length ct \<le> length buf" and "blocks_for ct < 2 ^ 32 - 1" and "length aad < 2 ^ 64"
    and "length tag = 16"
  shows "chacha20_poly1305_open key nonce aad ct tag buf =
    Some (if tag = seal_tag key nonce aad ct then (True, stream_xor key nonce ct @ drop (length ct) buf)
          else (False, buf))"
proof -
  have "ct_diff 16 (seal_tag key nonce aad ct) tag = 0 \<longleftrightarrow> tag = seal_tag key nonce aad ct"
    using assms by (subst ct_diff_0_eq) (auto simp: seal_tag_def)
  with assms blocks_bound[OF assms(2)] show ?thesis
    by (simp add: chacha20_poly1305_open_def chacha20_stream_whole mac_input_eq
        seal_tag_def otk_def poly1305_eq_spec Let_def)
qed

text \<open>Sealing a fresh buffer and opening it, as the AEAD interface of the library.\<close>

fun poly_seal :: "bytes \<times> bytes \<times> bytes \<Rightarrow> bytes \<Rightarrow> (bytes \<times> bytes) panics" where
  "poly_seal (key, nonce, aad) pt =
     chacha20_poly1305_seal key nonce aad pt (replicate (length pt) 0)"

fun poly_open :: "bytes \<times> bytes \<times> bytes \<Rightarrow> bytes \<times> bytes \<Rightarrow> bytes option panics" where
  "poly_open (key, nonce, aad) (tag, ct) =
     map_option (\<lambda>(ok, pt). if ok then Some pt else None)
       (chacha20_poly1305_open key nonce aad ct tag (replicate (length ct) 0))"

definition poly_msg_ok :: "bytes \<Rightarrow> bool" where
  "poly_msg_ok m \<longleftrightarrow> blocks_for m < 2 ^ 32 - 1"

lemma poly_seal_eq:
  "poly_msg_ok m \<Longrightarrow> length aad < 2 ^ 64 \<Longrightarrow>
   poly_seal (key, nonce, aad) m =
     Some (seal_tag key nonce aad (stream_xor key nonce m), stream_xor key nonce m)"
  using seal_eq[of m "replicate (length m) 0" aad key nonce] blocks_bound[of m]
  by (simp add: poly_msg_ok_def Let_def)

lemma poly_open_eq:
  "poly_msg_ok ct \<Longrightarrow> length aad < 2 ^ 64 \<Longrightarrow> length tag = 16 \<Longrightarrow>
   poly_open (key, nonce, aad) (tag, ct) =
     Some (if tag = seal_tag key nonce aad ct then Some (stream_xor key nonce ct) else None)"
  using open_eq[of ct "replicate (length ct) 0" aad tag key nonce]
  by (simp add: poly_msg_ok_def)

lemma poly_msg_ok_stream [simp]: "poly_msg_ok (stream_xor key nonce m) = poly_msg_ok m"
  by (simp add: poly_msg_ok_def blocks_for_def)

interpretation poly_aead: aead_scheme poly_seal poly_open
  "\<lambda>(key, nonce, aad). length aad < 2 ^ 64" poly_msg_ok "\<lambda>(tag, ct). length tag = 16 \<and> poly_msg_ok ct"
proof unfold_locales
  fix k :: "bytes \<times> bytes \<times> bytes" and c :: "bytes \<times> bytes" and m
  obtain key nonce aad where k: "k = (key, nonce, aad)" by (cases k)
  obtain tag ct where c: "c = (tag, ct)" by (cases c)
  assume kok: "case k of (key, nonce, aad) \<Rightarrow> length aad < 2 ^ 64"
  show "\<exists>c. poly_seal k m = Some c \<and> (case c of (tag, ct) \<Rightarrow> length tag = 16 \<and> poly_msg_ok ct)"
    if "poly_msg_ok m"
    using that kok by (simp add: k poly_seal_eq seal_tag_def del: poly_seal.simps)
  assume cok: "case c of (tag, ct) \<Rightarrow> length tag = 16 \<and> poly_msg_ok ct"
  show "\<exists>r. poly_open k c = Some r"
    using kok cok by (simp add: k c poly_open_eq del: poly_open.simps)
  show "(poly_open k c = Some (Some m)) = (poly_msg_ok m \<and> poly_seal k m = Some c)"
    using kok cok unfolding k c
    by (auto simp: poly_open_eq poly_seal_eq simp del: poly_open.simps poly_seal.simps)
qed

section \<open>The polynomial in closed form\<close>

lemma fold_poly_step:
  "fold (poly_step r) bs a mod P130 =
     (a * r ^ length bs +
      (\<Sum>i<length bs. (le_nat (bs ! i) + 2 ^ (8 * length (bs ! i))) * r ^ (length bs - i))) mod P130"
proof (induction bs arbitrary: a)
  case (Cons b bs)
  let ?n = "length bs" and ?m = "\<lambda>i. le_nat ((b # bs) ! i) + 2 ^ (8 * length ((b # bs) ! i))"
  let ?S = "\<Sum>i<?n. ?m (Suc i) * r ^ (?n - i)"
  have "(poly_step r b a * r ^ ?n + ?S) mod P130 = ((a + ?m 0) * r * r ^ ?n + ?S) mod P130"
    by (rule mod_add_cong[OF _ refl]) (simp add: mod_mult_left_eq add.assoc)
  moreover have "fold (poly_step r) (b # bs) a mod P130 = (poly_step r b a * r ^ ?n + ?S) mod P130"
    using Cons.IH[of "poly_step r b a"] by simp
  moreover have "(\<Sum>i<length (b # bs). ?m i * r ^ (length (b # bs) - i)) = ?m 0 * r ^ Suc ?n + ?S"
    by (simp add: sum.lessThan_Suc_shift del: sum.lessThan_Suc)
  moreover have "(a + ?m 0) * r * r ^ ?n + ?S = a * r ^ length (b # bs) + (?m 0 * r ^ Suc ?n + ?S)"
    by (simp add: add_mult_distrib mult.assoc)
  ultimately show ?case by (simp only:)
qed simp

section \<open>Properties\<close>

text \<open>C2: For every 32-byte key and every message, \<open>poly1305\<close> returns the little-endian bytes of
  \<open>(\<Sum> m_i * r ^ (n - i) mod (2 ^ 130 - 5) + s) mod 2 ^ 128\<close>, where \<open>m_i\<close> is the \<open>i\<close>-th 16-byte
  block with a one bit appended, \<open>r\<close> the clamped first key half and \<open>s\<close> the second: the two-word
  accumulator, its 64-bit schoolbook product and its lazy reductions lose nothing.\<close>

theorem poly1305_rfc8439:
  "length key = 32 \<Longrightarrow>
   poly1305 key msg =
     (let r = le_nat (clamp (take 16 key)); s = le_nat (drop 16 key); bs = chunks 16 msg
      in le_bytes 16 (((\<Sum>i<length bs. (le_nat (bs ! i) + 2 ^ (8 * length (bs ! i))) * r ^ (length bs - i))
           mod P130 + s) mod 2 ^ 128))"
proof -
  assume k: "length key = 32"
  have "fold (poly_step r) bs 0 mod P130 = fold (poly_step r) bs 0" for r bs
    by (cases bs rule: rev_cases) auto
  with fold_poly_step[of _ _ 0] show ?thesis
    by (simp add: poly1305_eq_spec[OF k] poly1305_spec_def Let_def)
qed

definition rfc8439_key :: bytes where
  "rfc8439_key = [0x85,0xd6,0xbe,0x78,0x57,0x55,0x6d,0x33,0x7f,0x44,0x52,0xfe,0x42,0xd5,0x06,0xa8,
     0x01,0x03,0x80,0x8a,0xfb,0x0d,0xb2,0xfd,0x4a,0xbf,0xf6,0xaf,0x41,0x49,0xf5,0x1b]"

theorem poly1305_rfc8439_witness:
  "poly1305 rfc8439_key (ascii ''Cryptographic Forum Research Group'') =
     [0xa8,0x06,0x1d,0xc1,0x30,0x51,0x36,0xc6,0xc2,0x2b,0x8b,0xaf,0x0c,0x01,0x27,0xa9]"
proof -
  have "length rfc8439_key = 32" by (simp add: rfc8439_key_def)
  note poly1305_rfc8439[OF this, of "ascii ''Cryptographic Forum Research Group''"]
  then show ?thesis
    by (simp add: rfc8439_key_def ascii_def chunks.simps clamp_def P130_def Let_def lessThan_nat_numeral)
      (simp add: le_bytes_map upt_rec)
qed

text \<open>C9: With the RFC 8439 tag (Poly1305 under the one-time key of block 0, over the padded data, ciphertext
  and lengths), \<open>chacha20_poly1305_open\<close> accepts exactly the pairs that
  \<open>chacha20_poly1305_seal\<close> produces and then restores the plaintext; on any other tag it
  returns false and leaves the plaintext buffer as it was.\<close>

theorem chacha20_poly1305_open_iff_sealed:
  assumes "blocks_for ct < 2 ^ 32 - 1" and "length aad < 2 ^ 64" and "length tag = 16"
    and "length buf = length ct"
  shows "(\<forall>pt. length pt = length ct \<longrightarrow>
            (chacha20_poly1305_open key nonce aad ct tag buf = Some (True, pt) \<longleftrightarrow>
             chacha20_poly1305_seal key nonce aad pt buf = Some (tag, ct))) \<and>
         ((\<forall>pt. length pt = length ct \<longrightarrow> chacha20_poly1305_seal key nonce aad pt buf \<noteq> Some (tag, ct)) \<longrightarrow>
            chacha20_poly1305_open key nonce aad ct tag buf = Some (False, buf))"
proof -
  let ?x = "stream_xor key nonce"
  have seal: "chacha20_poly1305_seal key nonce aad pt buf = Some (seal_tag key nonce aad (?x pt), ?x pt)"
    if "length pt = length ct" for pt
    using seal_eq[of pt buf aad key nonce] that assms blocks_bound[of ct]
    by (simp add: Let_def blocks_for_def)
  have opn: "chacha20_poly1305_open key nonce aad ct tag buf =
      Some (if tag = seal_tag key nonce aad ct then (True, ?x ct) else (False, buf))"
    using open_eq[of ct buf aad tag key nonce] assms by simp
  have x: "?x pt = ct \<longleftrightarrow> pt = ?x ct" for pt by auto
  have "chacha20_poly1305_open key nonce aad ct tag buf = Some (True, pt) \<longleftrightarrow>
      chacha20_poly1305_seal key nonce aad pt buf = Some (tag, ct)" if "length pt = length ct" for pt
    using x[of pt] by (auto simp: seal[OF that] opn)
  moreover have "chacha20_poly1305_open key nonce aad ct tag buf = Some (False, buf)"
    if "\<forall>pt. length pt = length ct \<longrightarrow> chacha20_poly1305_seal key nonce aad pt buf \<noteq> Some (tag, ct)"
    using that[rule_format, of "?x ct"] seal[of "?x ct"] by (auto simp: opn)
  ultimately show ?thesis by blast
qed

theorem chacha20_poly1305_open_iff_sealed_witness:
  "\<exists>ok pt. chacha20_poly1305_open (replicate 32 1) (replicate 12 2) [5] [3, 4] (replicate 16 0) [0, 0] = Some (ok, pt)"
proof -
  let ?o = "chacha20_poly1305_open (replicate 32 1) (replicate 12 2) [5] [3, 4] (replicate 16 0) [0, 0]"
  have "blocks_for [3, 4] < 2 ^ 32 - 1" by (simp add: blocks_for_def)
  from chacha20_poly1305_open_iff_sealed[OF this, of "[5]" "replicate 16 0" "[0, 0]" "replicate 32 1" "replicate 12 2"]
  have "?o = Some (False, [0, 0]) \<or> (\<exists>pt. ?o = Some (True, pt))" by auto
  then show ?thesis by blast
qed

end
