(* ===== verification/Bounded_Queue.thy ===== *)
theory Bounded_Queue
  imports Axiom_Prelude
begin

text \<open>
  The contract of a bounded first-in first-out queue, over its abstraction to lists, and of a
  message channel on top of one. Shared by the clients of the EIPC channel.
\<close>

datatype 'm queue_op = Enq 'm | Deq

text \<open>Any interleaving of senders and receivers: the messages accepted, the messages handed
  out, and the final queue.\<close>

fun run_queue :: "('q \<Rightarrow> 'm \<Rightarrow> (bool \<times> 'q) panics) \<Rightarrow> ('q \<Rightarrow> ('m option \<times> 'q) panics) \<Rightarrow> 'q \<Rightarrow>
    'm queue_op list \<Rightarrow> ('m list \<times> 'm list \<times> 'q) panics" where
  "run_queue enq deq q [] = Some ([], [], q)"
| "run_queue enq deq q (Enq m # ops) = do {
     (ok, q) \<leftarrow> enq q m;
     (ins, outs, q) \<leftarrow> run_queue enq deq q ops;
     Some (if ok then m # ins else ins, outs, q) }"
| "run_queue enq deq q (Deq # ops) = do {
     (m, q) \<leftarrow> deq q;
     (ins, outs, q) \<leftarrow> run_queue enq deq q ops;
     Some (ins, case m of None \<Rightarrow> outs | Some m \<Rightarrow> m # outs, q) }"

locale bounded_queue =
  fixes empty :: 'q and enq :: "'q \<Rightarrow> 'm \<Rightarrow> (bool \<times> 'q) option" and deq :: "'q \<Rightarrow> ('m option \<times> 'q) option"
    and list :: "'q \<Rightarrow> 'm list" and invar :: "'q \<Rightarrow> bool" and cap :: nat
  assumes empty_law: "invar empty \<and> list empty = []"
    and cap_law: "invar q \<Longrightarrow> length (list q) \<le> cap"
    and enq_room: "invar q \<Longrightarrow> length (list q) < cap \<Longrightarrow>
      \<exists>q'. enq q m = Some (True, q') \<and> invar q' \<and> list q' = list q @ [m]"
    and enq_full: "invar q \<Longrightarrow> length (list q) = cap \<Longrightarrow> enq q m = Some (False, q)"
    and deq_empty: "invar q \<Longrightarrow> list q = [] \<Longrightarrow> deq q = Some (None, q)"
    and deq_first: "invar q \<Longrightarrow> list q = m # ms \<Longrightarrow>
      \<exists>q'. deq q = Some (Some m, q') \<and> invar q' \<and> list q' = ms"
begin

lemma run_fifo:
  "invar q \<Longrightarrow> \<exists>ins outs q'. run_queue enq deq q ops = Some (ins, outs, q') \<and> invar q' \<and>
     list q @ ins = outs @ list q'"
proof (induction ops arbitrary: q)
  case (Cons op ops)
  show ?case
  proof (cases op)
    case (Enq m)
    show ?thesis
    proof (cases "length (list q) < cap")
      case True
      then obtain q1 where "enq q m = Some (True, q1)" "invar q1" "list q1 = list q @ [m]"
        using enq_room[OF Cons.prems] by blast
      with Cons.IH[OF this(2)] Enq show ?thesis by force
    next
      case False
      then have "enq q m = Some (False, q)"
        using enq_full[OF Cons.prems] cap_law[OF Cons.prems] by simp
      with Cons.IH[OF Cons.prems] Enq show ?thesis by force
    qed
  next
    case Deq
    show ?thesis
    proof (cases "list q")
      case Nil
      with deq_empty[OF Cons.prems] Cons.IH[OF Cons.prems] Deq show ?thesis by force
    next
      case (Cons m ms)
      then obtain q1 where "deq q = Some (Some m, q1)" "invar q1" "list q1 = ms"
        using deq_first[OF \<open>invar q\<close>] by blast
      with Cons.IH[OF this(2)] Deq Cons show ?thesis by force
    qed
  qed
qed simp

end

text \<open>A channel on a bounded queue: sending puts one item into the queue that reads back as the
  header and the message sent.\<close>

fun send_all :: "('h \<Rightarrow> 'x \<Rightarrow> 'q \<Rightarrow> (bool \<times> 'q) panics) \<Rightarrow> 'q \<Rightarrow> ('h \<times> 'x) list \<Rightarrow> (bool list \<times> 'q) panics" where
  "send_all send q [] = Some ([], q)"
| "send_all send q ((h, x) # hxs) = do {
     (ok, q) \<leftarrow> send h x q;
     (oks, q) \<leftarrow> send_all send q hxs;
     Some (ok # oks, q) }"

locale channel = bounded_queue empty enq deq list invar cap
  for empty :: 'q and enq :: "'q \<Rightarrow> 'm \<Rightarrow> (bool \<times> 'q) option" and deq :: "'q \<Rightarrow> ('m option \<times> 'q) option"
    and list :: "'q \<Rightarrow> 'm list" and invar :: "'q \<Rightarrow> bool" and cap :: nat +
  fixes send :: "'h \<Rightarrow> 'x \<Rightarrow> 'q \<Rightarrow> (bool \<times> 'q) option" and read :: "'m \<Rightarrow> ('h \<times> 'x option) option"
    and send_ok :: "'h \<Rightarrow> 'x \<Rightarrow> bool"
  assumes send_law: "send_ok h x \<Longrightarrow> \<exists>m. read m = Some (h, Some x) \<and> (\<forall>q. invar q \<longrightarrow> send h x q = enq q m)"
begin

lemma send_all_delivers:
  assumes "invar q" "\<forall>(h, x) \<in> set hxs. send_ok h x" "length (list q) + length hxs \<le> cap"
  shows "\<exists>q' ms. send_all send q hxs = Some (replicate (length hxs) True, q') \<and> invar q' \<and>
    list q' = list q @ ms \<and> map read ms = map (\<lambda>(h, x). Some (h, Some x)) hxs"
  using assms
proof (induction hxs arbitrary: q)
  case (Cons hx hxs)
  obtain h x where hx: "hx = (h, x)" by (cases hx)
  obtain m where m: "read m = Some (h, Some x)" "send h x q = enq q m"
    using send_law[of h x] Cons.prems hx by auto
  obtain q1 where q1: "enq q m = Some (True, q1)" "invar q1" "list q1 = list q @ [m]"
    using enq_room[OF Cons.prems(1)] Cons.prems(3) by force
  from Cons.IH[OF q1(2)] Cons.prems q1(3) obtain q' ms where
    "send_all send q1 hxs = Some (replicate (length hxs) True, q')" "invar q'"
    "list q' = list q @ m # ms" "map read ms = map (\<lambda>(h, x). Some (h, Some x)) hxs"
    by auto
  with m q1 hx show ?case by (intro exI[of _ q'] exI[of _ "m # ms"]) simp
qed auto

end

end
