(* ===== verification/Eipc.thy ===== *)
theory Eipc
  imports Poly1305 Bounded_Queue
begin

text \<open>
  Encrypted inter-process communication (\<open>kernel/src/eipc.rs\<close>): the kernel's ring of
  ciphertexts, the nonces, and the sender and receiver of the demonstration. The ring is an
  instance of the bounded-queue contract and the sealed messages on it of the channel contract.
\<close>

section \<open>The code\<close>

record EipcMessage =
  sender_id :: u32
  msg_seq :: u32
  msg_nonce :: bytes
  msg_ct :: bytes
  ct_len :: nat
  msg_tag :: bytes

definition CAP :: nat where "CAP = 4"

record EipcChannel =
  ch_slots :: "EipcMessage option list"
  ch_head :: nat
  ch_tail :: nat
  ch_count :: nat

definition EipcChannel_new :: EipcChannel where
  "EipcChannel_new = \<lparr>ch_slots = [None, None, None, None], ch_head = 0, ch_tail = 0, ch_count = 0\<rparr>"

definition EipcChannel_enqueue :: "EipcChannel \<Rightarrow> EipcMessage \<Rightarrow> (bool \<times> EipcChannel) panics" where
  "EipcChannel_enqueue ch msg =
     (if CAP \<le> ch_count ch then Some (False, ch)
      else if CAP \<le> ch_tail ch then None
      else Some (True, ch\<lparr>ch_slots := (ch_slots ch)[ch_tail ch := Some msg],
                          ch_tail := (ch_tail ch + 1) mod CAP, ch_count := ch_count ch + 1\<rparr>))"

definition EipcChannel_dequeue :: "EipcChannel \<Rightarrow> (EipcMessage option \<times> EipcChannel) panics" where
  "EipcChannel_dequeue ch =
     (if ch_count ch = 0 then Some (None, ch)
      else if CAP \<le> ch_head ch then None
      else Some (ch_slots ch ! ch_head ch,
                 ch\<lparr>ch_slots := (ch_slots ch)[ch_head ch := None],
                    ch_head := (ch_head ch + 1) mod CAP, ch_count := ch_count ch - 1\<rparr>))"

definition cap_chain_hash :: "bytes panics" where
  "cap_chain_hash = sha256 (ascii ''AXIOM-EIPC-DEMO-CAP-CHAIN-v4'')"

definition make_nonce :: "u32 \<Rightarrow> bytes" where
  "make_nonce seq = copy_at 4 (to_le_bytes 8 (ucast seq :: u64)) (replicate 12 0)"

text \<open>Sender and receiver: one turn of the two loops of \<open>run_demo\<close>, on the buffers of 64 bytes
  they use, and the receiving loop itself.\<close>

abbreviation eipc_aad :: bytes where
  "eipc_aad \<equiv> ascii ''AXIOM-EIPC-v1''"

definition eipc_send :: "bytes \<Rightarrow> u32 \<Rightarrow> bytes \<Rightarrow> EipcChannel \<Rightarrow> (bool \<times> EipcChannel) panics" where
  "eipc_send session_key seq pt ch =
     (let nonce = make_nonce seq; ct_buf = replicate 64 0 in
      if 64 < length pt then None
      else do {
        (tag, c) \<leftarrow> chacha20_poly1305_seal session_key nonce eipc_aad pt (take (length pt) ct_buf);
        EipcChannel_enqueue ch \<lparr>sender_id = 1, msg_seq = seq, msg_nonce = nonce,
          msg_ct = copy_at 0 c ct_buf, ct_len = length pt, msg_tag = tag\<rparr> })"

definition eipc_recv :: "bytes \<Rightarrow> EipcMessage \<Rightarrow> (u32 \<times> bytes option) panics" where
  "eipc_recv session_key m =
     (let pt_buf = replicate 64 0 in
      if 64 < ct_len m then None
      else do {
        (ok, p) \<leftarrow> chacha20_poly1305_open session_key (msg_nonce m) eipc_aad
          (take (ct_len m) (msg_ct m)) (msg_tag m) (take (ct_len m) pt_buf);
        Some (msg_seq m, if \<not> ok then None else Some (take (ct_len m) (copy_at 0 p pt_buf))) })"

lemma dequeue_decreases:
  "EipcChannel_dequeue ch = Some (Some m, ch') \<Longrightarrow> ch_count ch' < ch_count ch"
  by (auto simp: EipcChannel_dequeue_def split: if_splits)

function eipc_receive_all :: "bytes \<Rightarrow> EipcChannel \<Rightarrow> ((u32 \<times> bytes option) list \<times> EipcChannel) panics" where
  "eipc_receive_all session_key ch =
     (case EipcChannel_dequeue ch of
        None \<Rightarrow> None
      | Some (None, ch') \<Rightarrow> Some ([], ch')
      | Some (Some m, ch') \<Rightarrow> do {
          r \<leftarrow> eipc_recv session_key m;
          (rs, ch'') \<leftarrow> eipc_receive_all session_key ch';
          Some (r # rs, ch'') })"
  by pat_completeness auto
termination
  by (relation "measure (\<lambda>(k, ch). ch_count ch)") (auto simp: dequeue_decreases)

declare eipc_receive_all.simps [simp del]

section \<open>The ring is a bounded queue\<close>

definition ch_list :: "EipcChannel \<Rightarrow> EipcMessage list" where
  "ch_list ch = cat_options (rotate (ch_head ch) (ch_slots ch))"

definition ch_inv :: "EipcChannel \<Rightarrow> bool" where
  "ch_inv ch \<longleftrightarrow> length (ch_slots ch) = CAP \<and> ch_head ch < CAP \<and> ch_tail ch = (ch_head ch + ch_count ch) mod CAP \<and>
     ch_count ch = length (ch_list ch) \<and> ch_count ch \<le> CAP \<and>
     rotate (ch_head ch) (ch_slots ch) = map Some (ch_list ch) @ replicate (CAP - ch_count ch) None"

lemma enqueue_ring:
  assumes "ch_inv ch" "length (ch_list ch) < CAP"
  shows "\<exists>ch'. EipcChannel_enqueue ch m = Some (True, ch') \<and> ch_inv ch' \<and> ch_list ch' = ch_list ch @ [m]"
proof -
  let ?n = "ch_count ch"
  let ?ch = "ch\<lparr>ch_slots := (ch_slots ch)[ch_tail ch := Some m], ch_tail := (ch_tail ch + 1) mod CAP, ch_count := ?n + 1\<rparr>"
  have n: "?n < CAP" "?n = length (ch_list ch)" and t: "ch_tail ch = (ch_head ch + ?n) mod CAP" "ch_tail ch < CAP"
    using assms by (auto simp: ch_inv_def CAP_def)
  have "rotate (ch_head ch) (ch_slots ?ch) = (map Some (ch_list ch) @ replicate (CAP - ?n) None)[?n := Some m]"
    using assms rotate_update[of "ch_slots ch" CAP ?n "ch_head ch" "Some m"] n t by (simp add: ch_inv_def)
  also have "\<dots> = map Some (ch_list ch @ [m]) @ replicate (CAP - (?n + 1)) None"
    using n by (cases "CAP - ?n") (auto simp: list_update_append)
  finally have r: "rotate (ch_head ch) (ch_slots ?ch) = map Some (ch_list ch @ [m]) @ replicate (CAP - (?n + 1)) None" .
  then have l: "ch_list ?ch = ch_list ch @ [m]" unfolding ch_list_def by simp
  have "(ch_tail ch + 1) mod CAP = (ch_head ch + (?n + 1)) mod CAP"
    unfolding t(1) by (simp add: mod_simps)
  then have "ch_inv ?ch" using assms r l n by (simp add: ch_inv_def)
  moreover have "EipcChannel_enqueue ch m = Some (True, ?ch)"
    using n(1) t(2) unfolding EipcChannel_enqueue_def by (simp only: not_le[symmetric] if_False)
  ultimately show ?thesis using l by blast
qed

lemma dequeue_ring:
  assumes "ch_inv ch" "ch_list ch = m # ms"
  shows "\<exists>ch'. EipcChannel_dequeue ch = Some (Some m, ch') \<and> ch_inv ch' \<and> ch_list ch' = ms"
proof -
  let ?n = "ch_count ch"
  let ?ch = "ch\<lparr>ch_slots := (ch_slots ch)[ch_head ch := None], ch_head := (ch_head ch + 1) mod CAP, ch_count := ?n - 1\<rparr>"
  have h: "ch_head ch < CAP" "length (ch_slots ch) = CAP" "?n = Suc (length ms)" "?n \<le> CAP"
    and r: "rotate (ch_head ch) (ch_slots ch) = map Some (m # ms) @ replicate (CAP - ?n) None"
    using assms by (auto simp: ch_inv_def)
  have "ch_slots ch ! ch_head ch = rotate (ch_head ch) (ch_slots ch) ! 0"
    using h by (subst nth_rotate) auto
  then have m: "ch_slots ch ! ch_head ch = Some m" using r by simp
  have "rotate (ch_head ?ch) (ch_slots ?ch) = map Some ms @ replicate (CAP - ?n) None @ [None]"
    using rotate_push[OF h(2,1), of None] r by simp
  also have "\<dots> = map Some ms @ replicate (CAP - (?n - 1)) None"
  proof -
    have "CAP - (?n - 1) = Suc (CAP - ?n)" using h(3,4) by auto
    then show ?thesis by (simp add: replicate_append_same)
  qed
  finally have r': "rotate (ch_head ?ch) (ch_slots ?ch) = map Some ms @ replicate (CAP - (?n - 1)) None" .
  then have l: "ch_list ?ch = ms" unfolding ch_list_def by simp
  have "ch_tail ch = (ch_head ch + ?n) mod CAP" using assms(1) by (simp add: ch_inv_def)
  also have "\<dots> = ((ch_head ch + 1) mod CAP + (?n - 1)) mod CAP"
    unfolding h(3) by (simp add: mod_simps)
  finally have "ch_inv ?ch" using r' l h by (simp add: ch_inv_def CAP_def)
  moreover have "EipcChannel_dequeue ch = Some (Some m, ?ch)"
    using h(1,3) unfolding EipcChannel_dequeue_def m by simp
  ultimately show ?thesis using l by blast
qed

lemma enqueue_ok: "ch_inv ch \<Longrightarrow> \<exists>ok ch'. EipcChannel_enqueue ch msg = Some (ok, ch') \<and> ch_inv ch'"
  using enqueue_ring[of ch msg] by (cases "length (ch_list ch) < CAP") (auto simp: EipcChannel_enqueue_def ch_inv_def)

lemma dequeue_ok: "ch_inv ch \<Longrightarrow> \<exists>r ch'. EipcChannel_dequeue ch = Some (r, ch') \<and> ch_inv ch'"
  using dequeue_ring[of ch] by (cases "ch_list ch") (auto simp: EipcChannel_dequeue_def ch_inv_def)

lemma replicate_4: "replicate 4 x = [x, x, x, x]"
  by (rule nth_equalityI) (auto simp: less_Suc_eq numeral_eq_Suc)

interpretation eipc_queue: bounded_queue EipcChannel_new EipcChannel_enqueue EipcChannel_dequeue ch_list ch_inv CAP
proof unfold_locales
  show "ch_inv EipcChannel_new \<and> ch_list EipcChannel_new = []"
    by (simp add: ch_inv_def ch_list_def EipcChannel_new_def CAP_def replicate_4)
  fix ch m ms
  assume i: "ch_inv ch"
  show "length (ch_list ch) \<le> CAP" using i by (simp add: ch_inv_def)
  show "length (ch_list ch) < CAP \<Longrightarrow>
      \<exists>q'. EipcChannel_enqueue ch m = Some (True, q') \<and> ch_inv q' \<and> ch_list q' = ch_list ch @ [m]"
    using enqueue_ring[OF i] .
  show "length (ch_list ch) = CAP \<Longrightarrow> EipcChannel_enqueue ch m = Some (False, ch)"
    using i by (simp add: ch_inv_def EipcChannel_enqueue_def)
  show "ch_list ch = [] \<Longrightarrow> EipcChannel_dequeue ch = Some (None, ch)"
    using i by (simp add: ch_inv_def EipcChannel_dequeue_def)
  show "ch_list ch = m # ms \<Longrightarrow> \<exists>q'. EipcChannel_dequeue ch = Some (Some m, q') \<and> ch_inv q' \<and> ch_list q' = ms"
    using dequeue_ring[OF i] .
qed

section \<open>Sealed messages on the ring are a channel\<close>

lemma make_nonce_eq: "make_nonce seq = replicate 4 0 @ to_le_bytes 8 (ucast seq :: u64)"
  by (simp add: make_nonce_def copy_at_fill)

lemma make_nonce_inject: "make_nonce s = make_nonce s' \<longleftrightarrow> s = s'"
proof -
  have "unat (ucast x :: u64) = unat x" for x :: u32
    using unsigned_less[of x, where ?'a = nat] by (simp add: unsigned_ucast_eq take_bit_eq_mod)
  then have "(ucast s :: u64) = ucast s' \<longleftrightarrow> s = s'"
    by (simp add: word_unat_eq_iff)
  then show ?thesis by (simp add: make_nonce_eq to_le_bytes_inject)
qed

definition sealed_message :: "bytes \<Rightarrow> u32 \<Rightarrow> bytes \<Rightarrow> EipcMessage" where
  "sealed_message key seq pt =
     (let ct = stream_xor key (make_nonce seq) pt
      in \<lparr>sender_id = 1, msg_seq = seq, msg_nonce = make_nonce seq, msg_ct = ct @ replicate (64 - length pt) 0,
          ct_len = length pt, msg_tag = seal_tag key (make_nonce seq) eipc_aad ct\<rparr>)"

lemma small_message:
  "length pt \<le> 64 \<Longrightarrow> blocks_for pt < 2 ^ 32 - 1" "length pt \<le> 64 \<Longrightarrow> length pt < 2 ^ 64"
  by (auto simp: blocks_for_def)

lemma aad_len: "length eipc_aad < 2 ^ 64"
  by simp

lemma eipc_send_eq:
  assumes "length pt \<le> 64"
  shows "eipc_send key seq pt ch = EipcChannel_enqueue ch (sealed_message key seq pt)"
  using assms seal_eq[OF _ small_message(1)[OF assms] aad_len, of "replicate (length pt) 0" key "make_nonce seq"]
  by (simp add: eipc_send_def sealed_message_def Let_def copy_at_def)

lemma eipc_recv_eq:
  assumes "ct_len m \<le> 64" "length (msg_ct m) = 64" "length (msg_tag m) = 16"
  shows "eipc_recv key m =
    Some (msg_seq m,
      if msg_tag m = seal_tag key (msg_nonce m) eipc_aad (take (ct_len m) (msg_ct m))
      then Some (stream_xor key (msg_nonce m) (take (ct_len m) (msg_ct m))) else None)"
proof -
  have l: "length (take (ct_len m) (msg_ct m)) \<le> 64" using assms by simp
  show ?thesis
    using assms open_eq[OF _ small_message(1)[OF l] aad_len, of "replicate (ct_len m) 0" "msg_tag m" key "msg_nonce m"]
    by (auto simp: eipc_recv_def Let_def copy_at_def)
qed

lemma eipc_recv_sealed: "length pt \<le> 64 \<Longrightarrow> eipc_recv key (sealed_message key seq pt) = Some (seq, Some pt)"
  by (subst eipc_recv_eq) (simp_all add: sealed_message_def Let_def seal_tag_def)

interpretation eipc_channel: channel EipcChannel_new EipcChannel_enqueue EipcChannel_dequeue ch_list ch_inv CAP
  "\<lambda>(key, seq) pt. eipc_send key seq pt" "\<lambda>m. map_option (\<lambda>(seq, r). ((key, seq), r)) (eipc_recv key m)"
  "\<lambda>(key', seq) pt. key' = key \<and> length pt \<le> 64" for key
  by unfold_locales (auto simp: eipc_send_eq eipc_recv_sealed intro!: exI[of _ "sealed_message _ _ _"])

lemma eipc_receive_all_eq:
  "ch_inv ch \<Longrightarrow> (\<And>m. m \<in> set (ch_list ch) \<Longrightarrow> eipc_recv key m \<noteq> None) \<Longrightarrow>
   \<exists>ch'. eipc_receive_all key ch = Some (map (the \<circ> eipc_recv key) (ch_list ch), ch') \<and> ch_inv ch' \<and> ch_list ch' = []"
proof (induction "ch_list ch" arbitrary: ch)
  case Nil
  then show ?case using eipc_queue.deq_empty[of ch] by (subst eipc_receive_all.simps) simp
next
  case (Cons m ms)
  then obtain ch' where ch': "EipcChannel_dequeue ch = Some (Some m, ch')" "ch_inv ch'" "ch_list ch' = ms"
    using eipc_queue.deq_first[of ch m ms] by auto
  obtain r where "eipc_recv key m = Some r" using Cons.prems(2)[of m] Cons.hyps(2)[symmetric] by auto
  moreover obtain ch'' where "eipc_receive_all key ch' = Some (map (the \<circ> eipc_recv key) ms, ch'')"
    "ch_inv ch''" "ch_list ch'' = []"
    using Cons.hyps(1)[OF ch'(3)[symmetric] ch'(2)] Cons.prems(2) Cons.hyps(2)[symmetric] ch'(3) by auto
  ultimately show ?case
    using ch' by (subst eipc_receive_all.simps) (simp add: Cons.hyps(2)[symmetric])
qed

section \<open>Properties\<close>


text \<open>C16: End to end. Up to four messages of at most 64 bytes, sent with any sequence numbers through an empty
  channel and received with the same session key, all arrive, decrypted, in order, and the
  receiving loop ends with the channel empty.\<close>

theorem eipc_end_to_end:
  assumes "length msgs \<le> 4" and "\<forall>(seq, pt) \<in> set msgs. length pt \<le> 64"
  shows "\<exists>ch ch'. send_all (\<lambda>(key, seq). eipc_send key seq) EipcChannel_new (map (\<lambda>(seq, pt). ((key, seq), pt)) msgs) =
      Some (replicate (length msgs) True, ch) \<and>
    eipc_receive_all key ch = Some (map (\<lambda>(seq, pt). (seq, Some pt)) msgs, ch') \<and> ch_list ch' = []"
proof -
  let ?hxs = "map (\<lambda>(seq, pt). ((key, seq), pt)) msgs"
  have "\<forall>(h, pt) \<in> set ?hxs. case h of (key', seq) \<Rightarrow> key' = key \<and> length pt \<le> 64"
    using assms(2) by auto
  then obtain ch ms where ch: "send_all (\<lambda>(key, seq). eipc_send key seq) EipcChannel_new ?hxs =
        Some (replicate (length msgs) True, ch)" "ch_inv ch" "ch_list ch = ms"
    and ms: "map (\<lambda>m. map_option (\<lambda>(seq, r). ((key, seq), r)) (eipc_recv key m)) ms =
        map (\<lambda>(h, x). Some (h, Some x)) ?hxs"
    using eipc_channel.send_all_delivers[of EipcChannel_new ?hxs key] eipc_queue.empty_law assms(1)
    by (auto simp: CAP_def split_def)
  have "map (eipc_recv key) ms = map (\<lambda>(seq, pt). Some (seq, Some pt)) msgs"
    using ms by (auto simp: list_eq_iff_nth_eq split_def)
  then have "map (the \<circ> eipc_recv key) ms = map (\<lambda>(seq, pt). (seq, Some pt)) msgs"
    and "\<And>m. m \<in> set ms \<Longrightarrow> eipc_recv key m \<noteq> None"
    by (auto simp: list_eq_iff_nth_eq split_def in_set_conv_nth)
  with eipc_receive_all_eq[OF ch(2), of key] ch show ?thesis by auto
qed

theorem eipc_end_to_end_witness:
  "\<exists>ch ch'. send_all (\<lambda>(key, seq). eipc_send key seq) EipcChannel_new
       [((replicate 32 7, 1), [10, 11]), ((replicate 32 7, 2), [])] = Some ([True, True], ch) \<and>
     eipc_receive_all (replicate 32 7) ch = Some ([(1, Some [10, 11]), (2, Some [])], ch')"
  using eipc_end_to_end[of "[(1, [10, 11]), (2, [])]" "replicate 32 7"] by (auto simp: numeral_2_eq_2)



end
