(* ===== verification/Byte_Memory.thy ===== *)
theory Byte_Memory
  imports Axiom_Prelude
begin

text \<open>
  Byte-addressed memory with 64-bit addresses that wrap, shared by the components that work on
  raw memory: stores and loads of byte strings and of quadwords, and when two ranges are apart.
\<close>

type_synonym mem = "u64 \<Rightarrow> u8"

definition store_bytes :: "mem \<Rightarrow> u64 \<Rightarrow> bytes \<Rightarrow> mem" where
  "store_bytes m a bs = (\<lambda>x. if unat (x - a) < length bs then bs ! unat (x - a) else m x)"

definition load_bytes :: "mem \<Rightarrow> u64 \<Rightarrow> nat \<Rightarrow> bytes" where
  "load_bytes m a n = map (\<lambda>i. m (a + word_of_nat i)) [0..<n]"

definition store64 :: "mem \<Rightarrow> u64 \<Rightarrow> u64 \<Rightarrow> mem" where
  "store64 m a v = store_bytes m a (to_le_bytes 8 v)"

definition load64 :: "mem \<Rightarrow> u64 \<Rightarrow> u64" where
  "load64 m a = from_le_bytes (load_bytes m a 8)"

text \<open>The \<open>n\<close> bytes at \<open>a\<close> and the \<open>k\<close> bytes at \<open>b\<close> do not overlap.\<close>

definition apart :: "u64 \<Rightarrow> nat \<Rightarrow> u64 \<Rightarrow> nat \<Rightarrow> bool" where
  "apart a n b k \<longleftrightarrow> n \<le> unat (b - a) \<and> unat (b - a) + k \<le> 2 ^ 64"

definition in_range :: "u64 \<Rightarrow> nat \<Rightarrow> u64 \<Rightarrow> bool" where
  "in_range a n x \<longleftrightarrow> unat (x - a) < n"

lemma unat_word_of_nat64: "i < 2 ^ 64 \<Longrightarrow> unat (word_of_nat i :: u64) = i"
  by (simp add: unat_of_nat)

lemma length_load_bytes [simp]: "length (load_bytes m a n) = n"
  by (simp add: load_bytes_def)

lemma nth_load_bytes [simp]: "i < n \<Longrightarrow> load_bytes m a n ! i = m (a + word_of_nat i)"
  by (simp add: load_bytes_def)

lemma store_bytes_in: "i < length bs \<Longrightarrow> length bs \<le> 2 ^ 64 \<Longrightarrow> store_bytes m a bs (a + word_of_nat i) = bs ! i"
  by (simp add: store_bytes_def unat_of_nat)

lemma store_bytes_out: "\<not> in_range a (length bs) x \<Longrightarrow> store_bytes m a bs x = m x"
  by (simp add: store_bytes_def in_range_def)

lemma load_store_same: "length bs \<le> 2 ^ 64 \<Longrightarrow> n = length bs \<Longrightarrow> load_bytes (store_bytes m a bs) a n = bs"
  by (rule nth_equalityI) (simp_all add: store_bytes_in)

lemma apart_out:
  assumes "apart a n b k" "i < k"
  shows "\<not> in_range a n (b + word_of_nat i)"
proof -
  have "i < 2 ^ 64" "unat (b - a) + i < 2 ^ 64" using assms by (auto simp: apart_def)
  then have "unat ((b - a) + word_of_nat i) = unat (b - a) + i"
    by (simp add: unat_word_ariths(1) unat_of_nat)
  then show ?thesis using assms(1) by (simp add: in_range_def apart_def algebra_simps)
qed

lemma apart_sub:
  assumes "apart a n b k" "i + j \<le> k" "0 < j"
  shows "apart a n (b + word_of_nat i) j"
proof -
  have "i < 2 ^ 64" "unat (b - a) + i < 2 ^ 64" using assms by (auto simp: apart_def)
  then have "unat ((b - a) + word_of_nat i) = unat (b - a) + i"
    by (simp add: unat_word_ariths(1) unat_of_nat)
  then show ?thesis using assms by (simp add: apart_def algebra_simps)
qed

lemma apart_sub_left:
  assumes "apart a n b k" "i + j \<le> n" "0 < k"
  shows "apart (a + word_of_nat i) j b k"
proof -
  have "i < 2 ^ 64" "i \<le> unat (b - a)" using assms by (auto simp: apart_def)
  then have "unat ((b - a) - word_of_nat i) = unat (b - a) - i"
    by (simp add: unat_sub word_le_nat_alt unat_of_nat)
  then have "unat (b - (a + word_of_nat i)) = unat (b - a) - i" by (simp add: diff_diff_eq)
  then show ?thesis using assms unfolding apart_def by linarith
qed

lemma apart_offsets:
  "apart (F + a) n (F + b) k \<longleftrightarrow> apart a n b k" "apart (F + a) n F k \<longleftrightarrow> apart a n 0 k"
  "apart F n (F + b) k \<longleftrightarrow> apart 0 n b k"
  by (simp_all add: apart_def algebra_simps)

lemma in_range_sub:
  assumes "in_range (a + word_of_nat i) n x" "i + n \<le> k" "k < 2 ^ 64"
  shows "in_range a k x"
proof -
  define y where "y = x - (a + word_of_nat i)"
  have "unat (y + word_of_nat i) = unat y + i"
    using assms by (simp add: unat_word_ariths(1) unat_of_nat in_range_def y_def[symmetric])
  moreover have "y + word_of_nat i = x - a" by (simp add: y_def)
  ultimately show ?thesis using assms by (simp add: in_range_def y_def)
qed

lemma load_store_apart: "apart a (length bs) b k \<Longrightarrow> load_bytes (store_bytes m a bs) b k = load_bytes m b k"
  by (rule nth_equalityI) (simp_all add: store_bytes_out apart_out)

lemma load64_cong: "load_bytes m a 8 = load_bytes m' a 8 \<Longrightarrow> load64 m a = load64 m' a"
  by (simp add: load64_def)

lemma load64_store64 [simp]: "load64 (store64 m a v) a = v"
  by (simp add: load64_def store64_def load_store_same from_le_to_le)

lemma load64_store64_apart: "apart a 8 b 8 \<Longrightarrow> load64 (store64 m a v) b = load64 m b"
  by (simp add: load64_def store64_def load_store_apart)

lemma store64_out: "\<not> in_range a 8 x \<Longrightarrow> store64 m a v x = m x"
  by (simp add: store64_def store_bytes_out)

lemma load_bytes_split: "load_bytes m a (n + k) = load_bytes m a n @ load_bytes m (a + word_of_nat n) k"
  by (rule nth_equalityI) (auto simp: nth_append add.assoc simp flip: of_nat_add)

lemma load64_nth:
  assumes "\<And>x. in_range a n x \<Longrightarrow> m x = m' x" "k + 8 \<le> n" "n < 2 ^ 64"
  shows "load64 m (a + word_of_nat k) = load64 m' (a + word_of_nat k)"
proof (rule load64_cong, rule nth_equalityI)
  fix i assume "i < length (load_bytes m (a + word_of_nat k) 8)"
  then have "in_range a n (a + word_of_nat k + word_of_nat i)"
    using assms(2,3) by (simp add: in_range_def add.assoc unat_of_nat flip: of_nat_add)
  with \<open>i < _\<close> assms(1) show "load_bytes m (a + word_of_nat k) 8 ! i = load_bytes m' (a + word_of_nat k) 8 ! i"
    by simp
qed simp

lemma load_bytes_slice: "i + k \<le> n \<Longrightarrow> load_bytes m (a + word_of_nat i) k = slice i (i + k) (load_bytes m a n)"
  by (rule nth_equalityI) (auto simp: slice_def add.assoc)

lemma load_quads:
  "load_bytes m a (8 * length vs) = concat (map (to_le_bytes 8) vs) \<Longrightarrow>
   map (\<lambda>i. load64 m (a + word_of_nat (8 * i))) [0..<length vs] = vs"
proof (induction vs arbitrary: a)
  case (Cons v vs)
  then have "load_bytes m a 8 @ load_bytes m (a + word_of_nat 8) (8 * length vs) = to_le_bytes 8 v @ concat (map (to_le_bytes 8) vs)"
    using load_bytes_split[of m a 8 "8 * length vs"] by simp
  then have "load_bytes m a 8 = to_le_bytes 8 v" "load_bytes m (a + 8) (8 * length vs) = concat (map (to_le_bytes 8) vs)"
    by (simp_all add: append_eq_append_conv)
  with Cons.IH[of "a + 8"] show ?case
    by (simp add: upt_conv_Cons map_Suc_upt[symmetric] load64_def from_le_to_le add.assoc comp_def
        distrib_left del: upt_Suc map_Suc_upt)
qed simp

lemma store_bytes_at:
  assumes "d + length bs \<le> 2 ^ 63" "i < 2 ^ 63"
  shows "store_bytes m (a + word_of_nat d) bs (a + word_of_nat i) =
    (if d \<le> i \<and> i < d + length bs then bs ! (i - d) else m (a + word_of_nat i))"
proof (cases "d \<le> i")
  case True
  then have eq: "(word_of_nat i :: u64) - word_of_nat d = word_of_nat (i - d)" by (simp add: of_nat_diff)
  have "unat ((word_of_nat i :: u64) - word_of_nat d) = i - d"
    unfolding eq using assms(2) by (intro unat_word_of_nat64) simp
  then show ?thesis using True by (auto simp: store_bytes_def)
next
  case False
  have "unat ((word_of_nat i :: u64) - word_of_nat d) = 2 ^ 64 + i - d"
    using False assms by (simp add: unat_sub_if' unat_of_nat)
  then show ?thesis using False assms by (auto simp: store_bytes_def)
qed

end
