(* ===== verification/Vmz.thy ===== *)
theory Vmz
  imports Byte_Memory
begin

text \<open>
  Verified memory zeroing (\<open>kernel/src/vmz.rs\<close>) on byte memory: the \<open>rep stosb\<close> loop
  and the verification loop. What is read after zeroing does not depend on what was there.
\<close>

text \<open>The string instruction with the direction flag clear: \<open>rcx\<close> times store \<open>al\<close> at
  \<open>rdi\<close> and advance. The fence that follows orders the stores and changes no byte.\<close>

fun rep_stosb :: "u64 \<Rightarrow> nat \<Rightarrow> u8 \<Rightarrow> mem \<Rightarrow> mem" where
  "rep_stosb rdi 0 al m = m"
| "rep_stosb rdi (Suc rcx) al m = rep_stosb (rdi + 1) rcx al (m(rdi := al))"

definition zero_region :: "mem \<Rightarrow> u64 \<Rightarrow> nat \<Rightarrow> mem" where
  "zero_region m ptr len = rep_stosb ptr len 0 m"

fun verify_loop :: "nat \<Rightarrow> bytes \<Rightarrow> bool \<times> nat \<times> u8" where
  "verify_loop i [] = (True, 0, 0)"
| "verify_loop i (b # bs) = (if b \<noteq> 0 then (False, i, b) else verify_loop (i + 1) bs)"

definition verify_zeroed :: "mem \<Rightarrow> u64 \<Rightarrow> nat \<Rightarrow> bool \<times> nat \<times> u8" where
  "verify_zeroed m ptr len = verify_loop 0 (load_bytes m ptr len)"

lemma rep_stosb_eq: "rcx \<le> 2 ^ 64 \<Longrightarrow> rep_stosb rdi rcx al m = store_bytes m rdi (replicate rcx al)"
proof (induction rcx arbitrary: rdi m)
  case (Suc n)
  have step: "unat (x - rdi) = (if x = rdi then 0 else Suc (unat (x - (rdi + 1))))" for x
  proof (cases "x = rdi")
    case False
    then have nz: "x - rdi \<noteq> 0" by simp
    have "unat (x - rdi - 1) = unat (x - rdi) - 1" by (rule unat_minus_one[OF nz])
    moreover have "0 < unat (x - rdi)" using nz by (simp add: unat_gt_0 del: right_minus_eq)
    ultimately show ?thesis using False by (simp add: algebra_simps)
  qed simp
  show ?case
    using Suc by (auto simp: store_bytes_def step fun_eq_iff)
qed (simp add: store_bytes_def)

lemma zero_region_eq: "len < 2 ^ 64 \<Longrightarrow> zero_region m ptr len = (\<lambda>x. if in_range ptr len x then 0 else m x)"
  by (simp add: zero_region_def rep_stosb_eq store_bytes_def in_range_def fun_eq_iff)

lemma verify_loop_clean: "verify_loop i bs = (True, 0, 0) \<longleftrightarrow> (\<forall>b\<in>set bs. b = 0)"
  by (induction bs arbitrary: i) auto

lemma verify_loop_bad:
  "verify_loop i bs = (False, k, b) \<longleftrightarrow> (\<exists>j<length bs. k = i + j \<and> bs ! j = b \<and> b \<noteq> 0 \<and> (\<forall>l<j. bs ! l = 0))"
proof (induction bs arbitrary: i)
  case (Cons c bs)
  show ?case
  proof (cases "c = 0")
    case True
    have "(\<exists>j<length (c # bs). k = i + j \<and> (c # bs) ! j = b \<and> b \<noteq> 0 \<and> (\<forall>l<j. (c # bs) ! l = 0)) \<longleftrightarrow>
      (\<exists>j<length bs. k = Suc i + j \<and> bs ! j = b \<and> b \<noteq> 0 \<and> (\<forall>l<j. bs ! l = 0))"
      using True by (auto simp: Ex_less_Suc2 All_less_Suc2)
    then show ?thesis using Cons True by simp
  next
    case False
    then show ?thesis by (auto simp: Ex_less_Suc2 All_less_Suc2)
  qed
qed simp

lemma replicate_0_iff: "load_bytes m ptr n = replicate n 0 \<longleftrightarrow> (\<forall>j<n. m (ptr + word_of_nat j) = 0)"
  by (simp add: list_eq_iff_nth_eq)

text \<open>C30: Zeroing destroys what was in the region: two memories that differ only inside it, whatever
  secrets they hold there, are the same memory afterwards, so no later access anywhere can tell
  them apart; the bytes outside keep their values, and the verification pass reports the
  region clean.\<close>

theorem zeroing_erases_secrets:
  assumes "len < 2 ^ 64" "\<And>x. \<not> in_range ptr len x \<Longrightarrow> m x = m' x"
  shows "zero_region m ptr len = zero_region m' ptr len \<and>
    (\<forall>x. zero_region m ptr len x = (if in_range ptr len x then 0 else m x)) \<and>
    verify_zeroed (zero_region m ptr len) ptr len = (True, 0, 0)"
proof -
  have "load_bytes (zero_region m ptr len) ptr len = replicate len 0"
    using assms(1) by (simp add: replicate_0_iff zero_region_eq in_range_def unat_of_nat)
  then have "verify_zeroed (zero_region m ptr len) ptr len = (True, 0, 0)"
    by (simp add: verify_zeroed_def verify_loop_clean)
  then show ?thesis using assms by (auto simp: zero_region_eq fun_eq_iff)
qed

theorem zeroing_erases_secrets_witness:
  "zero_region (\<lambda>x. if x = 0x1001 then 42 else 7) 0x1000 4 = zero_region (\<lambda>_. 7) 0x1000 4"
proof -
  have "(\<lambda>x :: u64. if x = 0x1001 then 42 else 7 :: u8) x = (\<lambda>_. 7) x" if "\<not> in_range 0x1000 4 x" for x
    using that by (auto simp: in_range_def)
  from zeroing_erases_secrets[OF _ this] show ?thesis by simp
qed

text \<open>The verification pass is exact: it answers clean if and only if every byte of the region is zero, and
  otherwise returns the offset and the value of the first byte that is not.\<close>

theorem verify_zeroed_exact:
  "(verify_zeroed m ptr len = (True, 0, 0) \<longleftrightarrow> load_bytes m ptr len = replicate len 0) \<and>
   (verify_zeroed m ptr len = (False, i, b) \<longleftrightarrow>
      i < len \<and> m (ptr + word_of_nat i) = b \<and> b \<noteq> 0 \<and> load_bytes m ptr i = replicate i 0)"
  by (auto simp: verify_zeroed_def verify_loop_clean verify_loop_bad replicate_0_iff all_set_conv_all_nth)

end
