(* ===== verification/Security_Lattice.thy ===== *)
theory Security_Lattice
  imports Axiom_Prelude
begin

text \<open>
  The dynamic security lattice (\<open>kernel/src/lattice.rs\<close>): the dominance matrix, the
  Bell-LaPadula checks, join, meet and the axiom check, with the panics of the array
  accesses. On an accepted lattice information only flows upwards; meet is the greatest
  lower bound whenever there is one, join the least upper bound under an index order; and
  the axiom check is shown to accept exactly the bounded partial orders.
\<close>

section \<open>The code\<close>

datatype Label = Label (label_index: u8)

record LatticeNode =
  node_label :: bytes
  level :: u8

definition LatticeNode_name_str :: "LatticeNode \<Rightarrow> bytes" where
  "LatticeNode_name_str n = name16_str (node_label n)"

definition make_name :: "bytes \<Rightarrow> bytes" where
  "make_name s = name16 s"

record SecurityLattice =
  lat_nodes :: "LatticeNode option list"
  lat_dom :: "bool list list"
  lat_count :: nat
  lat_bottom :: u8
  lat_top :: u8

definition SecurityLattice_default_blp :: SecurityLattice where
  "SecurityLattice_default_blp =
     (let names = map ascii [''Unclassified'', ''Confidential'', ''Secret'', ''TopSecret'']
      in \<lparr>lat_nodes =
            map (\<lambda>i. if i < 4
              then Some \<lparr>node_label = make_name (names ! i), level = word_of_nat i\<rparr> else None) [0..<8],
          lat_dom = map (\<lambda>i. map (\<lambda>j. i < 4 \<and> j < 4 \<and> j \<le> i) [0..<8]) [0..<8],
          lat_count = 4, lat_bottom = 0, lat_top = 3\<rparr>)"

text \<open>The access \<open>self.dom[i][j]\<close> to the 8 by 8 matrix.\<close>

definition dom_at :: "SecurityLattice \<Rightarrow> nat \<Rightarrow> nat \<Rightarrow> bool panics" where
  "dom_at lat i j = (if i < 8 \<and> j < 8 then Some (lat_dom lat ! i ! j) else None)"

definition SecurityLattice_dominates :: "SecurityLattice \<Rightarrow> Label \<Rightarrow> Label \<Rightarrow> bool panics" where
  "SecurityLattice_dominates lat a b =
     (let ai = unat (label_index a); bi = unat (label_index b)
      in if lat_count lat \<le> ai \<or> lat_count lat \<le> bi then Some False else dom_at lat ai bi)"

definition SecurityLattice_may_read :: "SecurityLattice \<Rightarrow> Label \<Rightarrow> Label \<Rightarrow> bool panics" where
  "SecurityLattice_may_read lat subject obj = SecurityLattice_dominates lat subject obj"

definition SecurityLattice_may_write :: "SecurityLattice \<Rightarrow> Label \<Rightarrow> Label \<Rightarrow> bool panics" where
  "SecurityLattice_may_write lat subject obj = SecurityLattice_dominates lat obj subject"

fun join_loop :: "SecurityLattice \<Rightarrow> Label \<Rightarrow> Label \<Rightarrow> nat list \<Rightarrow> Label option panics" where
  "join_loop lat a b [] = Some None"
| "join_loop lat a b (i # is) =
     (let l = Label (word_of_nat i) in do {
        hit \<leftarrow> and_chk (SecurityLattice_dominates lat l a) (SecurityLattice_dominates lat l b);
        if hit then Some (Some l) else join_loop lat a b is })"

definition SecurityLattice_join :: "SecurityLattice \<Rightarrow> Label \<Rightarrow> Label \<Rightarrow> Label option panics" where
  "SecurityLattice_join lat a b = join_loop lat a b [0..<lat_count lat]"

fun meet_loop :: "SecurityLattice \<Rightarrow> Label \<Rightarrow> Label \<Rightarrow> Label option \<Rightarrow> nat list \<Rightarrow> Label option panics" where
  "meet_loop lat a b best [] = Some best"
| "meet_loop lat a b best (i # is) =
     (let l = Label (word_of_nat i) in do {
        hit \<leftarrow> and_chk (SecurityLattice_dominates lat a l) (SecurityLattice_dominates lat b l);
        if hit
        then (case best of
                None \<Rightarrow> meet_loop lat a b (Some l) is
              | Some prev \<Rightarrow> do {
                  up \<leftarrow> SecurityLattice_dominates lat l prev;
                  meet_loop lat a b (Some (if up then l else prev)) is })
        else meet_loop lat a b best is })"

definition SecurityLattice_meet :: "SecurityLattice \<Rightarrow> Label \<Rightarrow> Label \<Rightarrow> Label option panics" where
  "SecurityLattice_meet lat a b = meet_loop lat a b None [0..<lat_count lat]"

definition SecurityLattice_verify :: "SecurityLattice \<Rightarrow> (bool \<times> string) panics" where
  "SecurityLattice_verify lat =
     (let n = [0..<lat_count lat]; bot = unat (lat_bottom lat); top = unat (lat_top lat) in do {
        bad \<leftarrow> any_chk (\<lambda>i. map_option Not (dom_at lat i i)) n;
        if bad then Some (False, ''reflexivity violated'') else do {
        bad \<leftarrow> any_chk (\<lambda>i. any_chk (\<lambda>j.
          and_chk (Some (i \<noteq> j)) (and_chk (dom_at lat i j) (dom_at lat j i))) n) n;
        if bad then Some (False, ''antisymmetry violated'') else do {
        bad \<leftarrow> any_chk (\<lambda>i. any_chk (\<lambda>j. any_chk (\<lambda>k.
          and_chk (dom_at lat i j) (and_chk (dom_at lat j k) (map_option Not (dom_at lat i k)))) n) n) n;
        if bad then Some (False, ''transitivity violated'') else do {
        bad \<leftarrow> any_chk (\<lambda>i. map_option Not (dom_at lat i bot)) n;
        if bad then Some (False, ''bottom bound violated'') else do {
        bad \<leftarrow> any_chk (\<lambda>i. map_option Not (dom_at lat top i)) n;
        if bad then Some (False, ''top bound violated'') else do {
        bad \<leftarrow> any_chk (\<lambda>i. any_chk (\<lambda>j.
          map_option Option.is_none (SecurityLattice_join lat (Label (word_of_nat i)) (Label (word_of_nat j)))) n) n;
        if bad then Some (False, ''join does not exist'') else do {
        bad \<leftarrow> any_chk (\<lambda>i. any_chk (\<lambda>j.
          map_option Option.is_none (SecurityLattice_meet lat (Label (word_of_nat i)) (Label (word_of_nat j)))) n) n;
        if bad then Some (False, ''meet does not exist'') else Some (True, [])
        } } } } } } })"

definition SecurityLattice_node_name :: "SecurityLattice \<Rightarrow> Label \<Rightarrow> bytes panics" where
  "SecurityLattice_node_name lat l =
     (let i = unat (label_index l)
      in if i < 8 then Some (case lat_nodes lat ! i of Some n \<Rightarrow> LatticeNode_name_str n | None \<Rightarrow> ascii ''?'')
         else None)"

definition SecurityLattice_size :: "SecurityLattice \<Rightarrow> nat" where
  "SecurityLattice_size lat = lat_count lat"

text \<open>The reconfiguration of the demonstration, which adds a level above the top.\<close>

definition add_ts_sci :: "SecurityLattice \<Rightarrow> SecurityLattice" where
  "add_ts_sci lat =
     (let lat = lat\<lparr>lat_nodes := (lat_nodes lat)[4 := Some \<lparr>node_label = make_name (ascii ''TS-SCI''), level = 4\<rparr>],
                    lat_count := 5, lat_top := 4\<rparr>;
          lat = foldl (\<lambda>lat j. lat\<lparr>lat_dom := (lat_dom lat)[4 := (lat_dom lat ! 4)[j := True]]\<rparr>) lat [0..<5]
      in foldl (\<lambda>lat i. lat\<lparr>lat_dom := (lat_dom lat)[i := (lat_dom lat ! i)[4 := False]]\<rparr>) lat [0..<4])"

text \<open>The broken lattice the demonstration builds.\<close>

definition bad_lattice :: SecurityLattice where
  "bad_lattice =
     (let d = replicate 8 (replicate 8 False);
          d = foldl (\<lambda>d i. d[i := (d ! i)[i := True]]) d [0..<3];
          d = d[1 := (d ! 1)[0 := True]];
          d = d[2 := (d ! 2)[1 := True]];
          d = d[2 := (d ! 2)[0 := False]]
      in \<lparr>lat_nodes = replicate 8 None, lat_dom = d, lat_count = 3, lat_bottom = 0, lat_top = 2\<rparr>)"

section \<open>Well-formed lattices do not panic\<close>

definition SecurityLattice_ok :: "SecurityLattice \<Rightarrow> bool" where
  "SecurityLattice_ok lat \<longleftrightarrow> lat_count lat \<le> 8 \<and> unat (lat_bottom lat) < 8 \<and> unat (lat_top lat) < 8"

abbreviation geq :: "SecurityLattice \<Rightarrow> nat \<Rightarrow> nat \<Rightarrow> bool" where
  "geq lat i j \<equiv> lat_dom lat ! i ! j"

abbreviation lab :: "nat \<Rightarrow> Label" where
  "lab i \<equiv> Label (word_of_nat i)"

lemma dom_at_ok [simp]: "i < 8 \<Longrightarrow> j < 8 \<Longrightarrow> dom_at lat i j = Some (geq lat i j)"
  by (simp add: dom_at_def)

lemma unat_lab [simp]: "i < 8 \<Longrightarrow> unat (word_of_nat i :: u8) = i"
  by (simp add: unat_of_nat)

lemma lab_inject: "i < 8 \<Longrightarrow> j < 8 \<Longrightarrow> lab i = lab j \<longleftrightarrow> i = j"
  by (auto simp: word_unat_eq_iff)

lemma dominates_lab:
  "lat_count lat \<le> 8 \<Longrightarrow> i < lat_count lat \<Longrightarrow> j < lat_count lat \<Longrightarrow>
   SecurityLattice_dominates lat (lab i) (lab j) = Some (geq lat i j)"
  by (simp add: SecurityLattice_dominates_def)

lemma join_loop_eq:
  assumes "lat_count lat \<le> 8" "a < lat_count lat" "b < lat_count lat" "set is \<subseteq> {..<lat_count lat}"
  shows "join_loop lat (lab a) (lab b) is = Some (map_option lab (find (\<lambda>i. geq lat i a \<and> geq lat i b) is))"
  using assms by (induction "is") (simp_all add: dominates_lab)

lemma join_eq:
  "lat_count lat \<le> 8 \<Longrightarrow> a < lat_count lat \<Longrightarrow> b < lat_count lat \<Longrightarrow>
   SecurityLattice_join lat (lab a) (lab b) =
     Some (map_option lab (find (\<lambda>i. geq lat i a \<and> geq lat i b) [0..<lat_count lat]))"
  unfolding SecurityLattice_join_def by (intro join_loop_eq) auto

fun best_below :: "SecurityLattice \<Rightarrow> nat \<Rightarrow> nat \<Rightarrow> nat option \<Rightarrow> nat list \<Rightarrow> nat option" where
  "best_below lat a b best [] = best"
| "best_below lat a b best (i # is) =
     (if geq lat a i \<and> geq lat b i
      then (case best of None \<Rightarrow> best_below lat a b (Some i) is
            | Some p \<Rightarrow> best_below lat a b (Some (if geq lat i p then i else p)) is)
      else best_below lat a b best is)"

lemma meet_loop_eq:
  assumes "lat_count lat \<le> 8" "a < lat_count lat" "b < lat_count lat" "set is \<subseteq> {..<lat_count lat}"
    and "\<forall>p. best = Some p \<longrightarrow> p < lat_count lat"
  shows "meet_loop lat (lab a) (lab b) (map_option lab best) is = Some (map_option lab (best_below lat a b best is))"
  using assms
proof (induction "is" arbitrary: best)
  case (Cons i "is")
  then have i: "i < lat_count lat" by simp
  show ?case
  proof (cases best)
    case None
    then show ?thesis
      using Cons.prems i Cons.IH[of None] Cons.IH[of "Some i"] by (simp add: dominates_lab Let_def)
  next
    case (Some p)
    then show ?thesis
      using Cons.prems i Cons.IH[of "Some i"] Cons.IH[of "Some p"] by (simp add: dominates_lab Let_def)
  qed
qed simp

lemma meet_eq:
  "lat_count lat \<le> 8 \<Longrightarrow> a < lat_count lat \<Longrightarrow> b < lat_count lat \<Longrightarrow>
   SecurityLattice_meet lat (lab a) (lab b) =
     Some (map_option lab (best_below lat a b None [0..<lat_count lat]))"
  unfolding SecurityLattice_meet_def using meet_loop_eq[of lat a b "[0..<lat_count lat]" None]
  by (simp add: atLeast0LessThan)

section \<open>What the axiom check accepts\<close>

definition partial_order :: "SecurityLattice \<Rightarrow> bool" where
  "partial_order lat \<longleftrightarrow> (let n = lat_count lat in
     (\<forall>i<n. geq lat i i) \<and> (\<forall>i<n. \<forall>j<n. geq lat i j \<and> geq lat j i \<longrightarrow> i = j) \<and>
     (\<forall>i<n. \<forall>j<n. \<forall>k<n. geq lat i j \<and> geq lat j k \<longrightarrow> geq lat i k))"

definition bounded :: "SecurityLattice \<Rightarrow> bool" where
  "bounded lat \<longleftrightarrow> (\<forall>i<lat_count lat. geq lat i (unat (lat_bottom lat))) \<and>
     (\<forall>i<lat_count lat. geq lat (unat (lat_top lat)) i)"

definition directed :: "SecurityLattice \<Rightarrow> bool" where
  "directed lat \<longleftrightarrow> (let n = lat_count lat in
     (\<forall>i<n. \<forall>j<n. \<exists>u<n. geq lat u i \<and> geq lat u j) \<and>
     (\<forall>i<n. \<forall>j<n. \<exists>l<n. geq lat i l \<and> geq lat j l))"

lemma any_chk_upt: "(\<And>i. i < n \<Longrightarrow> f i = Some (P i)) \<Longrightarrow> any_chk f [0..<n] = Some (\<exists>i<n. P i)"
  using any_chk_Some[of "[0..<n]" f P] by auto

lemma best_below_None_iff:
  "best_below lat a b best is = None \<longleftrightarrow> best = None \<and> (\<forall>i \<in> set is. \<not> (geq lat a i \<and> geq lat b i))"
  by (induction "is" arbitrary: best) (auto split: option.splits)

lemma join_none:
  "lat_count lat \<le> 8 \<Longrightarrow> i < lat_count lat \<Longrightarrow> j < lat_count lat \<Longrightarrow>
   map_option Option.is_none (SecurityLattice_join lat (lab i) (lab j)) =
     Some (\<forall>u<lat_count lat. \<not> (geq lat u i \<and> geq lat u j))"
  by (auto simp: join_eq Option.is_none_def find_None_iff)

lemma meet_none:
  "lat_count lat \<le> 8 \<Longrightarrow> i < lat_count lat \<Longrightarrow> j < lat_count lat \<Longrightarrow>
   map_option Option.is_none (SecurityLattice_meet lat (lab i) (lab j)) =
     Some (\<forall>l<lat_count lat. \<not> (geq lat i l \<and> geq lat j l))"
  by (auto simp: meet_eq Option.is_none_def best_below_None_iff)

lemma verdict_chain:
  fixes p1 p2 p3 p4 p5 p6 p7 :: bool and m1 m2 m3 m4 m5 m6 m7 m8 :: string
  defines "v \<equiv> do { bad \<leftarrow> Some p1; if bad then Some (False, m1) else do {
         bad \<leftarrow> Some p2; if bad then Some (False, m2) else do {
         bad \<leftarrow> Some p3; if bad then Some (False, m3) else do {
         bad \<leftarrow> Some p4; if bad then Some (False, m4) else do {
         bad \<leftarrow> Some p5; if bad then Some (False, m5) else do {
         bad \<leftarrow> Some p6; if bad then Some (False, m6) else do {
         bad \<leftarrow> Some p7; if bad then Some (False, m7) else Some (True, m8) } } } } } } }"
  shows "v = Some (True, m8) \<longleftrightarrow> \<not> p1 \<and> \<not> p2 \<and> \<not> p3 \<and> \<not> p4 \<and> \<not> p5 \<and> \<not> p6 \<and> \<not> p7"
    and "\<exists>r. v = Some r"
  by (simp_all add: v_def) blast

lemma verify_iff:
  assumes ok: "SecurityLattice_ok lat"
  shows "SecurityLattice_verify lat = Some (True, []) \<longleftrightarrow> partial_order lat \<and> bounded lat \<and> directed lat"
    and "\<exists>r. SecurityLattice_verify lat = Some r"
proof -
  let ?n = "lat_count lat" and ?bot = "unat (lat_bottom lat)" and ?top = "unat (lat_top lat)"
  have n: "?n \<le> 8" "?bot < 8" "?top < 8" using ok by (auto simp: SecurityLattice_ok_def)
  have 1: "any_chk (\<lambda>i. map_option Not (dom_at lat i i)) [0..<?n] = Some (\<exists>i<?n. \<not> geq lat i i)"
    by (rule any_chk_upt) (use n in simp)
  have 2: "any_chk (\<lambda>i. any_chk (\<lambda>j. and_chk (Some (i \<noteq> j)) (and_chk (dom_at lat i j) (dom_at lat j i)))
      [0..<?n]) [0..<?n] = Some (\<exists>i<?n. \<exists>j<?n. i \<noteq> j \<and> geq lat i j \<and> geq lat j i)"
    by (intro any_chk_upt) (use n in simp)
  have 3: "any_chk (\<lambda>i. any_chk (\<lambda>j. any_chk (\<lambda>k.
        and_chk (dom_at lat i j) (and_chk (dom_at lat j k) (map_option Not (dom_at lat i k))))
      [0..<?n]) [0..<?n]) [0..<?n] =
      Some (\<exists>i<?n. \<exists>j<?n. \<exists>k<?n. geq lat i j \<and> geq lat j k \<and> \<not> geq lat i k)"
    by (intro any_chk_upt) (use n in simp)
  have 4: "any_chk (\<lambda>i. map_option Not (dom_at lat i ?bot)) [0..<?n] = Some (\<exists>i<?n. \<not> geq lat i ?bot)"
    by (rule any_chk_upt) (use n in simp)
  have 5: "any_chk (\<lambda>i. map_option Not (dom_at lat ?top i)) [0..<?n] = Some (\<exists>i<?n. \<not> geq lat ?top i)"
    by (rule any_chk_upt) (use n in simp)
  have 6: "any_chk (\<lambda>i. any_chk (\<lambda>j. map_option Option.is_none (SecurityLattice_join lat (lab i) (lab j)))
      [0..<?n]) [0..<?n] = Some (\<exists>i<?n. \<exists>j<?n. \<forall>u<?n. \<not> (geq lat u i \<and> geq lat u j))"
    by (intro any_chk_upt) (use n join_none in simp)
  have 7: "any_chk (\<lambda>i. any_chk (\<lambda>j. map_option Option.is_none (SecurityLattice_meet lat (lab i) (lab j)))
      [0..<?n]) [0..<?n] = Some (\<exists>i<?n. \<exists>j<?n. \<forall>l<?n. \<not> (geq lat i l \<and> geq lat j l))"
    by (intro any_chk_upt) (use n meet_none in simp)
  note V = SecurityLattice_verify_def Let_def 1 2 3 4 5 6 7
  show "SecurityLattice_verify lat = Some (True, []) \<longleftrightarrow> partial_order lat \<and> bounded lat \<and> directed lat"
    unfolding V verdict_chain(1) partial_order_def bounded_def directed_def
    by (simp only: not_ex not_all de_Morgan_conj de_Morgan_disj not_not imp_conv_disj disj_ac conj_assoc)
  show "\<exists>r. SecurityLattice_verify lat = Some r"
    unfolding V by (rule verdict_chain(2))
qed

lemma bounded_directed:
  assumes "bounded lat" "unat (lat_bottom lat) < lat_count lat" "unat (lat_top lat) < lat_count lat"
  shows "directed lat"
  using assms unfolding directed_def bounded_def Let_def by blast

section \<open>Information flow\<close>

text \<open>A policy admits subjects to read and write labelled objects. One step of information flow:
  a subject that may read one object writes another.\<close>

locale flow_policy =
  fixes valid :: "'p \<Rightarrow> bool"
    and may_read :: "'p \<Rightarrow> 'l \<Rightarrow> 'l \<Rightarrow> bool option" and may_write :: "'p \<Rightarrow> 'l \<Rightarrow> 'l \<Rightarrow> bool option"
    and dominates :: "'p \<Rightarrow> 'l \<Rightarrow> 'l \<Rightarrow> bool option"
  assumes read_up: "valid p \<Longrightarrow> may_read p s x = Some True \<Longrightarrow> dominates p s x = Some True"
    and write_up: "valid p \<Longrightarrow> may_write p s y = Some True \<Longrightarrow> dominates p y s = Some True"
    and dominates_trans: "valid p \<Longrightarrow> dominates p x y = Some True \<Longrightarrow> dominates p y z = Some True \<Longrightarrow>
      dominates p x z = Some True"
    and dominates_antisym: "valid p \<Longrightarrow> dominates p x y = Some True \<Longrightarrow> dominates p y x = Some True \<Longrightarrow> x = y"
begin

lemma flows_upwards:
  assumes "valid p" and "(\<lambda>x y. \<exists>s. may_read p s x = Some True \<and> may_write p s y = Some True)\<^sup>+\<^sup>+ x y"
  shows "dominates p y x = Some True"
  using assms(2)
proof (induction rule: tranclp_induct)
  case (base y)
  then show ?case using dominates_trans[OF assms(1)] read_up[OF assms(1)] write_up[OF assms(1)] by blast
next
  case (step y z)
  then show ?case using dominates_trans[OF assms(1)] read_up[OF assms(1)] write_up[OF assms(1)] by blast
qed

lemma no_cyclic_flow:
  assumes "valid p"
    and "(\<lambda>x y. \<exists>s. may_read p s x = Some True \<and> may_write p s y = Some True)\<^sup>+\<^sup>+ x y"
    and "(\<lambda>x y. \<exists>s. may_read p s x = Some True \<and> may_write p s y = Some True)\<^sup>+\<^sup>+ y x"
  shows "x = y"
  using dominates_antisym[OF assms(1)] flows_upwards[OF assms(1)] assms(2,3) by blast

end

text \<open>A lattice is accepted when the axiom check answers true.\<close>

definition accepted :: "SecurityLattice \<Rightarrow> bool" where
  "accepted lat \<longleftrightarrow> SecurityLattice_ok lat \<and> SecurityLattice_verify lat = Some (True, [])"

lemma dominates_True:
  assumes "SecurityLattice_ok lat"
  shows "SecurityLattice_dominates lat x y = Some True \<longleftrightarrow>
    unat (label_index x) < lat_count lat \<and> unat (label_index y) < lat_count lat \<and>
    geq lat (unat (label_index x)) (unat (label_index y))"
  using assms by (auto simp: SecurityLattice_dominates_def SecurityLattice_ok_def Let_def split: if_splits)

lemma accepted_order: "accepted lat \<Longrightarrow> partial_order lat"
  using verify_iff(1)[of lat] by (simp add: accepted_def)

interpretation blp: flow_policy accepted SecurityLattice_may_read SecurityLattice_may_write SecurityLattice_dominates
proof unfold_locales
  fix lat x y z
  assume a: "accepted lat"
  then have ok: "SecurityLattice_ok lat" and po: "partial_order lat"
    by (simp_all add: accepted_def accepted_order)
  show "SecurityLattice_dominates lat x y = Some True" if "SecurityLattice_may_read lat x y = Some True"
    using that by (simp add: SecurityLattice_may_read_def)
  show "SecurityLattice_dominates lat y x = Some True" if "SecurityLattice_may_write lat x y = Some True"
    using that by (simp add: SecurityLattice_may_write_def)
  show "SecurityLattice_dominates lat x z = Some True"
    if "SecurityLattice_dominates lat x y = Some True" "SecurityLattice_dominates lat y z = Some True"
    using that po unfolding dominates_True[OF ok] partial_order_def Let_def by blast
  show "x = y"
    if "SecurityLattice_dominates lat x y = Some True" "SecurityLattice_dominates lat y x = Some True"
    using that po unfolding dominates_True[OF ok] partial_order_def Let_def
    by (metis Label.expand word_unat_eq_iff)
qed

section \<open>Join and meet\<close>

definition is_lub :: "SecurityLattice \<Rightarrow> nat \<Rightarrow> nat \<Rightarrow> nat \<Rightarrow> bool" where
  "is_lub lat a b u \<longleftrightarrow> u < lat_count lat \<and> geq lat u a \<and> geq lat u b \<and>
     (\<forall>v < lat_count lat. geq lat v a \<and> geq lat v b \<longrightarrow> geq lat v u)"

definition is_glb :: "SecurityLattice \<Rightarrow> nat \<Rightarrow> nat \<Rightarrow> nat \<Rightarrow> bool" where
  "is_glb lat a b l \<longleftrightarrow> l < lat_count lat \<and> geq lat a l \<and> geq lat b l \<and>
     (\<forall>v < lat_count lat. geq lat a v \<and> geq lat b v \<longrightarrow> geq lat l v)"

text \<open>The labels are numbered along the order: a label only dominates smaller indices.\<close>

definition index_ordered :: "SecurityLattice \<Rightarrow> bool" where
  "index_ordered lat \<longleftrightarrow> (\<forall>i<lat_count lat. \<forall>j<lat_count lat. geq lat i j \<longrightarrow> j \<le> i)"

lemma find_least:
  "x < n \<Longrightarrow> P x \<Longrightarrow> (\<And>y. y < x \<Longrightarrow> \<not> P y) \<Longrightarrow> find P [0..<n] = Some x"
  by (auto simp: find_Some_iff intro!: exI[of _ x])

lemma join_is_lub:
  assumes "index_ordered lat" "is_lub lat a b u" "lat_count lat \<le> 8" "a < lat_count lat" "b < lat_count lat"
  shows "SecurityLattice_join lat (lab a) (lab b) = Some (Some (lab u))"
proof -
  have "\<not> (geq lat v a \<and> geq lat v b)" if "v < u" for v
    using assms(1,2) that unfolding index_ordered_def is_lub_def by (meson leD less_trans)
  then have "find (\<lambda>i. geq lat i a \<and> geq lat i b) [0..<lat_count lat] = Some u"
    using assms(2) by (intro find_least) (auto simp: is_lub_def)
  then show ?thesis using assms by (simp add: join_eq)
qed

lemma best_below_glb:
  assumes po: "partial_order lat" and g: "is_glb lat a b g" and "set is \<subseteq> {..<lat_count lat}"
    and "g \<in> set is \<or> best = Some g" and "\<forall>p. best = Some p \<longrightarrow> p < lat_count lat \<and> geq lat a p \<and> geq lat b p"
  shows "best_below lat a b best is = Some g"
  using assms(3-)
proof (induction "is" arbitrary: best)
  case (Cons i "is")
  have g': "g < lat_count lat" "geq lat a g" "geq lat b g"
    and le: "\<And>v. v < lat_count lat \<Longrightarrow> geq lat a v \<Longrightarrow> geq lat b v \<Longrightarrow> geq lat g v"
    using g by (auto simp: is_glb_def)
  have anti: "\<And>v. v < lat_count lat \<Longrightarrow> geq lat v g \<Longrightarrow> geq lat g v \<Longrightarrow> v = g"
    using po g'(1) unfolding partial_order_def Let_def by blast
  have i: "i < lat_count lat" using Cons.prems by simp
  show ?case
  proof (cases "geq lat a i \<and> geq lat b i")
    case False
    then have "i \<noteq> g" using g' by auto
    then have "best_below lat a b best is = Some g" using Cons.prems by (intro Cons.IH) auto
    then show ?thesis using False by auto
  next
    case True
    define q where "q = (case best of None \<Rightarrow> i | Some p \<Rightarrow> if geq lat i p then i else p)"
    have "best_below lat a b (Some q) is = Some g"
    proof (rule Cons.IH)
      show "g \<in> set is \<or> Some q = Some g"
        using Cons.prems(2,3) anti[OF i] le[OF i] le True by (auto simp: q_def split: option.splits)
      show "\<forall>p. Some q = Some p \<longrightarrow> p < lat_count lat \<and> geq lat a p \<and> geq lat b p"
        using Cons.prems(3) True i by (auto simp: q_def split: option.splits)
    qed (use Cons.prems(1) in simp)
    then show ?thesis using True by (cases best) (auto simp: q_def)
  qed
qed simp

lemma meet_is_glb:
  assumes "partial_order lat" "is_glb lat a b g" "lat_count lat \<le> 8" "a < lat_count lat" "b < lat_count lat"
  shows "SecurityLattice_meet lat (lab a) (lab b) = Some (Some (lab g))"
  using assms best_below_glb[OF assms(1,2), of "[0..<lat_count lat]" None]
  by (auto simp: meet_eq is_glb_def atLeast0LessThan)

section \<open>Properties\<close>

lemma default_blp_simps:
  "lat_count SecurityLattice_default_blp = 4" "lat_bottom SecurityLattice_default_blp = 0"
  "lat_top SecurityLattice_default_blp = 3"
  "i < 8 \<Longrightarrow> j < 8 \<Longrightarrow> geq SecurityLattice_default_blp i j \<longleftrightarrow> i < 4 \<and> j \<le> i"
  by (auto simp: SecurityLattice_default_blp_def Let_def)

lemma default_blp_accepted: "accepted SecurityLattice_default_blp"
proof -
  have ok: "SecurityLattice_ok SecurityLattice_default_blp"
    by (simp add: SecurityLattice_ok_def default_blp_simps)
  have "partial_order SecurityLattice_default_blp"
    by (simp add: partial_order_def default_blp_simps)
  moreover have b: "bounded SecurityLattice_default_blp"
    by (auto simp: bounded_def default_blp_simps)
  moreover have "directed SecurityLattice_default_blp"
    by (rule bounded_directed[OF b]) (simp_all add: default_blp_simps)
  ultimately show ?thesis using verify_iff(1)[OF ok] ok by (simp add: accepted_def)
qed

text \<open>C14: On a lattice the axiom check has accepted, information read and written through any chain of subjects
  only moves to labels that dominate its origin, and two labels between which it flows both
  ways are equal: no read-up and no write-down compose to no downward flow.\<close>

theorem information_flows_upwards:
  assumes "accepted lat"
    and "(\<lambda>x y. \<exists>s. SecurityLattice_may_read lat s x = Some True \<and> SecurityLattice_may_write lat s y = Some True)\<^sup>+\<^sup>+ x y"
  shows "SecurityLattice_dominates lat y x = Some True \<and>
    ((\<lambda>x y. \<exists>s. SecurityLattice_may_read lat s x = Some True \<and> SecurityLattice_may_write lat s y = Some True)\<^sup>+\<^sup>+ y x
      \<longrightarrow> x = y)"
  using blp.flows_upwards[OF assms] blp.no_cyclic_flow[OF assms] by blast

theorem information_flows_upwards_witness:
  "SecurityLattice_dominates SecurityLattice_default_blp (Label 3) (Label 0) = Some True"
proof -
  let ?lat = SecurityLattice_default_blp
  have "SecurityLattice_may_read ?lat (Label 1) (Label 0) = Some True \<and>
      SecurityLattice_may_write ?lat (Label 1) (Label 3) = Some True"
    by (simp add: SecurityLattice_may_read_def SecurityLattice_may_write_def SecurityLattice_dominates_def
        default_blp_simps)
  then have "(\<lambda>x y. \<exists>s. SecurityLattice_may_read ?lat s x = Some True \<and>
      SecurityLattice_may_write ?lat s y = Some True)\<^sup>+\<^sup>+ (Label 0) (Label 3)"
    by (intro tranclp.r_into_trancl) blast
  with information_flows_upwards[OF default_blp_accepted] show ?thesis by blast
qed



text \<open>C21: On an accepted lattice \<open>meet\<close> returns the greatest lower bound of two labels whenever they have one;
  \<open>join\<close> returns the least upper bound whenever they have one and labels are numbered along
  the order, as in the default lattice.\<close>

theorem join_meet_correct:
  assumes "accepted lat" "a < lat_count lat" "b < lat_count lat"
  shows "(is_glb lat a b g \<longrightarrow> SecurityLattice_meet lat (lab a) (lab b) = Some (Some (lab g))) \<and>
    (index_ordered lat \<and> is_lub lat a b u \<longrightarrow> SecurityLattice_join lat (lab a) (lab b) = Some (Some (lab u)))"
proof -
  have "lat_count lat \<le> 8" using assms(1) by (simp add: accepted_def SecurityLattice_ok_def)
  then show ?thesis
    using meet_is_glb[OF accepted_order[OF assms(1)] _ _ assms(2,3)] join_is_lub[OF _ _ _ assms(2,3)] by blast
qed

theorem join_meet_correct_witness:
  "SecurityLattice_meet SecurityLattice_default_blp (Label 1) (Label 2) = Some (Some (Label 1)) \<and>
   SecurityLattice_join SecurityLattice_default_blp (Label 1) (Label 2) = Some (Some (Label 2))"
proof -
  let ?lat = SecurityLattice_default_blp
  have c: "1 < lat_count ?lat" "2 < lat_count ?lat" by (simp_all add: default_blp_simps)
  have "is_glb ?lat 1 2 1" "is_lub ?lat 1 2 2" "index_ordered ?lat"
    by (auto simp: is_glb_def is_lub_def index_ordered_def default_blp_simps)
  then show ?thesis
    using join_meet_correct[OF default_blp_accepted c, of 1 2] by simp
qed

definition matrix8 :: "SecurityLattice \<Rightarrow> bool" where
  "matrix8 lat \<longleftrightarrow> length (lat_dom lat) = 8 \<and> (\<forall>i<8. length (lat_dom lat ! i) = 8)"

lemma add_ts_sci_simps:
  "lat_count (add_ts_sci lat) = 5" "lat_top (add_ts_sci lat) = 4" "lat_bottom (add_ts_sci lat) = lat_bottom lat"
  by (simp_all add: add_ts_sci_def Let_def upt_rec)

lemma geq_add_ts_sci:
  assumes "matrix8 lat" "i < 8" "j < 8"
  shows "geq (add_ts_sci lat) i j \<longleftrightarrow> (if i = 4 \<and> j < 5 then True else if i < 4 \<and> j = 4 then False else geq lat i j)"
proof -
  let ?row = "\<lambda>lat j. lat\<lparr>lat_dom := (lat_dom lat)[4 := (lat_dom lat ! 4)[j := True]]\<rparr>"
  let ?col = "\<lambda>lat i. lat\<lparr>lat_dom := (lat_dom lat)[i := (lat_dom lat ! i)[4 := False]]\<rparr>"
  have row: "matrix8 (foldl ?row m js) \<and> (geq (foldl ?row m js) i j \<longleftrightarrow> i = 4 \<and> j \<in> set js \<or> geq m i j)"
    if "matrix8 m" "set js \<subseteq> {..<8}" for m js
    using that assms(2,3)
  proof (induction js arbitrary: m)
    case (Cons k js)
    have m: "matrix8 (?row m k)"
      using Cons.prems(1) by (auto simp: matrix8_def nth_list_update)
    have "geq (?row m k) i j \<longleftrightarrow> i = 4 \<and> j = k \<or> geq m i j"
      using Cons.prems by (auto simp: matrix8_def nth_list_update)
    with Cons.IH[OF m] Cons.prems show ?case by auto
  qed simp
  have col: "geq (foldl ?col m is) i j \<longleftrightarrow> \<not> (i \<in> set is \<and> j = 4) \<and> geq m i j"
    if "matrix8 m" "set is \<subseteq> {..<8}" for m "is"
    using that assms(2,3)
  proof (induction "is" arbitrary: m)
    case (Cons k "is")
    have m: "matrix8 (?col m k)"
      using Cons.prems(1,2) by (auto simp: matrix8_def nth_list_update)
    have "geq (?col m k) i j \<longleftrightarrow> \<not> (i = k \<and> j = 4) \<and> geq m i j"
      using Cons.prems by (auto simp: matrix8_def nth_list_update)
    with Cons.IH[OF m] Cons.prems show ?case by auto
  qed simp
  define m where "m = lat\<lparr>lat_nodes := (lat_nodes lat)[4 := Some \<lparr>node_label = make_name (ascii ''TS-SCI''), level = 4\<rparr>],
    lat_count := 5, lat_top := 4\<rparr>"
  have m: "matrix8 m" "geq m i j = geq lat i j" using assms(1) by (simp_all add: m_def matrix8_def)
  have "set [0..<5] \<subseteq> {..<8::nat}" and s: "set [0..<4] \<subseteq> {..<8::nat}" by auto
  note r = row[OF m(1) this(1)]
  show ?thesis
    unfolding add_ts_sci_def Let_def m_def[symmetric] col[OF conjunct1[OF r] s] using r m(2) by auto
qed

lemma reconfigured_accepted:
  assumes "accepted lat" "matrix8 lat" "lat_count lat = 4" "unat (lat_bottom lat) < 4"
  shows "accepted (add_ts_sci lat) \<and>
    (\<forall>i<4. \<forall>j<4. SecurityLattice_dominates (add_ts_sci lat) (lab i) (lab j) = SecurityLattice_dominates lat (lab i) (lab j)) \<and>
    (\<forall>i<4. SecurityLattice_dominates (add_ts_sci lat) (lab 4) (lab i) = Some True \<and>
           SecurityLattice_dominates (add_ts_sci lat) (lab i) (lab 4) = Some False)"
proof -
  let ?l = "add_ts_sci lat"
  note g = geq_add_ts_sci[OF assms(2)]
  have ok: "SecurityLattice_ok ?l"
    using assms(4) by (simp add: SecurityLattice_ok_def add_ts_sci_simps)
  have po: "partial_order lat" and b: "bounded lat"
    using assms(1) verify_iff(1)[of lat] by (auto simp: accepted_def)
  have refl: "\<And>i. i < 4 \<Longrightarrow> geq lat i i"
    and anti: "\<And>i j. i < 4 \<Longrightarrow> j < 4 \<Longrightarrow> geq lat i j \<Longrightarrow> geq lat j i \<Longrightarrow> i = j"
    and trans: "\<And>i j k. i < 4 \<Longrightarrow> j < 4 \<Longrightarrow> k < 4 \<Longrightarrow> geq lat i j \<Longrightarrow> geq lat j k \<Longrightarrow> geq lat i k"
    using po unfolding partial_order_def assms(3) Let_def by blast+
  have G: "geq ?l i j \<longleftrightarrow> i = 4 \<or> j < 4 \<and> geq lat i j" if "i < 5" "j < 5" for i j
    using that g[of i j] by auto
  have lt5: "i < 5 \<longleftrightarrow> i < 4 \<or> i = 4" for i :: nat by auto
  have "partial_order ?l"
    unfolding partial_order_def Let_def add_ts_sci_simps
  proof (intro conjI allI impI)
    show "geq ?l i i" if "i < 5" for i
      using that refl by (auto simp: G lt5)
    show "i = j" if "i < 5" "j < 5" "geq ?l i j \<and> geq ?l j i" for i j
      using that anti by (auto simp: G lt5)
    show "geq ?l i k" if "i < 5" "j < 5" "k < 5" "geq ?l i j \<and> geq ?l j k" for i j k
      using that trans[of i j k] by (auto simp: G lt5)
  qed
  moreover have b': "bounded ?l"
    using b assms(3,4) by (auto simp: bounded_def add_ts_sci_simps g)
  moreover have "directed ?l"
    by (rule bounded_directed[OF b']) (use assms(4) in \<open>simp_all add: add_ts_sci_simps\<close>)
  ultimately have "accepted ?l" using verify_iff(1)[OF ok] ok by (simp add: accepted_def)
  then show ?thesis
    using assms(3) dominates_lab[of ?l 4] dominates_lab[of ?l _ 4]
    by (simp add: dominates_lab add_ts_sci_simps g)
qed

text \<open>Adding the TS-SCI level to any accepted four-level lattice, as the reconfiguration does, gives an
  accepted five-level lattice in which the old labels keep their order and the new label
  dominates all of them and is dominated by none.\<close>

theorem reconfiguration_adds_top:
  assumes "accepted lat" "matrix8 lat" "lat_count lat = 4" "unat (lat_bottom lat) < 4"
  shows "accepted (add_ts_sci lat) \<and>
    (\<forall>i<4. \<forall>j<4. SecurityLattice_dominates (add_ts_sci lat) (lab i) (lab j) = SecurityLattice_dominates lat (lab i) (lab j)) \<and>
    (\<forall>i<4. SecurityLattice_dominates (add_ts_sci lat) (lab 4) (lab i) = Some True \<and>
           SecurityLattice_dominates (add_ts_sci lat) (lab i) (lab 4) = Some False)"
  using reconfigured_accepted[OF assms] .

lemma default_matrix8: "matrix8 SecurityLattice_default_blp"
  by (simp add: matrix8_def SecurityLattice_default_blp_def Let_def)

theorem reconfiguration_adds_top_witness:
  "SecurityLattice_verify (add_ts_sci SecurityLattice_default_blp) = Some (True, [])"
  using reconfiguration_adds_top[OF default_blp_accepted default_matrix8] by (simp add: default_blp_simps accepted_def)

definition relation_lattice :: "nat \<Rightarrow> u8 \<Rightarrow> (nat \<Rightarrow> nat \<Rightarrow> bool) \<Rightarrow> SecurityLattice" where
  "relation_lattice n t R =
     \<lparr>lat_nodes = replicate 8 None, lat_dom = map (\<lambda>i. map (R i) [0..<8]) [0..<8],
      lat_count = n, lat_bottom = 0, lat_top = t\<rparr>"

lemma relation_lattice_simps:
  "lat_count (relation_lattice n t R) = n" "lat_bottom (relation_lattice n t R) = 0"
  "lat_top (relation_lattice n t R) = t"
  "i < 8 \<Longrightarrow> j < 8 \<Longrightarrow> geq (relation_lattice n t R) i j = R i j"
  by (simp_all add: relation_lattice_def)

lemma relation_lattice_accepted:
  assumes "n \<le> 8" "0 < n" "unat t < n" "\<And>i. i < n \<Longrightarrow> R i i \<and> R i 0 \<and> R (unat t) i"
    "\<And>i j. i < n \<Longrightarrow> j < n \<Longrightarrow> R i j \<Longrightarrow> R j i \<Longrightarrow> i = j"
    "\<And>i j k. i < n \<Longrightarrow> j < n \<Longrightarrow> k < n \<Longrightarrow> R i j \<Longrightarrow> R j k \<Longrightarrow> R i k"
  shows "accepted (relation_lattice n t R)"
proof -
  let ?l = "relation_lattice n t R"
  have ok: "SecurityLattice_ok ?l" using assms(1,3) by (simp add: SecurityLattice_ok_def relation_lattice_simps)
  have g: "geq ?l i j = R i j" if "i < n" "j < n" for i j using that assms(1) by (simp add: relation_lattice_simps)
  have "partial_order ?l"
    unfolding partial_order_def Let_def relation_lattice_simps using g assms(4-6) by metis
  moreover have b: "bounded ?l"
    unfolding bounded_def relation_lattice_simps using g assms(2-4) by simp
  moreover have "directed ?l"
    by (rule bounded_directed[OF b]) (use assms(2,3) in \<open>simp_all add: relation_lattice_simps\<close>)
  ultimately show ?thesis using verify_iff(1)[OF ok] ok by (simp add: accepted_def)
qed

text \<open>The axiom check accepts structures that are not lattices, and \<open>join\<close> can miss an existing least upper
  bound: six labels with two incomparable upper bounds of one pair are accepted although the
  pair has no least upper bound, and with the top numbered before a middle label \<open>join\<close>
  returns the top instead of the middle.\<close>

theorem verify_accepts_non_lattice:
  "(\<exists>lat. accepted lat \<and> 1 < lat_count lat \<and> 2 < lat_count lat \<and> (\<forall>u. \<not> is_lub lat 1 2 u)) \<and>
   (\<exists>lat. accepted lat \<and> is_lub lat 0 2 2 \<and> SecurityLattice_join lat (lab 0) (lab 2) = Some (Some (lab 1)))"
proof
  let ?R = "\<lambda>i j :: nat. i = j \<or> j = 0 \<or> i = 5 \<or> (i = 3 \<or> i = 4) \<and> (j = 1 \<or> j = 2)"
  let ?c = "relation_lattice 6 5 ?R"
  have "accepted ?c" by (rule relation_lattice_accepted) auto
  moreover have "\<not> is_lub ?c 1 2 u" for u
  proof
    assume l: "is_lub ?c 1 2 u"
    then have u: "u < 6" by (simp add: is_lub_def relation_lattice_simps)
    with l have "?R u 1" "?R u 2" "\<forall>v<6. ?R v 1 \<and> ?R v 2 \<longrightarrow> ?R v u"
      by (simp_all add: is_lub_def relation_lattice_simps)
    from u this(1,2) this(3)[rule_format, of 3] this(3)[rule_format, of 4] show False by auto
  qed
  ultimately show "\<exists>lat. accepted lat \<and> 1 < lat_count lat \<and> 2 < lat_count lat \<and> (\<forall>u. \<not> is_lub lat 1 2 u)"
    by (intro exI[of _ ?c]) (simp add: relation_lattice_simps)
next
  let ?R = "\<lambda>i j :: nat. i = j \<or> j = 0 \<or> i = 1"
  let ?c = "relation_lattice 3 1 ?R"
  have "accepted ?c" by (rule relation_lattice_accepted) auto
  moreover have "is_lub ?c 0 2 2" by (auto simp: is_lub_def relation_lattice_simps)
  moreover have "SecurityLattice_join ?c (lab 0) (lab 2) = Some (Some (lab 1))"
    by (subst join_eq) (simp_all add: relation_lattice_simps upt_rec)
  ultimately show "\<exists>lat. accepted lat \<and> is_lub lat 0 2 2 \<and>
      SecurityLattice_join lat (lab 0) (lab 2) = Some (Some (lab 1))" by blast
qed

text \<open>Labels outside the lattice are denied everything: no subject may read or write an object, and no
  object may be read or written by a subject, whose label index is not below the count.\<close>

theorem unknown_labels_denied:
  assumes "lat_count lat \<le> unat (label_index s) \<or> lat_count lat \<le> unat (label_index x)"
  shows "SecurityLattice_may_read lat s x = Some False \<and> SecurityLattice_may_write lat s x = Some False"
  using assms by (auto simp: SecurityLattice_may_read_def SecurityLattice_may_write_def SecurityLattice_dominates_def)

theorem unknown_labels_denied_witness:
  "SecurityLattice_may_read SecurityLattice_default_blp (Label 200) (Label 0) = Some False"
  using unknown_labels_denied[of SecurityLattice_default_blp "Label 200" "Label 0"] by (simp add: default_blp_simps)

end
