(* ===== verification/Ztdf.thy ===== *)
theory Ztdf
  imports Axiom_Prelude
begin

text \<open>
  The zero-trust driver framework (\<open>kernel/src/ztdf.rs\<close>): driver specifications, the
  whitelist checks with their overflow panic, and the checker that runs a driver's
  operations until the first fault. The checker is an instance of a reference monitor:
  what it lets through is the longest admissible prefix of the driver's operations.
\<close>

section \<open>The code\<close>

definition MAX_MMIO :: nat where "MAX_MMIO = 4"
definition MAX_IRQS :: nat where "MAX_IRQS = 4"
definition MAX_SYSCALLS :: nat where "MAX_SYSCALLS = 8"

record MmioRegion =
  region_start :: u64
  region_len :: u64

definition MmioRegion_contains :: "MmioRegion \<Rightarrow> u64 \<Rightarrow> bool panics" where
  "MmioRegion_contains r addr =
     and_chk (Some (region_start r \<le> addr))
       (do { e \<leftarrow> add_chk (region_start r) (region_len r); Some (addr < e) })"

record DriverSpec =
  driver_id :: u32
  driver_name :: bytes
  mmio :: "MmioRegion option list"
  allowed_irqs :: "u8 option list"
  allowed_syscalls :: "u64 option list"
  op_budget :: u32

definition DriverSpec_name_str :: "DriverSpec \<Rightarrow> bytes" where
  "DriverSpec_name_str spec = name16_str (driver_name spec)"

definition DriverSpec_mmio_allowed :: "DriverSpec \<Rightarrow> u64 \<Rightarrow> bool panics" where
  "DriverSpec_mmio_allowed spec addr = any_chk (\<lambda>r. MmioRegion_contains r addr) (cat_options (mmio spec))"

definition DriverSpec_irq_allowed :: "DriverSpec \<Rightarrow> u8 \<Rightarrow> bool" where
  "DriverSpec_irq_allowed spec irq = list_ex (\<lambda>i. i = irq) (cat_options (allowed_irqs spec))"

definition DriverSpec_syscall_allowed :: "DriverSpec \<Rightarrow> u64 \<Rightarrow> bool" where
  "DriverSpec_syscall_allowed spec nr = list_ex (\<lambda>n. n = nr) (cat_options (allowed_syscalls spec))"

definition ztdf_make_name :: "bytes \<Rightarrow> bytes" where
  "ztdf_make_name s = name16 s"

datatype DriverResult =
  DriverOk | FaultMmio u64 | FaultIrq u8 | FaultSyscall u64 | Stopped

record ZtdfChecker =
  checker_spec :: DriverSpec
  ops_done :: u32

datatype DriverOp = MmioRead u64 | MmioWrite u64 | HandleIrq u8 | Syscall u64 | Exit

definition ZtdfChecker_new :: "DriverSpec \<Rightarrow> ZtdfChecker" where
  "ZtdfChecker_new spec = \<lparr>checker_spec = spec, ops_done = 0\<rparr>"

definition count_op :: "ZtdfChecker \<Rightarrow> (DriverResult \<times> ZtdfChecker) panics" where
  "count_op c = do { n \<leftarrow> add_chk (ops_done c) 1; Some (DriverOk, c\<lparr>ops_done := n\<rparr>) }"

definition check_mmio :: "ZtdfChecker \<Rightarrow> u64 \<Rightarrow> (DriverResult \<times> ZtdfChecker) panics" where
  "check_mmio c addr = do {
     ok \<leftarrow> DriverSpec_mmio_allowed (checker_spec c) addr;
     if \<not> ok then Some (FaultMmio addr, c) else count_op c }"

fun ZtdfChecker_step :: "ZtdfChecker \<Rightarrow> DriverOp \<Rightarrow> (DriverResult \<times> ZtdfChecker) panics" where
  "ZtdfChecker_step c (MmioRead addr) = check_mmio c addr"
| "ZtdfChecker_step c (MmioWrite addr) = check_mmio c addr"
| "ZtdfChecker_step c (HandleIrq irq) =
     (if \<not> DriverSpec_irq_allowed (checker_spec c) irq then Some (FaultIrq irq, c) else count_op c)"
| "ZtdfChecker_step c (Syscall nr) =
     (if \<not> DriverSpec_syscall_allowed (checker_spec c) nr then Some (FaultSyscall nr, c) else count_op c)"
| "ZtdfChecker_step c Exit = Some (Stopped, c)"

section \<open>Reference monitors\<close>

text \<open>The driver loop: step until the first answer other than \<open>go\<close>. The result lists the
  operations that were let through and the answer that ended the run, if any.\<close>

fun run_monitor :: "('c \<Rightarrow> 'op \<Rightarrow> ('r \<times> 'c) panics) \<Rightarrow> 'r \<Rightarrow> 'c \<Rightarrow> 'op list \<Rightarrow> ('op list \<times> 'r option \<times> 'c) panics" where
  "run_monitor step go c [] = Some ([], None, c)"
| "run_monitor step go c (op # ops) = do {
     (r, c') \<leftarrow> step c op;
     if r = go then do { (done, r', c'') \<leftarrow> run_monitor step go c' ops; Some (op # done, r', c'') }
     else Some ([], Some r, c') }"

text \<open>A monitor answers \<open>go\<close> exactly on the operations its policy admits, says why it stops
  otherwise, never changes the policy, and can take \<open>room\<close> more operations.\<close>

locale monitor =
  fixes step :: "'c \<Rightarrow> 'op \<Rightarrow> ('r \<times> 'c) option" and go :: 'r
    and ok :: "'c \<Rightarrow> bool" and room :: "'c \<Rightarrow> nat"
    and admits :: "'c \<Rightarrow> 'op \<Rightarrow> bool" and verdict :: "'op \<Rightarrow> 'r"
  assumes step_admitted: "ok c \<Longrightarrow> 0 < room c \<Longrightarrow> admits c op \<Longrightarrow>
      \<exists>c'. step c op = Some (go, c') \<and> ok c' \<and> room c' = room c - 1 \<and> admits c' = admits c"
    and step_refused: "ok c \<Longrightarrow> \<not> admits c op \<Longrightarrow> step c op = Some (verdict op, c)"
    and verdict_not_go: "verdict op \<noteq> go"
begin

lemma run_admits_prefix:
  assumes "ok c" "length ops \<le> room c"
  shows "\<exists>c'. run_monitor step go c ops =
    Some (takeWhile (admits c) ops,
          case dropWhile (admits c) ops of [] \<Rightarrow> None | op # _ \<Rightarrow> Some (verdict op), c')"
  using assms
proof (induction ops arbitrary: c)
  case (Cons op ops)
  show ?case
  proof (cases "admits c op")
    case True
    then obtain c' where "step c op = Some (go, c')" "ok c'" "room c' = room c - 1" "admits c' = admits c"
      using step_admitted[of c op] Cons.prems by auto
    moreover from this Cons.IH[of c'] Cons.prems obtain c'' where
      "run_monitor step go c' ops = Some (takeWhile (admits c) ops,
         case dropWhile (admits c) ops of [] \<Rightarrow> None | op # _ \<Rightarrow> Some (verdict op), c'')"
      by fastforce
    ultimately show ?thesis using True by simp
  next
    case False
    then show ?thesis using step_refused[of c op] verdict_not_go[of op] Cons.prems by simp
  qed
qed simp

lemma run_admitted:
  assumes "ok c" "length ops \<le> room c" "\<forall>op \<in> set ops. admits c op"
  shows "\<exists>c'. run_monitor step go c ops = Some (ops, None, c')"
proof -
  have "takeWhile (admits c) ops = ops" "dropWhile (admits c) ops = []" using assms(3) by auto
  then show ?thesis using run_admits_prefix[OF assms(1,2)] by (simp only: list.case)
qed

end

section \<open>The checker is a monitor\<close>

definition region_ok :: "MmioRegion \<Rightarrow> bool" where
  "region_ok r \<longleftrightarrow> unat (region_start r) + unat (region_len r) < 2 ^ 64"

definition DriverSpec_ok :: "DriverSpec \<Rightarrow> bool" where
  "DriverSpec_ok spec \<longleftrightarrow> (\<forall>r \<in> set (cat_options (mmio spec)). region_ok r)"

fun op_allowed :: "DriverSpec \<Rightarrow> DriverOp \<Rightarrow> bool" where
  "op_allowed spec (MmioRead a) \<longleftrightarrow> (\<exists>r \<in> set (cat_options (mmio spec)).
     unat (region_start r) \<le> unat a \<and> unat a < unat (region_start r) + unat (region_len r))"
| "op_allowed spec (MmioWrite a) \<longleftrightarrow> (\<exists>r \<in> set (cat_options (mmio spec)).
     unat (region_start r) \<le> unat a \<and> unat a < unat (region_start r) + unat (region_len r))"
| "op_allowed spec (HandleIrq irq) \<longleftrightarrow> irq \<in> set (cat_options (allowed_irqs spec))"
| "op_allowed spec (Syscall nr) \<longleftrightarrow> nr \<in> set (cat_options (allowed_syscalls spec))"
| "op_allowed spec Exit \<longleftrightarrow> False"

fun fault_of :: "DriverOp \<Rightarrow> DriverResult" where
  "fault_of (MmioRead a) = FaultMmio a"
| "fault_of (MmioWrite a) = FaultMmio a"
| "fault_of (HandleIrq irq) = FaultIrq irq"
| "fault_of (Syscall nr) = FaultSyscall nr"
| "fault_of Exit = Stopped"

lemma contains_eq:
  "region_ok r \<Longrightarrow> MmioRegion_contains r a =
     Some (unat (region_start r) \<le> unat a \<and> unat a < unat (region_start r) + unat (region_len r))"
  by (simp add: MmioRegion_contains_def region_ok_def add_chk_def word_le_nat_alt word_less_nat_alt
      unat_word_ariths)

lemma mmio_allowed_eq:
  "DriverSpec_ok spec \<Longrightarrow> DriverSpec_mmio_allowed spec a = Some (op_allowed spec (MmioRead a))"
  unfolding DriverSpec_mmio_allowed_def op_allowed.simps
  by (intro any_chk_Some) (simp add: DriverSpec_ok_def contains_eq)

lemma count_op_eq:
  fixes c :: ZtdfChecker
  shows "unat (ops_done c) < 2 ^ 32 - 1 \<Longrightarrow> count_op c = Some (DriverOk, c\<lparr>ops_done := ops_done c + 1\<rparr>)"
  by (simp add: count_op_def add_chk_def)

lemma step_allowed:
  fixes c :: ZtdfChecker
  shows "DriverSpec_ok (checker_spec c) \<Longrightarrow> unat (ops_done c) < 2 ^ 32 - 1 \<Longrightarrow> op_allowed (checker_spec c) op \<Longrightarrow>
   ZtdfChecker_step c op = Some (DriverOk, c\<lparr>ops_done := ops_done c + 1\<rparr>)"
  by (cases op) (simp_all add: check_mmio_def mmio_allowed_eq count_op_eq DriverSpec_irq_allowed_def
      DriverSpec_syscall_allowed_def list_ex_iff)

lemma step_forbidden:
  fixes c :: ZtdfChecker
  shows "DriverSpec_ok (checker_spec c) \<Longrightarrow> \<not> op_allowed (checker_spec c) op \<Longrightarrow>
   ZtdfChecker_step c op = Some (fault_of op, c)"
  by (cases op) (simp_all add: check_mmio_def mmio_allowed_eq DriverSpec_irq_allowed_def
      DriverSpec_syscall_allowed_def list_ex_iff)

interpretation ztdf_monitor: monitor ZtdfChecker_step DriverOk "\<lambda>c :: ZtdfChecker. DriverSpec_ok (checker_spec c)"
  "\<lambda>c. 2 ^ 32 - 1 - unat (ops_done c)" "\<lambda>c. op_allowed (checker_spec c)" fault_of
proof unfold_locales
  fix c :: ZtdfChecker and op
  show "fault_of op \<noteq> DriverOk" by (cases op) simp_all
  assume ok: "DriverSpec_ok (checker_spec c)"
  show "\<exists>c'. ZtdfChecker_step c op = Some (DriverOk, c') \<and> DriverSpec_ok (checker_spec c') \<and>
      2 ^ 32 - 1 - unat (ops_done c') = 2 ^ 32 - 1 - unat (ops_done c) - 1 \<and>
      op_allowed (checker_spec c') = op_allowed (checker_spec c)"
    if r: "0 < 2 ^ 32 - 1 - unat (ops_done c)" and a: "op_allowed (checker_spec c) op"
  proof -
    have "unat (ops_done c + 1) = unat (ops_done c) + 1" using r by (simp add: unat_word_ariths)
    then show ?thesis using step_allowed[OF ok _ a] r ok by simp
  qed
  show "ZtdfChecker_step c op = Some (fault_of op, c)" if "\<not> op_allowed (checker_spec c) op"
    using step_forbidden[OF ok that] .
qed

section \<open>Properties\<close>


definition uart_spec :: DriverSpec where
  "uart_spec = \<lparr>driver_id = 1, driver_name = ztdf_make_name (ascii ''uart-com1''),
     mmio = [Some \<lparr>region_start = 0x3F8, region_len = 8\<rparr>, None, None, None],
     allowed_irqs = [Some 4, None, None, None],
     allowed_syscalls = [Some 1, Some 2, None, None, None, None, None, None], op_budget = 0\<rparr>"

definition mal_spec :: DriverSpec where
  "mal_spec = \<lparr>driver_id = 2, driver_name = ztdf_make_name (ascii ''mal-driver''),
     mmio = [Some \<lparr>region_start = 0x1000, region_len = 0x100\<rparr>, None, None, None],
     allowed_irqs = [Some 5, None, None, None],
     allowed_syscalls = [Some 0, None, None, None, None, None, None, None], op_budget = 0\<rparr>"

definition esc_spec :: DriverSpec where
  "esc_spec = \<lparr>driver_id = 3, driver_name = ztdf_make_name (ascii ''esc-driver''),
     mmio = replicate MAX_MMIO None, allowed_irqs = replicate MAX_IRQS None,
     allowed_syscalls = [Some 0, None, None, None, None, None, None, None], op_budget = 0\<rparr>"



text \<open>The operation budget of a specification is never consulted: changing it changes no answer of the
  checker and no counter, although the specification describes it as a bound on operations.\<close>

theorem op_budget_ignored:
  "ZtdfChecker_step (c\<lparr>checker_spec := (checker_spec c)\<lparr>op_budget := b\<rparr>\<rparr>) op =
   map_option (\<lambda>(r, c'). (r, c'\<lparr>checker_spec := (checker_spec c')\<lparr>op_budget := b\<rparr>\<rparr>)) (ZtdfChecker_step c op)"
  by (cases op)
    (simp_all add: check_mmio_def count_op_def DriverSpec_mmio_allowed_def DriverSpec_irq_allowed_def
      DriverSpec_syscall_allowed_def add_chk_def map_option_bind split: bind_split)

end
