(* ===== verification/Demos.thy ===== *)
theory Demos
  imports Capability Meal Eipc Vmz Security_Lattice Ztdf
begin

unbundle bit_operations_syntax

text \<open>
  The demonstrations that the kernel runs at boot: \<open>capability::demonstrate\<close> and the \<open>run_demo\<close>
  functions of \<open>eipc.rs\<close>, \<open>vmz.rs\<close>, \<open>lattice.rs\<close> and \<open>ztdf.rs\<close>. Each drives a component through its
  operations, prints the outcomes and writes to the audit log. A demonstration is modelled with
  what it prints as its result; the text around the outcomes is left out. For each the outcomes
  and the entries written are determined.
\<close>

section \<open>The audit log during boot\<close>

text \<open>While the kernel boots, one processor logs and the timer's handler does not, so the lock of the
  log is free. \<open>tick n\<close> is the value of \<open>TICKS\<close> when the entry with number \<open>n\<close> is made.\<close>

definition klog :: "(nat \<Rightarrow> u64) \<Rightarrow> AuditEvent \<Rightarrow> u32 \<Rightarrow> u64 \<Rightarrow> u64 \<Rightarrow> MealLog \<Rightarrow> MealLog panics" where
  "klog tick ev act a b m = meal_log False m (tick (unat (total m))) ev act a b"

type_synonym entry = "AuditEvent \<times> u32 \<times> u64 \<times> u64"

fun stamp :: "(nat \<Rightarrow> u64) \<Rightarrow> nat \<Rightarrow> entry list \<Rightarrow> event list" where
  "stamp tick n [] = []"
| "stamp tick n (e # es) = (tick n, e) # stamp tick (Suc n) es"

text \<open>The log holds the given entries.\<close>

definition boot_log :: "(nat \<Rightarrow> u64) \<Rightarrow> entry list \<Rightarrow> MealLog \<Rightarrow> bool" where
  "boot_log tick es m \<longleftrightarrow> refines K_AUDIT m (stamp tick 0 es) \<and> length es < 1000"

text \<open>\<open>logs\<close>: from any log the operation returns, having added exactly the given entries.\<close>

definition logs :: "(nat \<Rightarrow> u64) \<Rightarrow> (MealLog \<Rightarrow> ('a \<times> MealLog) panics) \<Rightarrow> 'a \<Rightarrow> entry list \<Rightarrow> bool" where
  "logs tick f v es \<longleftrightarrow> (\<forall>es0 m. boot_log tick es0 m \<and> length es0 + length es < 1000 \<longrightarrow>
     (\<exists>m'. f m = Some (v, m') \<and> boot_log tick (es0 @ es) m'))"

lemma length_stamp [simp]: "length (stamp tick n es) = length es"
  by (induction es arbitrary: n) auto

lemma stamp_append [simp]: "stamp tick n (es @ es') = stamp tick n es @ stamp tick (n + length es) es'"
  by (induction es arbitrary: n) auto

lemma klog_boot:
  assumes "boot_log tick es m" "length es + 1 < 1000"
  shows "\<exists>m'. klog tick ev act a b m = Some m' \<and> boot_log tick (es @ [(ev, act, a, b)]) m'"
proof -
  have r: "refines K_AUDIT m (stamp tick 0 es)" using assms by (simp add: boot_log_def)
  then have "unat (total m) = length es" by (simp add: refines_def)
  with meal_log_refines[OF r, of False "tick (length es)" ev act a b] assms show ?thesis
    by (auto simp: klog_def boot_log_def)
qed

lemma logsD:
  "logs tick f v es \<Longrightarrow> boot_log tick es0 m \<Longrightarrow> length es0 + length es < 1000 \<Longrightarrow>
   \<exists>m'. f m = Some (v, m') \<and> boot_log tick (es0 @ es) m'"
  by (simp add: logs_def)

lemma logsI:
  "(\<And>es0 m. boot_log tick es0 m \<Longrightarrow> length es0 + length es < 1000 \<Longrightarrow>
     \<exists>m'. f m = Some (v, m') \<and> boot_log tick (es0 @ es) m') \<Longrightarrow> logs tick f v es"
  by (simp add: logs_def)

lemma logs_klog: "logs tick (\<lambda>m. do { m \<leftarrow> klog tick ev act a b m; Some (v, m) }) v [(ev, act, a, b)]"
proof (rule logsI)
  fix es0 m assume "boot_log tick es0 m" "length es0 + length [(ev, act, a, b)] < 1000"
  then obtain m' where "klog tick ev act a b m = Some m'" "boot_log tick (es0 @ [(ev, act, a, b)]) m'"
    using klog_boot[of tick es0 m ev act a b] by auto
  then show "\<exists>m'. (do { m \<leftarrow> klog tick ev act a b m; Some (v, m) }) = Some (v, m') \<and>
      boot_log tick (es0 @ [(ev, act, a, b)]) m'" by simp
qed

lemma logs_return: "logs tick (\<lambda>m. Some (v, m)) v []"
  by (simp add: logs_def)

lemma logs_bind:
  assumes "logs tick f v es" "logs tick (g v) w es'"
  shows "logs tick (\<lambda>m. do { (x, m) \<leftarrow> f m; g x m }) w (es @ es')"
proof (rule logsI)
  fix es0 m assume m: "boot_log tick es0 m" "length es0 + length (es @ es') < 1000"
  obtain m1 where m1: "f m = Some (v, m1)" "boot_log tick (es0 @ es) m1"
    using logsD[OF assms(1) m(1)] m(2) by auto
  obtain m2 where "g v m1 = Some (w, m2)" "boot_log tick ((es0 @ es) @ es') m2"
    using logsD[OF assms(2) m1(2)] m(2) by auto
  with m1 show "\<exists>m'. (do { (x, m) \<leftarrow> f m; g x m }) = Some (w, m') \<and> boot_log tick (es0 @ es @ es') m'"
    by simp
qed

lemma logs_after:
  assumes "logs tick f w es'"
  shows "logs tick (\<lambda>m. do { m \<leftarrow> klog tick ev act a b m; f m }) w ((ev, act, a, b) # es')"
  using logs_bind[OF logs_klog[of tick ev act a b "()"], of "\<lambda>_. f" w es'] assms by simp

section \<open>Capabilities\<close>

record tcd_demo =
  sha256_ok :: bool
  hmac_ok :: bool
  verify_500 :: bool
  ttl_500 :: u64
  derived_child :: "Capability option"
  escalated_child :: "Capability option"
  verify_1500 :: bool
  verify_forged :: bool
  verify_wrong_key :: bool

definition demonstrate :: "(nat \<Rightarrow> u64) \<Rightarrow> MealLog \<Rightarrow> (tcd_demo \<times> MealLog) panics" where
  "demonstrate tick m = do {
     empty_hash \<leftarrow> sha256 [];
     hmac_result \<leftarrow> hmac_sha256 (replicate 20 0x0b) (ascii ''Hi There'');
     cap \<leftarrow> Capability_mint demo_key 0xF11E (READ OR WRITE OR DERIVE) 1000;
     m \<leftarrow> klog tick CapabilityDerived 0 0xF11E 1000 m;
     v500 \<leftarrow> Capability_verify cap demo_key 500;
     child \<leftarrow> Capability_derive cap demo_key 500 READ 800;
     m \<leftarrow> (case child of Some _ \<Rightarrow> klog tick CapabilityDerived 0 0xF11E 800 m | None \<Rightarrow> Some m);
     esc \<leftarrow> Capability_derive cap demo_key 500 (READ OR EXECUTE) 800;
     v1500 \<leftarrow> Capability_verify cap demo_key 1500;
     vforged \<leftarrow> Capability_verify (cap\<lparr>cap_mac := (cap_mac cap)[0 := cap_mac cap ! 0 XOR 0x01]\<rparr>) demo_key 500;
     vwrong \<leftarrow> Capability_verify cap (replicate 32 0xAA) 500;
     Some (\<lparr>sha256_ok = (empty_hash ! 0 = 0xe3 \<and> empty_hash ! 1 = 0xb0),
            hmac_ok = (hmac_result ! 0 = 0xb0 \<and> hmac_result ! 1 = 0x34),
            verify_500 = v500, ttl_500 = Capability_ttl cap 500, derived_child = child, escalated_child = esc,
            verify_1500 = v1500, verify_forged = vforged, verify_wrong_key = vwrong\<rparr>, m) }"

text \<open>The outcome: everything is as announced, the last line up to a collision of HMAC under the two keys.\<close>

definition tcd_outcome :: tcd_demo where
  "tcd_outcome =
     \<lparr>sha256_ok = (sha256_spec [] ! 0 = 0xe3 \<and> sha256_spec [] ! 1 = 0xb0),
      hmac_ok = (let h = hmac_spec (replicate 20 0x0b) (ascii ''Hi There'') in h ! 0 = 0xb0 \<and> h ! 1 = 0x34),
      verify_500 = True, ttl_500 = 500, derived_child = Some (child_of demo_key demo_root READ 800),
      escalated_child = None, verify_1500 = False, verify_forged = False,
      verify_wrong_key = (hmac_spec demo_key (cap_auth demo_root) = hmac_spec (replicate 32 0xAA) (cap_auth demo_root))\<rparr>"

definition tcd_entries :: "entry list" where
  "tcd_entries = [(CapabilityDerived, 0, 0xF11E, 1000), (CapabilityDerived, 0, 0xF11E, 800)]"

lemma demo_root_facts:
  "Capability_ok demo_root" "cap_mac demo_root = hmac_spec demo_key (cap_auth demo_root)" "expires_at demo_root = 1000"
  "Capability_derive demo_root demo_key 500 (READ OR EXECUTE) 800 = Some None"
proof -
  show "Capability_ok demo_root" "cap_mac demo_root = hmac_spec demo_key (cap_auth demo_root)" by (simp_all add: demo_root_def)
  show "expires_at demo_root = 1000" by (simp add: demo_root_def root_cap_def)
  show "Capability_derive demo_root demo_key 500 (READ OR EXECUTE) 800 = Some None"
    unfolding demo_root_derive
    by (simp add: may_derive_def demo_root_def root_cap_def READ_def WRITE_def DERIVE_def EXECUTE_def)
qed

lemma demo_root_verify:
  "length k = 32 \<Longrightarrow> Capability_verify demo_root k now =
     Some (now < 1000 \<and> hmac_spec demo_key (cap_auth demo_root) = hmac_spec k (cap_auth demo_root))"
  using Capability_verify_eq[OF demo_root_facts(1), of k now] demo_root_facts(2,3) by auto

lemma demo_forged:
  "Capability_verify (demo_root\<lparr>cap_mac := (cap_mac demo_root)[0 := cap_mac demo_root ! 0 XOR 1]\<rparr>) demo_key 500 = Some False"
proof -
  let ?m = "cap_mac demo_root" and ?f = "demo_root\<lparr>cap_mac := (cap_mac demo_root)[0 := cap_mac demo_root ! 0 XOR 1]\<rparr>"
  have l: "length ?m = 32" using demo_root_facts(1) by (simp add: Capability_ok_def)
  have "?m ! 0 XOR 1 \<noteq> ?m ! 0" by (metis one_neq_zero xor.right_neutral xor_self_eq xor.assoc xor.left_neutral)
  then have "?m[0 := ?m ! 0 XOR 1] \<noteq> ?m" using l by (metis length_0_conv nth_list_update_eq neq0_conv zero_neq_numeral)
  then have "cap_mac ?f \<noteq> cap_mac demo_root" by simp
  moreover have "Capability_ok ?f" using demo_root_facts(1) by (simp add: Capability_ok_def)
  ultimately show ?thesis using Capability_verify_eq[of ?f demo_key 500] demo_root_facts(2) by simp
qed

lemma demonstrate_logs: "logs tick (demonstrate tick) tcd_outcome tcd_entries"
proof -
  have "sha256 [] = Some (sha256_spec [])" by (rule sha256_eq_spec) simp
  moreover have "hmac_sha256 (replicate 20 0x0b) (ascii ''Hi There'') = Some (hmac_spec (replicate 20 0x0b) (ascii ''Hi There''))"
    by (rule hmac_sha256_eq_spec) simp_all
  moreover have "Capability_ttl demo_root 500 = 500" by (simp add: Capability_ttl_def demo_root_facts saturating_sub_def)
  ultimately have "demonstrate tick = (\<lambda>m. do { m \<leftarrow> klog tick CapabilityDerived 0 0xF11E 1000 m;
      do { m \<leftarrow> klog tick CapabilityDerived 0 0xF11E 800 m; Some (tcd_outcome, m) } })"
    unfolding demonstrate_def tcd_outcome_def
    by (simp add: demo_root_minted demo_root_verify demo_child_derived demo_root_facts(4) demo_forged Let_def fun_eq_iff)
  then show ?thesis
    unfolding tcd_entries_def by (simp only:) (intro logs_after logs_return)
qed

section \<open>Encrypted IPC\<close>

text \<open>The sending and the receiving loop, with their entries in the log; the receiving loop counts the
  messages and remembers whether all of them were authentic.\<close>

fun eipc_send_loop :: "(nat \<Rightarrow> u64) \<Rightarrow> bytes \<Rightarrow> u32 \<Rightarrow> bytes list \<Rightarrow> EipcChannel \<Rightarrow> MealLog \<Rightarrow> (EipcChannel \<times> MealLog) panics" where
  "eipc_send_loop tick session_key seq [] ch m = Some (ch, m)"
| "eipc_send_loop tick session_key seq (pt # pts) ch m = do {
     (_, ch) \<leftarrow> eipc_send session_key seq pt ch;
     m \<leftarrow> klog tick EipcSend 1 (ucast seq) (word_of_nat (length pt)) m;
     eipc_send_loop tick session_key (seq + 1) pts ch m }"

function eipc_receive_loop :: "(nat \<Rightarrow> u64) \<Rightarrow> bytes \<Rightarrow> u32 \<Rightarrow> bool \<Rightarrow> EipcChannel \<Rightarrow> MealLog \<Rightarrow>
    ((u32 \<times> bool \<times> EipcChannel) \<times> MealLog) panics" where
  "eipc_receive_loop tick session_key received all_ok ch m =
     (case EipcChannel_dequeue ch of
        None \<Rightarrow> None
      | Some (None, ch') \<Rightarrow> Some ((received, all_ok, ch'), m)
      | Some (Some msg, ch') \<Rightarrow> do {
          (_, pt) \<leftarrow> eipc_recv session_key msg;
          if pt = None then eipc_receive_loop tick session_key received False ch' m
          else do {
            m \<leftarrow> klog tick EipcReceive 2 (ucast (msg_seq msg)) (word_of_nat (ct_len msg)) m;
            received \<leftarrow> add_chk received 1;
            eipc_receive_loop tick session_key received all_ok ch' m } })"
  by pat_completeness auto
termination
  by (relation "measure (\<lambda>(t, k, r, a, ch, m). ch_count ch)") (auto simp: dequeue_decreases)

declare eipc_receive_loop.simps [simp del]

text \<open>The tamper test: is a message accepted in which one bit was flipped?\<close>

definition eipc_tamper_test :: "bytes \<Rightarrow> bool panics" where
  "eipc_tamper_test session_key =
     (let nonce = make_nonce 99; pt_tamper = ascii ''tamper test''; n = length pt_tamper in do {
        (tag, c) \<leftarrow> chacha20_poly1305_seal session_key nonce eipc_aad pt_tamper (take n (replicate 64 0));
        let ct_buf = copy_at 0 c (replicate 64 0);
            ct_buf = ct_buf[0 := ct_buf ! 0 XOR 0x01] in do {
        (ok, _) \<leftarrow> chacha20_poly1305_open session_key nonce eipc_aad (take n ct_buf) tag (take n (replicate 64 0));
        Some ok } })"

definition eipc_plaintexts :: "bytes list" where
  "eipc_plaintexts =
     map ascii [''Hello AXIOM! (message 1)'', ''TCD capability = session.'', ''Kernel sees: zero bits.'']"

record eipc_demo =
  cc20_ok :: bool
  eipc_received :: u32
  eipc_all_ok :: bool

definition eipc_run_demo :: "(nat \<Rightarrow> u64) \<Rightarrow> EipcChannel \<Rightarrow> MealLog \<Rightarrow> ((eipc_demo \<times> EipcChannel) \<times> MealLog) panics" where
  "eipc_run_demo tick ch m = do {
     cap_hash \<leftarrow> cap_chain_hash;
     session_key \<leftarrow> eipc_session_key cap_hash 1 2;
     (ch, m) \<leftarrow> eipc_send_loop tick session_key 1 eipc_plaintexts ch m;
     ((received, all_ok, ch), m) \<leftarrow> eipc_receive_loop tick session_key 0 True ch m;
     ok2 \<leftarrow> eipc_tamper_test session_key;
     Some ((\<lparr>cc20_ok = chacha20_self_test, eipc_received = received, eipc_all_ok = (if \<not> ok2 then all_ok else False)\<rparr>, ch), m) }"

fun sealed_messages :: "bytes \<Rightarrow> u32 \<Rightarrow> bytes list \<Rightarrow> EipcMessage list" where
  "sealed_messages key seq [] = []"
| "sealed_messages key seq (pt # pts) = sealed_message key seq pt # sealed_messages key (seq + 1) pts"

definition ipc_entry :: "AuditEvent \<Rightarrow> u32 \<Rightarrow> EipcMessage \<Rightarrow> entry" where
  "ipc_entry ev act msg = (ev, act, ucast (msg_seq msg), word_of_nat (ct_len msg))"

lemma sealed_message_simps [simp]:
  "msg_seq (sealed_message key seq pt) = seq" "ct_len (sealed_message key seq pt) = length pt"
  by (simp_all add: sealed_message_def Let_def)

lemma length_sealed_messages [simp]: "length (sealed_messages key seq pts) = length pts"
  by (induction pts arbitrary: seq) auto

lemma sealed_messages_recv:
  "\<forall>pt \<in> set pts. length pt \<le> 64 \<Longrightarrow> msg \<in> set (sealed_messages key seq pts) \<Longrightarrow>
   \<exists>pt. eipc_recv key msg = Some (msg_seq msg, Some pt)"
  by (induction pts arbitrary: seq) (auto simp: eipc_recv_sealed)

lemma send_loop_logs:
  assumes "ch_inv ch" "length (ch_list ch) + length pts \<le> CAP" "\<forall>pt \<in> set pts. length pt \<le> 64"
  shows "\<exists>ch'. logs tick (eipc_send_loop tick key seq pts ch) ch' (map (ipc_entry EipcSend 1) (sealed_messages key seq pts)) \<and>
    ch_inv ch' \<and> ch_list ch' = ch_list ch @ sealed_messages key seq pts"
  using assms
proof (induction pts arbitrary: ch seq)
  case Nil
  then show ?case by (intro exI[of _ ch]) (simp add: logs_return)
next
  case (Cons pt pts)
  then have room: "length (ch_list ch) < CAP" by simp
  obtain ch1 where 1: "EipcChannel_enqueue ch (sealed_message key seq pt) = Some (True, ch1)"
      "ch_inv ch1" "ch_list ch1 = ch_list ch @ [sealed_message key seq pt]"
    using eipc_queue.enq_room[OF Cons.prems(1) room] by blast
  obtain ch' where 2: "logs tick (eipc_send_loop tick key (seq + 1) pts ch1) ch'
        (map (ipc_entry EipcSend 1) (sealed_messages key (seq + 1) pts))"
      "ch_inv ch'" "ch_list ch' = ch_list ch1 @ sealed_messages key (seq + 1) pts"
    using Cons.IH[OF 1(2), of "seq + 1"] 1(3) Cons.prems(2,3) by auto
  have "eipc_send_loop tick key seq (pt # pts) ch =
      (\<lambda>m. do { m \<leftarrow> klog tick EipcSend 1 (ucast seq) (word_of_nat (length pt)) m; eipc_send_loop tick key (seq + 1) pts ch1 m })"
    using Cons.prems(3) 1(1) by (simp add: fun_eq_iff eipc_send_eq)
  with logs_after[OF 2(1), of EipcSend 1 "ucast seq" "word_of_nat (length pt)"] 1(3) 2(2,3)
  show ?case by (intro exI[of _ ch']) (simp add: ipc_entry_def[of _ _ "sealed_message key seq pt"])
qed

lemma receive_loop_logs:
  assumes "ch_inv ch" "\<forall>msg \<in> set (ch_list ch). \<exists>pt. eipc_recv key msg = Some (msg_seq msg, Some pt)"
    and "unat received + length (ch_list ch) < 2 ^ 32"
  shows "\<exists>ch'. logs tick (eipc_receive_loop tick key received all_ok ch) (received + word_of_nat (length (ch_list ch)), all_ok, ch')
      (map (ipc_entry EipcReceive 2) (ch_list ch)) \<and> ch_inv ch' \<and> ch_list ch' = []"
  using assms
proof (induction "ch_list ch" arbitrary: ch received)
  case Nil
  then have "eipc_receive_loop tick key received all_ok ch = (\<lambda>m. Some ((received, all_ok, ch), m))"
    using eipc_queue.deq_empty[of ch] by (simp add: eipc_receive_loop.simps[of _ _ _ _ ch] fun_eq_iff)
  with Nil show ?case by (intro exI[of _ ch]) (simp add: logs_return)
next
  case (Cons msg msgs)
  note l = Cons.hyps(2)[symmetric]
  obtain ch1 where 1: "EipcChannel_dequeue ch = Some (Some msg, ch1)" "ch_inv ch1" "ch_list ch1 = msgs"
    using eipc_queue.deq_first[OF Cons.prems(1) l] by blast
  have u: "unat (received + 1) = unat received + 1" "add_chk received 1 = Some (received + 1)"
    using Cons.prems(3) l by (simp_all add: unat_word_ariths add_chk_def)
  obtain ch' where 2: "logs tick (eipc_receive_loop tick key (received + 1) all_ok ch1)
        (received + 1 + word_of_nat (length msgs), all_ok, ch') (map (ipc_entry EipcReceive 2) msgs)"
      "ch_inv ch'" "ch_list ch' = []"
    using Cons.hyps(1)[OF 1(3)[symmetric] 1(2), of "received + 1"] 1(3) u(1) Cons.prems(2,3) l by auto
  obtain pt where "eipc_recv key msg = Some (msg_seq msg, Some pt)" using Cons.prems(2) l by auto
  with 1(1) u(2) have "eipc_receive_loop tick key received all_ok ch =
      (\<lambda>m. do { m \<leftarrow> klog tick EipcReceive 2 (ucast (msg_seq msg)) (word_of_nat (ct_len msg)) m;
                eipc_receive_loop tick key (received + 1) all_ok ch1 m })"
    by (simp add: eipc_receive_loop.simps[of _ _ _ _ ch] fun_eq_iff)
  with logs_after[OF 2(1), of EipcReceive 2 "ucast (msg_seq msg)" "word_of_nat (ct_len msg)"] 2(2,3) l
  show ?case by (intro exI[of _ ch']) (simp add: ipc_entry_def[of _ _ msg] add.assoc)
qed

text \<open>The tampered message passes only if the one-time authenticator collides.\<close>

definition flip_bit :: "bytes \<Rightarrow> bytes" where
  "flip_bit ct = ct[0 := ct ! 0 XOR 0x01]"

definition tamper_collides :: "bytes \<Rightarrow> bool" where
  "tamper_collides key \<longleftrightarrow>
     (let nonce = make_nonce 99; ct = stream_xor key nonce (ascii ''tamper test'')
      in poly1305_spec (otk key nonce) (mac_message eipc_aad (flip_bit ct)) = poly1305_spec (otk key nonce) (mac_message eipc_aad ct))"

lemma xor_1_neq: "x XOR 1 \<noteq> x" for x :: "'a::len word"
  by (metis one_neq_zero xor_self_eq xor.assoc xor.left_neutral)

lemma flip_bit_neq: "ct \<noteq> [] \<Longrightarrow> flip_bit ct \<noteq> ct"
  unfolding flip_bit_def by (metis length_greater_0_conv nth_list_update_eq xor_1_neq)

lemma tamper_test_eq: "eipc_tamper_test key = Some (tamper_collides key)"
proof -
  let ?pt = "ascii ''tamper test''" and ?n = "make_nonce 99"
  let ?ct = "stream_xor key ?n ?pt"
  have l: "length ?pt = 11" by simp
  have small: "length (flip_bit ?ct) \<le> 64" "length ?pt \<le> 64" by (simp_all add: flip_bit_def)
  have seal: "chacha20_poly1305_seal key ?n eipc_aad ?pt (replicate 11 0) = Some (seal_tag key ?n eipc_aad ?ct, ?ct)"
    using seal_eq[OF _ small_message(1)[OF small(2)] aad_len, of "replicate 11 0" key ?n] by (simp add: Let_def)
  have "(copy_at 0 ?ct (replicate 64 0))[0 := copy_at 0 ?ct (replicate 64 0) ! 0 XOR 1] = flip_bit ?ct @ replicate 53 0"
    by (simp add: copy_at_def flip_bit_def nth_append list_update_append)
  then have taken: "take 11 ((copy_at 0 ?ct (replicate 64 0))[0 := copy_at 0 ?ct (replicate 64 0) ! 0 XOR 1]) = flip_bit ?ct"
    by (simp add: flip_bit_def)
  have "chacha20_poly1305_open key ?n eipc_aad (flip_bit ?ct) (seal_tag key ?n eipc_aad ?ct) (replicate 11 0) =
      Some (if seal_tag key ?n eipc_aad ?ct = seal_tag key ?n eipc_aad (flip_bit ?ct)
        then (True, stream_xor key ?n (flip_bit ?ct)) else (False, replicate 11 0))"
    using open_eq[OF _ small_message(1)[OF small(1)] aad_len, of "replicate 11 0" "seal_tag key ?n eipc_aad ?ct" key ?n]
    by (simp add: seal_tag_def flip_bit_def)
  with seal taken show ?thesis
    unfolding eipc_tamper_test_def Let_def l tamper_collides_def by (auto simp: seal_tag_def)
qed

text \<open>The key both sides derive, and the outcome of the demonstration.\<close>

definition eipc_demo_key :: bytes where
  "eipc_demo_key = hmac_spec (hmac_spec (replicate 32 0) (sha256_spec (ascii ''AXIOM-EIPC-DEMO-CAP-CHAIN-v4''))) (eipc_info 1 2 @ [0x01])"

definition eipc_outcome :: eipc_demo where
  "eipc_outcome = \<lparr>cc20_ok = chacha20_self_test, eipc_received = 3, eipc_all_ok = (\<not> tamper_collides eipc_demo_key)\<rparr>"

definition eipc_entries :: "entry list" where
  "eipc_entries = [(EipcSend, 1, 1, 24), (EipcSend, 1, 2, 25), (EipcSend, 1, 3, 23),
     (EipcReceive, 2, 1, 24), (EipcReceive, 2, 2, 25), (EipcReceive, 2, 3, 23)]"

lemma eipc_run_demo_logs:
  assumes "ch_inv ch" "ch_list ch = []"
  shows "\<exists>ch'. logs tick (eipc_run_demo tick ch) (eipc_outcome, ch') eipc_entries \<and> ch_inv ch' \<and> ch_list ch' = []"
proof -
  let ?k = eipc_demo_key and ?ms = "sealed_messages eipc_demo_key 1 eipc_plaintexts"
  define final where "final = (\<lambda>(received, all_ok, ch) m :: MealLog.
    Some ((\<lparr>cc20_ok = chacha20_self_test, eipc_received = received,
            eipc_all_ok = (if \<not> tamper_collides ?k then all_ok else False)\<rparr>, ch :: EipcChannel), m))"
  have h: "cap_chain_hash = Some (sha256_spec (ascii ''AXIOM-EIPC-DEMO-CAP-CHAIN-v4''))"
    unfolding cap_chain_hash_def by (rule sha256_eq_spec) simp
  have k: "eipc_session_key (sha256_spec (ascii ''AXIOM-EIPC-DEMO-CAP-CHAIN-v4'')) 1 2 = Some ?k"
    unfolding eipc_demo_key_def by (rule eipc_session_key_eq) simp
  have key: "eipc_run_demo tick ch = (\<lambda>m. do {
      (ch, m) \<leftarrow> eipc_send_loop tick ?k 1 eipc_plaintexts ch m;
      (r, m) \<leftarrow> eipc_receive_loop tick ?k 0 True ch m;
      final r m })"
    by (simp add: eipc_run_demo_def h k tamper_test_eq fun_eq_iff final_def del: ascii_def)
  have pts: "\<forall>pt \<in> set eipc_plaintexts. length pt \<le> 64" "length eipc_plaintexts = 3" by (simp_all add: eipc_plaintexts_def)
  obtain ch1 where s: "logs tick (eipc_send_loop tick ?k 1 eipc_plaintexts ch) ch1 (map (ipc_entry EipcSend 1) ?ms)"
      "ch_inv ch1" "ch_list ch1 = ?ms"
    using send_loop_logs[OF assms(1) _ pts(1), of tick ?k 1] assms(2) pts(2) by (auto simp: CAP_def)
  obtain ch' where r: "logs tick (eipc_receive_loop tick ?k 0 True ch1) (3, True, ch') (map (ipc_entry EipcReceive 2) ?ms)"
      "ch_inv ch'" "ch_list ch' = []"
    using receive_loop_logs[OF s(2), of ?k 0 tick True] sealed_messages_recv[OF pts(1)] s(3) pts(2) by auto
  have "map (ipc_entry EipcSend 1) ?ms @ map (ipc_entry EipcReceive 2) ?ms @ [] = eipc_entries"
    by (simp add: eipc_plaintexts_def ipc_entry_def eipc_entries_def)
  moreover have f: "logs tick (final (3, True, ch')) (eipc_outcome, ch') []"
    using logs_return[of tick "(eipc_outcome, ch')"] by (simp add: final_def eipc_outcome_def if_bool_eq_conj)
  from logs_bind[OF s(1), of "\<lambda>ch m. do { (r, m) \<leftarrow> eipc_receive_loop tick ?k 0 True ch m; final r m }",
      OF logs_bind[OF r(1), where g = final, OF f]]
  have "logs tick (eipc_run_demo tick ch) (eipc_outcome, ch') (map (ipc_entry EipcSend 1) ?ms @ map (ipc_entry EipcReceive 2) ?ms @ [])"
    unfolding key .
  ultimately show ?thesis using r(2,3) by auto
qed

section \<open>Memory zeroing\<close>

definition vmz_secret :: bytes where
  "vmz_secret = map (\<lambda>i. word_of_nat i * 0xA5 + 0x3C) [0..<64]"

record vmz_demo =
  vmz_clean :: bool
  vmz_bad_off :: nat
  vmz_bad_val :: u8
  vmz_hashes_differ :: bool

text \<open>\<open>addr\<close> is where the heap puts the buffer.\<close>

definition vmz_run_demo :: "(nat \<Rightarrow> u64) \<Rightarrow> u64 \<Rightarrow> mem \<Rightarrow> MealLog \<Rightarrow> ((vmz_demo \<times> mem) \<times> MealLog) panics" where
  "vmz_run_demo tick addr mem m =
     (let mem = store_bytes mem addr vmz_secret in do {
        secret_hash \<leftarrow> sha256 (load_bytes mem addr 64);
        let mem = zero_region mem addr 64; (clean, bad_off, bad_val) = verify_zeroed mem addr 64 in do {
        zero_hash \<leftarrow> sha256 (load_bytes mem addr 64);
        m \<leftarrow> klog tick MemoryZeroed 0 addr 64 m;
        Some ((\<lparr>vmz_clean = clean, vmz_bad_off = bad_off, vmz_bad_val = bad_val,
                vmz_hashes_differ = (secret_hash \<noteq> zero_hash)\<rparr>, mem), m) } })"

definition vmz_outcome :: vmz_demo where
  "vmz_outcome = \<lparr>vmz_clean = True, vmz_bad_off = 0, vmz_bad_val = 0,
     vmz_hashes_differ = (sha256_spec vmz_secret \<noteq> sha256_spec (replicate 64 0))\<rparr>"

lemma vmz_run_demo_logs:
  "logs tick (vmz_run_demo tick addr mem)
     (vmz_outcome, \<lambda>x. if in_range addr 64 x then 0 else mem x) [(MemoryZeroed, 0, addr, 64)]"
proof -
  let ?z = "zero_region (store_bytes mem addr vmz_secret) addr 64"
  have l: "length vmz_secret = 64" by (simp add: vmz_secret_def)
  have s: "load_bytes (store_bytes mem addr vmz_secret) addr 64 = vmz_secret" by (rule load_store_same) (simp_all add: l)
  have z: "?z = (\<lambda>x. if in_range addr 64 x then 0 else mem x)"
    using store_bytes_out[of addr vmz_secret _ mem] l by (auto simp: zero_region_eq fun_eq_iff in_range_def)
  have r: "load_bytes ?z addr 64 = replicate 64 0"
    by (simp add: replicate_0_iff zero_region_eq in_range_def unat_of_nat)
  have v: "verify_zeroed ?z addr 64 = (True, 0, 0)" by (simp add: verify_zeroed_def r verify_loop_clean)
  have h: "sha256 vmz_secret = Some (sha256_spec vmz_secret)" "sha256 (replicate 64 0) = Some (sha256_spec (replicate 64 0))"
    by (rule sha256_eq_spec, simp add: l)+
  have "vmz_run_demo tick addr mem = (\<lambda>m. do { m \<leftarrow> klog tick MemoryZeroed 0 addr 64 m; Some ((vmz_outcome, ?z), m) })"
    by (rule ext) (simp only: vmz_run_demo_def Let_def s r v h bind.bind_lunit prod.case vmz_outcome_def)
  then show ?thesis unfolding z by (simp only: logs_klog)
qed

section \<open>The security lattice\<close>

text \<open>An access check is a subject, an object and whether it reads; the outcome and whether it is the
  expected one.\<close>

definition blp_check :: "SecurityLattice \<Rightarrow> u8 \<times> u8 \<times> bool \<Rightarrow> (bool \<times> bool) panics" where
  "blp_check lat = (\<lambda>(subject, object, reading). do {
     result \<leftarrow> (if reading then SecurityLattice_may_read lat (Label subject) (Label object)
               else SecurityLattice_may_write lat (Label subject) (Label object));
     let expected = (if reading then object \<le> subject else subject \<le> object) in
     Some (result, result = expected) })"

definition blp_checks :: "(u8 \<times> u8 \<times> bool) list" where
  "blp_checks = [(2, 1, True), (1, 2, True), (1, 2, False), (2, 1, False), (3, 0, True), (0, 3, False)]"

definition name_or_none :: "SecurityLattice \<Rightarrow> Label option \<Rightarrow> bytes panics" where
  "name_or_none lat l = (case l of Some l \<Rightarrow> SecurityLattice_node_name lat l | None \<Rightarrow> Some (ascii ''none''))"

text \<open>A row of the table of joins and meets: the two names and those of the join and the meet.\<close>

definition join_meet_row :: "SecurityLattice \<Rightarrow> u8 \<times> u8 \<Rightarrow> (bytes \<times> bytes \<times> bytes \<times> bytes) panics" where
  "join_meet_row lat = (\<lambda>(a, b). do {
     ja \<leftarrow> SecurityLattice_join lat (Label a) (Label b);
     ma \<leftarrow> SecurityLattice_meet lat (Label a) (Label b);
     na \<leftarrow> SecurityLattice_node_name lat (Label a);
     nb \<leftarrow> SecurityLattice_node_name lat (Label b);
     nj \<leftarrow> name_or_none lat ja;
     nm \<leftarrow> name_or_none lat ma;
     Some (na, nb, nj, nm) })"

record lattice_demo =
  lat_names :: "bytes \<times> bytes"
  lat_verdict :: "bool \<times> string"
  lat_accesses :: "(bool \<times> bool) list"
  lat_rows :: "(bytes \<times> bytes \<times> bytes \<times> bytes) list"
  lat_new_verdict :: "bool \<times> string"
  lat_sci_above :: bool
  lat_sci_below :: bool
  lat_bad_verdict :: "bool \<times> string"

definition lattice_run_demo :: "(nat \<Rightarrow> u64) \<Rightarrow> SecurityLattice \<Rightarrow> MealLog \<Rightarrow> ((lattice_demo \<times> SecurityLattice) \<times> MealLog) panics" where
  "lattice_run_demo tick lat m = do {
     bot \<leftarrow> SecurityLattice_node_name lat (Label 0);
     topn \<leftarrow> SecurityLattice_node_name lat (Label 3);
     verdict \<leftarrow> SecurityLattice_verify lat;
     accesses \<leftarrow> those (map (blp_check lat) blp_checks);
     rows \<leftarrow> those (map (join_meet_row lat) [(1, 2), (0, 3), (2, 2), (0, 0)]);
     let lat = add_ts_sci lat in do {
     new_verdict \<leftarrow> SecurityLattice_verify lat;
     above \<leftarrow> SecurityLattice_dominates lat (Label 4) (Label 3);
     below \<leftarrow> SecurityLattice_dominates lat (Label 3) (Label 4);
     m \<leftarrow> klog tick LatticeReconfigured 0 5 0 m;
     bad_verdict \<leftarrow> SecurityLattice_verify bad_lattice;
     Some ((\<lparr>lat_names = (bot, topn), lat_verdict = verdict, lat_accesses = accesses, lat_rows = rows,
             lat_new_verdict = new_verdict, lat_sci_above = above, lat_sci_below = below, lat_bad_verdict = bad_verdict\<rparr>, lat), m) } }"

definition lattice_outcome :: lattice_demo where
  "lattice_outcome =
     (let U = ascii ''Unclassified''; C = ascii ''Confidential''; S = ascii ''Secret''; T = ascii ''TopSecret''
      in \<lparr>lat_names = (U, T), lat_verdict = (True, []),
          lat_accesses = [(True, True), (False, True), (True, True), (False, True), (True, True), (True, True)],
          lat_rows = [(C, S, S, C), (U, T, T, U), (S, S, S, S), (U, U, U, U)],
          lat_new_verdict = (True, []), lat_sci_above = True, lat_sci_below = False,
          lat_bad_verdict = (False, ''transitivity violated'')\<rparr>)"

lemma lattice_demo_facts:
  "map (SecurityLattice_node_name SecurityLattice_default_blp) [Label 0, Label 3] = map Some [ascii ''Unclassified'', ascii ''TopSecret'']"
  "those (map (blp_check SecurityLattice_default_blp) blp_checks) = Some (lat_accesses lattice_outcome)"
  "those (map (join_meet_row SecurityLattice_default_blp) [(1, 2), (0, 3), (2, 2), (0, 0)]) = Some (lat_rows lattice_outcome)"
  "SecurityLattice_verify bad_lattice = Some (False, ''transitivity violated'')"
  by code_simp+

lemma lattice_run_demo_logs:
  "logs tick (lattice_run_demo tick SecurityLattice_default_blp)
     (lattice_outcome, add_ts_sci SecurityLattice_default_blp) [(LatticeReconfigured, 0, 5, 0)]"
proof -
  let ?l = SecurityLattice_default_blp
  have n: "lat_count ?l = 4" "unat (lat_bottom ?l) < 4" by (simp_all add: default_blp_simps)
  note new = reconfigured_accepted[OF default_blp_accepted default_matrix8 n]
  have r: "accepted (add_ts_sci ?l)" "SecurityLattice_dominates (add_ts_sci ?l) (Label 4) (Label 3) = Some True"
      "SecurityLattice_dominates (add_ts_sci ?l) (Label 3) (Label 4) = Some False"
    using new[THEN conjunct1] new[THEN conjunct2, THEN conjunct2, rule_format, of 3] by simp_all
  have "lattice_run_demo tick ?l = (\<lambda>m. do { m \<leftarrow> klog tick LatticeReconfigured 0 5 0 m; Some ((lattice_outcome, add_ts_sci ?l), m) })"
    using r default_blp_accepted lattice_demo_facts
    by (simp add: lattice_run_demo_def accepted_def Let_def fun_eq_iff) (simp add: lattice_outcome_def Let_def)
  then show ?thesis by (simp only: logs_klog)
qed

section \<open>Drivers\<close>

text \<open>The three loops over a driver's operations: they end at the first answer other than \<open>Ok\<close>, which
  each reports to the log in its own way, if at all.\<close>

fun driver_loop :: "(nat \<Rightarrow> u64) \<Rightarrow> (DriverResult \<Rightarrow> u32 \<Rightarrow> (AuditEvent \<times> u64 \<times> u64) option) \<Rightarrow> ZtdfChecker \<Rightarrow> DriverOp list \<Rightarrow>
    MealLog \<Rightarrow> ((DriverResult option \<times> u32) \<times> MealLog) panics" where
  "driver_loop tick report c [] m = Some ((None, ops_done c), m)"
| "driver_loop tick report c (op # ops) m = do {
     (r, c) \<leftarrow> ZtdfChecker_step c op;
     if r = DriverOk then driver_loop tick report c ops m
     else do {
       m \<leftarrow> (case report r (ops_done c) of
              Some (ev, a, b) \<Rightarrow> klog tick ev (driver_id (checker_spec c)) a b m | None \<Rightarrow> Some m);
       Some ((Some r, ops_done c), m) } }"

definition uart_report :: "DriverResult \<Rightarrow> u32 \<Rightarrow> (AuditEvent \<times> u64 \<times> u64) option" where
  "uart_report r n = (case r of Stopped \<Rightarrow> Some (DriverStopped, ucast n, 0) | _ \<Rightarrow> None)"

definition mal_report :: "DriverResult \<Rightarrow> u32 \<Rightarrow> (AuditEvent \<times> u64 \<times> u64) option" where
  "mal_report r n = (case r of FaultMmio a \<Rightarrow> Some (DriverFaultMmio, a, ucast n) | _ \<Rightarrow> None)"

definition esc_report :: "DriverResult \<Rightarrow> u32 \<Rightarrow> (AuditEvent \<times> u64 \<times> u64) option" where
  "esc_report r n = (case r of FaultSyscall nr \<Rightarrow> Some (DriverFaultSyscall, nr, ucast n) | _ \<Rightarrow> None)"

definition uart_ops :: "DriverOp list" where
  "uart_ops = [HandleIrq 4, MmioRead 0x3F8, MmioWrite 0x3F8, Syscall 1, Exit]"

definition mal_ops :: "DriverOp list" where
  "mal_ops = [MmioRead 0x1000, MmioWrite 0xFEE00000]"

definition esc_ops :: "DriverOp list" where
  "esc_ops = [Syscall 0, Syscall 8]"

definition ztdf_run_demo :: "(nat \<Rightarrow> u64) \<Rightarrow> MealLog \<Rightarrow> ((DriverResult option \<times> u32) list \<times> MealLog) panics" where
  "ztdf_run_demo tick m = do {
     m \<leftarrow> klog tick DriverLoaded (driver_id uart_spec) 0 0 m;
     (r1, m) \<leftarrow> driver_loop tick uart_report (ZtdfChecker_new uart_spec) uart_ops m;
     m \<leftarrow> klog tick DriverLoaded (driver_id mal_spec) 0 0 m;
     (r2, m) \<leftarrow> driver_loop tick mal_report (ZtdfChecker_new mal_spec) mal_ops m;
     m \<leftarrow> klog tick DriverLoaded (driver_id esc_spec) 0 0 m;
     (r3, m) \<leftarrow> driver_loop tick esc_report (ZtdfChecker_new esc_spec) esc_ops m;
     Some ([r1, r2, r3], m) }"

text \<open>The loop is the monitor of the driver framework with a report at the end.\<close>

lemma driver_loop_eq:
  "run_monitor ZtdfChecker_step DriverOk c ops = Some (done, r, c') \<Longrightarrow>
   driver_loop tick report c ops = (\<lambda>m. do {
     m \<leftarrow> (case Option.bind r (\<lambda>r. report r (ops_done c')) of
            Some (ev, a, b) \<Rightarrow> klog tick ev (driver_id (checker_spec c')) a b m | None \<Rightarrow> Some m);
     Some ((r, ops_done c'), m) })"
  by (induction ops arbitrary: c "done") (auto simp: fun_eq_iff bind_eq_Some_conv split: if_splits)

lemma driver_loop_logs:
  assumes "run_monitor ZtdfChecker_step DriverOk c ops = Some (done, Some r, c')" "report r (ops_done c') = Some (ev, a, b)"
  shows "logs tick (driver_loop tick report c ops) (Some r, ops_done c') [(ev, driver_id (checker_spec c'), a, b)]"
  using driver_loop_eq[OF assms(1), of tick report] assms(2) by (simp add: logs_klog)

lemma driver_runs:
  "run_monitor ZtdfChecker_step DriverOk (ZtdfChecker_new uart_spec) uart_ops =
     Some (take 4 uart_ops, Some Stopped, \<lparr>checker_spec = uart_spec, ops_done = 4\<rparr>)"
  "run_monitor ZtdfChecker_step DriverOk (ZtdfChecker_new mal_spec) mal_ops =
     Some (take 1 mal_ops, Some (FaultMmio 0xFEE00000), \<lparr>checker_spec = mal_spec, ops_done = 1\<rparr>)"
  "run_monitor ZtdfChecker_step DriverOk (ZtdfChecker_new esc_spec) esc_ops =
     Some (take 1 esc_ops, Some (FaultSyscall 8), \<lparr>checker_spec = esc_spec, ops_done = 1\<rparr>)"
proof -
  have ok: "DriverSpec_ok uart_spec" "DriverSpec_ok mal_spec" "DriverSpec_ok esc_spec"
    by (simp_all add: DriverSpec_ok_def uart_spec_def mal_spec_def esc_spec_def region_ok_def MAX_MMIO_def)
  have u: "list_all (op_allowed uart_spec) (take 4 uart_ops)"
    by (simp add: uart_ops_def uart_spec_def)
  show "run_monitor ZtdfChecker_step DriverOk (ZtdfChecker_new uart_spec) uart_ops =
     Some (take 4 uart_ops, Some Stopped, \<lparr>checker_spec = uart_spec, ops_done = 4\<rparr>)"
    using ok(1) u by (simp add: uart_ops_def ZtdfChecker_new_def step_allowed step_forbidden del: op_allowed.simps(1-4) ZtdfChecker_step.simps)
  have m: "op_allowed mal_spec (MmioRead 0x1000)" "\<not> op_allowed mal_spec (MmioWrite 0xFEE00000)"
    by (simp_all add: mal_spec_def)
  show "run_monitor ZtdfChecker_step DriverOk (ZtdfChecker_new mal_spec) mal_ops =
     Some (take 1 mal_ops, Some (FaultMmio 0xFEE00000), \<lparr>checker_spec = mal_spec, ops_done = 1\<rparr>)"
    using ok(2) m by (simp add: mal_ops_def ZtdfChecker_new_def step_allowed step_forbidden del: op_allowed.simps ZtdfChecker_step.simps)
  have e: "op_allowed esc_spec (Syscall 0)" "\<not> op_allowed esc_spec (Syscall 8)"
    by (simp_all add: esc_spec_def)
  show "run_monitor ZtdfChecker_step DriverOk (ZtdfChecker_new esc_spec) esc_ops =
     Some (take 1 esc_ops, Some (FaultSyscall 8), \<lparr>checker_spec = esc_spec, ops_done = 1\<rparr>)"
    using ok(3) e by (simp add: esc_ops_def ZtdfChecker_new_def step_allowed step_forbidden del: op_allowed.simps ZtdfChecker_step.simps)
qed

definition ztdf_outcome :: "(DriverResult option \<times> u32) list" where
  "ztdf_outcome = [(Some Stopped, 4), (Some (FaultMmio 0xFEE00000), 1), (Some (FaultSyscall 8), 1)]"

definition ztdf_entries :: "entry list" where
  "ztdf_entries = [(DriverLoaded, 1, 0, 0), (DriverStopped, 1, 4, 0), (DriverLoaded, 2, 0, 0),
     (DriverFaultMmio, 2, 0xFEE00000, 1), (DriverLoaded, 3, 0, 0), (DriverFaultSyscall, 3, 8, 1)]"

lemma ztdf_run_demo_logs: "logs tick (ztdf_run_demo tick) ztdf_outcome ztdf_entries"
proof -
  have 1: "logs tick (driver_loop tick uart_report (ZtdfChecker_new uart_spec) uart_ops) (Some Stopped, 4) [(DriverStopped, 1, 4, 0)]"
    using driver_loop_logs[OF driver_runs(1), of uart_report] by (simp add: uart_report_def uart_spec_def)
  have 2: "logs tick (driver_loop tick mal_report (ZtdfChecker_new mal_spec) mal_ops) (Some (FaultMmio 0xFEE00000), 1)
      [(DriverFaultMmio, 2, 0xFEE00000, 1)]"
    using driver_loop_logs[OF driver_runs(2), of mal_report] by (simp add: mal_report_def mal_spec_def)
  have 3: "logs tick (driver_loop tick esc_report (ZtdfChecker_new esc_spec) esc_ops) (Some (FaultSyscall 8), 1)
      [(DriverFaultSyscall, 3, 8, 1)]"
    using driver_loop_logs[OF driver_runs(3), of esc_report] by (simp add: esc_report_def esc_spec_def)
  have ids: "driver_id uart_spec = 1" "driver_id mal_spec = 2" "driver_id esc_spec = 3"
    by (simp_all add: uart_spec_def mal_spec_def esc_spec_def)
  have r: "logs tick (\<lambda>m. Some ([(Some Stopped, 4), (Some (FaultMmio 0xFEE00000), 1), (Some (FaultSyscall 8), 1)], m)) ztdf_outcome []"
    using logs_return[of tick ztdf_outcome] by (simp add: ztdf_outcome_def)
  show ?thesis
    unfolding ztdf_run_demo_def ids ztdf_entries_def
    by (rule logs_after, rule logs_bind[OF 1, of _ _ "_ # _", unfolded append_Cons append_Nil], rule logs_after,
        rule logs_bind[OF 2, of _ _ "_ # _", unfolded append_Cons append_Nil], rule logs_after,
        rule logs_bind[OF 3, of _ _ "[]", unfolded append_Cons append_Nil], rule r)
qed

section \<open>Properties\<close>

lemma boot_log_new: "\<exists>m. MealLog_new K_AUDIT = Some m \<and> boot_log tick [] m"
  using refines_new[of K_AUDIT] by (auto simp: boot_log_def)

lemma eipc_demo_log: "\<exists>ch. logs tick (eipc_run_demo tick EipcChannel_new) (eipc_outcome, ch) eipc_entries \<and> ch_list ch = []"
  using eipc_run_demo_logs[of EipcChannel_new tick] eipc_queue.empty_law by auto

text \<open>The demonstrations of the boot come out as the kernel announces. Whatever the log holds and
  whenever the timer ticks, each of them returns without panic and adds exactly its entries to the
  log. The capability is valid, is derived from, refuses escalation, expires and rejects a forged
  MAC; three messages arrive and the channel is empty; the buffer reads as zeros and nothing
  around it changed; the lattice is valid, answers the accesses as Bell and LaPadula say, accepts
  the fifth level and the broken lattice is rejected; the first driver stops by itself, the others
  at their first forbidden access. The tampered message and the wrong key are rejected unless
  Poly1305 and HMAC collide.\<close>

theorem demonstrations_succeed:
  assumes "boot_log tick es m" "length es + 10 < 1000"
  shows "(\<exists>m'. demonstrate tick m = Some (tcd_outcome, m') \<and> boot_log tick (es @ tcd_entries) m') \<and>
    (\<exists>ch m'. eipc_run_demo tick EipcChannel_new m = Some ((eipc_outcome, ch), m') \<and> ch_list ch = [] \<and> boot_log tick (es @ eipc_entries) m') \<and>
    (\<exists>m'. vmz_run_demo tick addr mem m = Some ((vmz_outcome, \<lambda>x. if in_range addr 64 x then 0 else mem x), m') \<and>
      boot_log tick (es @ [(MemoryZeroed, 0, addr, 64)]) m') \<and>
    (\<exists>m'. lattice_run_demo tick SecurityLattice_default_blp m =
        Some ((lattice_outcome, add_ts_sci SecurityLattice_default_blp), m') \<and>
      boot_log tick (es @ [(LatticeReconfigured, 0, 5, 0)]) m') \<and>
    (\<exists>m'. ztdf_run_demo tick m = Some (ztdf_outcome, m') \<and> boot_log tick (es @ ztdf_entries) m')"
proof -
  have l: "length tcd_entries = 2" "length eipc_entries = 6" "length ztdf_entries = 6"
    by (simp_all add: tcd_entries_def eipc_entries_def ztdf_entries_def)
  obtain ch where ch: "logs tick (eipc_run_demo tick EipcChannel_new) (eipc_outcome, ch) eipc_entries" "ch_list ch = []"
    using eipc_demo_log by blast
  show ?thesis
    using logsD[OF demonstrate_logs assms(1)] logsD[OF ch(1) assms(1)] ch(2) logsD[OF vmz_run_demo_logs assms(1)]
      logsD[OF lattice_run_demo_logs assms(1)] logsD[OF ztdf_run_demo_logs assms(1)] assms(2)
    unfolding l by simp blast
qed

theorem demonstrations_succeed_witness:
  "\<exists>m m'. MealLog_new K_AUDIT = Some m \<and> demonstrate (\<lambda>n. word_of_nat n) m = Some (tcd_outcome, m') \<and>
     verify_500 tcd_outcome \<and> \<not> verify_forged tcd_outcome \<and> escalated_child tcd_outcome = None"
proof -
  obtain m where "MealLog_new K_AUDIT = Some m" "boot_log (\<lambda>n. word_of_nat n) [] m" using boot_log_new by blast
  with demonstrations_succeed[of "\<lambda>n. word_of_nat n" "[]" m] show ?thesis by (auto simp: tcd_outcome_def)
qed

end
