(* ===== verification/Net.thy ===== *)
theory Net
  imports Ztdf Eipc
begin

unbundle bit_operations_syntax

text \<open>
  The network stack (\<open>kernel/src/net.rs\<close>): header types, parsers and the serialiser, the
  receive pipeline, the registration of the network card under the driver framework, and the
  datagram that carries encrypted IPC. Sending and receiving are shown to be inverse.
\<close>

section \<open>Ethernet\<close>

datatype MacAddr = MacAddr (mac_bytes: bytes)

definition MacAddr_BROADCAST :: MacAddr where "MacAddr_BROADCAST = MacAddr (replicate 6 0xFF)"
definition MacAddr_ZERO :: MacAddr where "MacAddr_ZERO = MacAddr (replicate 6 0)"

definition MacAddr_is_broadcast :: "MacAddr \<Rightarrow> bool" where
  "MacAddr_is_broadcast m = (m = MacAddr_BROADCAST)"

datatype EtherType = IPv4 | ARP | IPv6 | OtherType u16

definition EtherType_from_u16 :: "u16 \<Rightarrow> EtherType" where
  "EtherType_from_u16 v =
     (if v = 0x0800 then IPv4 else if v = 0x0806 then ARP else if v = 0x86DD then IPv6 else OtherType v)"

record EtherFrame =
  eth_dst :: MacAddr
  eth_src :: MacAddr
  ethertype :: EtherType

definition EtherFrame_parse :: "bytes \<Rightarrow> (EtherFrame \<times> bytes) option" where
  "EtherFrame_parse bs =
     (if length bs < 14 then None
      else Some (\<lparr>eth_dst = MacAddr (slice 0 6 bs), eth_src = MacAddr (slice 6 12 bs),
                  ethertype = EtherType_from_u16 (from_be_bytes (slice 12 14 bs))\<rparr>, drop 14 bs))"

fun ethertype_code :: "EtherType \<Rightarrow> u16" where
  "ethertype_code IPv4 = 0x0800"
| "ethertype_code ARP = 0x0806"
| "ethertype_code IPv6 = 0x86DD"
| "ethertype_code (OtherType v) = v"

definition EtherFrame_serialize :: "EtherFrame \<Rightarrow> bytes \<Rightarrow> bytes panics" where
  "EtherFrame_serialize f dst_buf =
     (if length dst_buf < 14 then None
      else let b = copy_at 0 (mac_bytes (eth_dst f)) dst_buf;
               b = copy_at 6 (mac_bytes (eth_src f)) b
           in Some (copy_at 12 (to_be_bytes 2 (ethertype_code (ethertype f))) b))"

section \<open>IPv4 and UDP\<close>

datatype Ipv4Addr = Ipv4Addr (ip_bytes: bytes)

datatype IpProto = ICMP | TCP | UDP | OtherProto u8

definition IpProto_from_u8 :: "u8 \<Rightarrow> IpProto" where
  "IpProto_from_u8 v = (if v = 1 then ICMP else if v = 6 then TCP else if v = 17 then UDP else OtherProto v)"

record Ipv4Header =
  version_ihl :: u8
  dscp_ecn :: u8
  total_len :: u16
  ip_id :: u16
  flags_frag :: u16
  ttl :: u8
  protocol :: IpProto
  ip_checksum :: u16
  ip_src :: Ipv4Addr
  ip_dst :: Ipv4Addr

definition Ipv4Header_parse :: "bytes \<Rightarrow> (Ipv4Header \<times> bytes) option" where
  "Ipv4Header_parse bs =
     (if length bs < 20 then None
      else let ihl = unat (bs ! 0 AND 0xF) * 4 in
        if length bs < ihl then None
        else Some (\<lparr>version_ihl = bs ! 0, dscp_ecn = bs ! 1,
               total_len = from_be_bytes (slice 2 4 bs), ip_id = from_be_bytes (slice 4 6 bs),
               flags_frag = from_be_bytes (slice 6 8 bs), ttl = bs ! 8, protocol = IpProto_from_u8 (bs ! 9),
               ip_checksum = from_be_bytes (slice 10 12 bs), ip_src = Ipv4Addr (slice 12 16 bs),
               ip_dst = Ipv4Addr (slice 16 20 bs)\<rparr>, drop ihl bs))"

record UdpHeader =
  src_port :: u16
  dst_port :: u16
  udp_length :: u16
  udp_checksum :: u16

definition UdpHeader_parse :: "bytes \<Rightarrow> (UdpHeader \<times> bytes) option" where
  "UdpHeader_parse bs =
     (if length bs < 8 then None
      else Some (\<lparr>src_port = from_be_bytes (slice 0 2 bs), dst_port = from_be_bytes (slice 2 4 bs),
                  udp_length = from_be_bytes (slice 4 6 bs), udp_checksum = from_be_bytes (slice 6 8 bs)\<rparr>, drop 8 bs))"

section \<open>The receive pipeline\<close>

definition process_frame :: "bytes \<Rightarrow> string" where
  "process_frame frame_bytes =
     (case EtherFrame_parse frame_bytes of
        None \<Rightarrow> ''invalid frame''
      | Some (eth, data) \<Rightarrow>
          (case ethertype eth of
             ARP \<Rightarrow> ''ARP''
           | IPv4 \<Rightarrow>
               (case Ipv4Header_parse data of
                  None \<Rightarrow> ''invalid IPv4''
                | Some (ip, ip_payload) \<Rightarrow>
                    (case protocol ip of
                       UDP \<Rightarrow> (case UdpHeader_parse ip_payload of None \<Rightarrow> ''invalid UDP'' | Some _ \<Rightarrow> ''UDP datagram'')
                     | ICMP \<Rightarrow> ''ICMP''
                     | TCP \<Rightarrow> ''TCP (not supported)''
                     | _ \<Rightarrow> ''unknown IP proto''))
           | _ \<Rightarrow> ''unknown ethertype''))"

section \<open>The network card\<close>

definition virtio_net_driver_spec :: DriverSpec where
  "virtio_net_driver_spec = \<lparr>driver_id = 10, driver_name = copy_at 0 (ascii ''virtio-net0'') (replicate 16 0),
     mmio = [Some \<lparr>region_start = 0xFEBC0000, region_len = 0x1000\<rparr>, None, None, None],
     allowed_irqs = [Some 11, None, None, None],
     allowed_syscalls = [Some 1, Some 2, Some 12, Some 13, None, None, None, None], op_budget = 0\<rparr>"

definition nic_init_ops :: "DriverOp list" where
  "nic_init_ops = [MmioRead 0xFEBC0000, MmioRead 0xFEBC0004, MmioWrite 0xFEBC0014, HandleIrq 11, Syscall 1]"

text \<open>\<open>register_nic_with_ztdf\<close>: whether the initialisation sequence went through. The event it logs is
  the first component.\<close>

definition register_nic_with_ztdf :: "(u32 \<times> bool) panics" where
  "register_nic_with_ztdf = do {
     (_, r, _) \<leftarrow> run_monitor ZtdfChecker_step DriverOk (ZtdfChecker_new virtio_net_driver_spec) nic_init_ops;
     Some (driver_id virtio_net_driver_spec, r = None \<or> r = Some Stopped) }"

section \<open>Sending\<close>

definition QEMU_MAC :: bytes where "QEMU_MAC = [0x52, 0x54, 0x00, 0x12, 0x34, 0x56]"

text \<open>The frame that \<open>transmit_eipc_udp\<close> builds. The additions on lengths are checked, the conversions
  to 16 bits truncate.\<close>

definition transmit_eipc_udp :: "bytes \<Rightarrow> bytes \<Rightarrow> u16 \<Rightarrow> u16 \<Rightarrow> bytes \<Rightarrow> bytes panics" where
  "transmit_eipc_udp src_ip dst_ip sport dport data =
     (let total = 14 + 20 + 8 + length data in
      if 2 ^ 64 \<le> total then None
      else
        let frame = replicate total 0;
            frame = copy_at 0 (replicate 6 0xFF) frame;
            frame = copy_at 6 QEMU_MAC frame;
            frame = copy_at 12 (to_be_bytes 2 (0x0800 :: u16)) frame;
            frame = frame[14 := 0x45];
            frame = copy_at 16 (to_be_bytes 2 (word_of_nat (20 + 8 + length data) :: u16)) frame;
            frame = frame[22 := 64];
            frame = frame[23 := 17];
            frame = copy_at 26 src_ip frame;
            frame = copy_at 30 dst_ip frame;
            frame = copy_at 34 (to_be_bytes 2 sport) frame;
            frame = copy_at 36 (to_be_bytes 2 dport) frame;
            frame = copy_at 38 (to_be_bytes 2 (word_of_nat (8 + length data) :: u16)) frame;
            frame = copy_at 42 data frame
        in Some frame)"

section \<open>Headers round trip\<close>

lemma split2: "length xs = 2 \<Longrightarrow> from_be_bytes xs = (w :: u16) \<longleftrightarrow> xs = to_be_bytes 2 w"
proof
  assume l: "length xs = 2" and w: "from_be_bytes xs = w"
  have "le_nat (rev xs) < 65536" using le_nat_less[of "rev xs"] l by simp
  then have "unat w = le_nat (rev xs)" using w by (auto simp: from_be_bytes_def from_le_bytes_def unat_of_nat)
  then show "xs = to_be_bytes 2 w"
    using le_bytes_le_nat[of "rev xs"] l by (simp add: to_be_bytes_def to_le_bytes_def)
qed (simp add: from_be_to_be)

lemma slice_drop: "i \<le> j \<Longrightarrow> slice i j xs @ drop j xs = drop i xs"
  using append_take_drop_id[of "j - i" "drop i xs"] by (simp add: slice_def)

lemma ethertype_code_from: "ethertype_code (EtherType_from_u16 v) = v"
  by (simp add: EtherType_from_u16_def)

definition EtherFrame_ok :: "EtherFrame \<Rightarrow> bool" where
  "EtherFrame_ok f \<longleftrightarrow> length (mac_bytes (eth_dst f)) = 6 \<and> length (mac_bytes (eth_src f)) = 6"

lemma serialize_eq:
  assumes "EtherFrame_ok f" "length buf = 14"
  shows "EtherFrame_serialize f (buf @ rest) =
    Some (mac_bytes (eth_dst f) @ mac_bytes (eth_src f) @ to_be_bytes 2 (ethertype_code (ethertype f)) @ rest)"
  using assms by (simp add: EtherFrame_serialize_def EtherFrame_ok_def copy_at_def Let_def)

text \<open>Ethernet headers round trip: serialising what was parsed gives back the frame, and parsing what was
  serialised gives back the header and the data, for every header whose type is not a known
  code in disguise; such a one comes back as the known type.\<close>

theorem ether_roundtrip:
  "(EtherFrame_parse bs = Some (f, rest) \<and> length buf = 14 \<longrightarrow> EtherFrame_ok f \<and> EtherFrame_serialize f (buf @ rest) = Some bs) \<and>
   (EtherFrame_ok f \<and> length buf = 14 \<longrightarrow>
     (\<exists>out. EtherFrame_serialize f (buf @ rest) = Some out \<and>
       EtherFrame_parse out = Some (f\<lparr>ethertype := EtherType_from_u16 (ethertype_code (ethertype f))\<rparr>, rest)))"
proof (intro conjI impI)
  assume a: "EtherFrame_parse bs = Some (f, rest) \<and> length buf = 14"
  then have bs: "14 \<le> length bs" "f = \<lparr>eth_dst = MacAddr (slice 0 6 bs), eth_src = MacAddr (slice 6 12 bs),
      ethertype = EtherType_from_u16 (from_be_bytes (slice 12 14 bs))\<rparr>" "rest = drop 14 bs"
    by (auto simp: EtherFrame_parse_def split: if_splits)
  show ok: "EtherFrame_ok f" using bs by (simp add: EtherFrame_ok_def)
  have "to_be_bytes 2 (from_be_bytes (slice 12 14 bs) :: u16) = slice 12 14 bs"
    using split2[of "slice 12 14 bs" "from_be_bytes (slice 12 14 bs)"] bs(1) by simp
  moreover have "slice 0 6 bs @ slice 6 12 bs @ slice 12 14 bs @ drop 14 bs = bs"
    by (simp add: slice_drop)
  ultimately show "EtherFrame_serialize f (buf @ rest) = Some bs"
    using serialize_eq[OF ok, of buf rest] a bs by (simp add: ethertype_code_from)
next
  assume "EtherFrame_ok f \<and> length buf = 14"
  then show "\<exists>out. EtherFrame_serialize f (buf @ rest) = Some out \<and>
       EtherFrame_parse out = Some (f\<lparr>ethertype := EtherType_from_u16 (ethertype_code (ethertype f))\<rparr>, rest)"
    by (simp add: serialize_eq EtherFrame_parse_def EtherFrame_ok_def slice_append from_be_to_be slice_def)
qed

theorem ether_roundtrip_witness:
  "EtherFrame_serialize \<lparr>eth_dst = MacAddr_BROADCAST, eth_src = MacAddr_ZERO, ethertype = OtherType 0x0806\<rparr> (replicate 14 0 @ [7]) \<noteq> None \<and>
   EtherFrame_serialize \<lparr>eth_dst = MacAddr_ZERO, eth_src = MacAddr_ZERO, ethertype = OtherType 0\<rparr> (replicate 14 9 @ [7]) =
     Some (replicate 14 0 @ [7])"
proof
  show "EtherFrame_serialize \<lparr>eth_dst = MacAddr_BROADCAST, eth_src = MacAddr_ZERO, ethertype = OtherType 0x0806\<rparr> (replicate 14 0 @ [7]) \<noteq> None"
    using ether_roundtrip[of "[]" "\<lparr>eth_dst = MacAddr_BROADCAST, eth_src = MacAddr_ZERO, ethertype = OtherType 0x0806\<rparr>" "[7]"
        "replicate 14 0"]
    by (auto simp: EtherFrame_ok_def MacAddr_BROADCAST_def MacAddr_ZERO_def)
  have "EtherFrame_parse (replicate 14 0 @ [7]) =
      Some (\<lparr>eth_dst = MacAddr_ZERO, eth_src = MacAddr_ZERO, ethertype = OtherType 0\<rparr>, [7])"
    by code_simp
  then show "EtherFrame_serialize \<lparr>eth_dst = MacAddr_ZERO, eth_src = MacAddr_ZERO, ethertype = OtherType 0\<rparr> (replicate 14 9 @ [7]) =
     Some (replicate 14 0 @ [7])"
    using ether_roundtrip[of "replicate 14 0 @ [7]" "\<lparr>eth_dst = MacAddr_ZERO, eth_src = MacAddr_ZERO, ethertype = OtherType 0\<rparr>" "[7]"
        "replicate 14 9"] by simp
qed


section \<open>Datagrams arrive\<close>

lemma list_update_copy_at: "i < length xs \<Longrightarrow> xs[i := v] = copy_at i [v] xs"
  by (simp add: copy_at_def upd_conv_take_nth_drop)

lemma copy_at_Cons: "0 < i \<Longrightarrow> copy_at i src (x # xs) = x # copy_at (i - 1) src xs"
  by (cases i) (simp_all add: copy_at_def)

lemma replicate_small: "replicate 2 x = [x, x]" "replicate 4 x = [x, x, x, x]"
  by (simp_all add: eval_nat_numeral)

lemma transmit_eq:
  assumes "length src_ip = 4" "length dst_ip = 4" "length data < 2 ^ 64 - 42"
  shows "transmit_eipc_udp src_ip dst_ip sport dport data =
    Some (replicate 6 0xFF @ QEMU_MAC @ to_be_bytes 2 (0x0800 :: u16) @
      [0x45, 0] @ to_be_bytes 2 (word_of_nat (28 + length data) :: u16) @ [0, 0, 0, 0, 64, 17, 0, 0] @ src_ip @ dst_ip @
      to_be_bytes 2 sport @ to_be_bytes 2 dport @ to_be_bytes 2 (word_of_nat (8 + length data) :: u16) @ [0, 0] @ data)"
proof -
  have mac: "length QEMU_MAC = 6" by (simp add: QEMU_MAC_def)
  show ?thesis using assms mac
    by (simp add: transmit_eipc_udp_def Let_def list_update_copy_at copy_at_fill copy_at_Cons replicate_small del: of_nat_add)
qed

lemma unat_u16: "unat (word_of_nat n :: u16) = n mod 65536"
  by (simp add: unat_of_nat)

lemma transmitted_datagram:
  assumes "length src_ip = 4" "length dst_ip = 4" "length data < 2 ^ 64 - 42"
  shows "\<exists>frame eth p1 ip p2 udp. transmit_eipc_udp src_ip dst_ip sport dport data = Some frame \<and>
    process_frame frame = ''UDP datagram'' \<and>
    EtherFrame_parse frame = Some (eth, p1) \<and> MacAddr_is_broadcast (eth_dst eth) \<and>
    Ipv4Header_parse p1 = Some (ip, p2) \<and> ip_src ip = Ipv4Addr src_ip \<and> ip_dst ip = Ipv4Addr dst_ip \<and> ttl ip = 64 \<and>
    UdpHeader_parse p2 = Some (udp, data) \<and> src_port udp = sport \<and> dst_port udp = dport \<and>
    unat (total_len ip) = (28 + length data) mod 2 ^ 16 \<and> unat (udp_length udp) = (8 + length data) mod 2 ^ 16"
proof -
  let ?tl = "word_of_nat (28 + length data) :: u16" and ?ul = "word_of_nat (8 + length data) :: u16"
  let ?p2 = "to_be_bytes 2 sport @ to_be_bytes 2 dport @ to_be_bytes 2 ?ul @ [0, 0] @ data"
  let ?p1 = "[0x45, 0] @ to_be_bytes 2 ?tl @ [0, 0, 0, 0, 64, 17, 0, 0] @ src_ip @ dst_ip @ ?p2"
  let ?frame = "replicate 6 0xFF @ QEMU_MAC @ to_be_bytes 2 (0x0800 :: u16) @ ?p1"
  have mac: "length QEMU_MAC = 6" by (simp add: QEMU_MAC_def)
  define eth where "eth = \<lparr>eth_dst = MacAddr_BROADCAST, eth_src = MacAddr QEMU_MAC, ethertype = IPv4\<rparr>"
  define ip where "ip = \<lparr>version_ihl = 0x45, dscp_ecn = 0, total_len = ?tl, ip_id = 0, flags_frag = 0, ttl = 64,
    protocol = UDP, ip_checksum = 0, ip_src = Ipv4Addr src_ip, ip_dst = Ipv4Addr dst_ip\<rparr>"
  define udp where "udp = \<lparr>src_port = sport, dst_port = dport, udp_length = ?ul, udp_checksum = 0\<rparr>"
  have zero: "from_be_bytes [0, 0] = (0 :: u16)" by (simp add: from_be_bytes_def from_le_bytes_def)
  have 1: "EtherFrame_parse ?frame = Some (eth, ?p1)"
    using mac by (simp add: EtherFrame_parse_def eth_def MacAddr_BROADCAST_def slice_append from_be_to_be EtherType_from_u16_def
        slice_def)
  have 2: "Ipv4Header_parse ?p1 = Some (ip, ?p2)"
    using assms(1,2) zero by (simp add: Ipv4Header_parse_def ip_def nth_append slice_append from_be_to_be IpProto_from_u8_def slice_def
        del: of_nat_add)
  have 3: "UdpHeader_parse ?p2 = Some (udp, data)"
    using zero by (simp add: UdpHeader_parse_def udp_def slice_append from_be_to_be slice_def del: of_nat_add)
  have "process_frame ?frame = ''UDP datagram''"
    using 1 2 3 by (simp only: process_frame_def option.case prod.case) (simp add: eth_def ip_def)
  then show ?thesis
    using transmit_eq[OF assms] 1 2 3
    by (intro exI[of _ ?frame] exI[of _ eth] exI[of _ ?p1] exI[of _ ip] exI[of _ ?p2] exI[of _ udp])
      (simp add: eth_def ip_def udp_def MacAddr_is_broadcast_def unat_u16 del: of_nat_add)
qed

text \<open>C34: Datagrams arrive: the frame built for any ciphertext is recognised as a UDP datagram, is
  addressed to everyone, carries the given addresses and ports, and delivers exactly the
  ciphertext. Its two length fields are the lengths modulo \<open>2 ^ 16\<close>, hence correct exactly up
  to 65507 bytes.\<close>

theorem datagram_arrives:
  assumes "length src_ip = 4" "length dst_ip = 4" "length data < 2 ^ 64 - 42"
  shows "\<exists>frame eth p1 ip p2 udp. transmit_eipc_udp src_ip dst_ip sport dport data = Some frame \<and>
    process_frame frame = ''UDP datagram'' \<and>
    EtherFrame_parse frame = Some (eth, p1) \<and> MacAddr_is_broadcast (eth_dst eth) \<and>
    Ipv4Header_parse p1 = Some (ip, p2) \<and> ip_src ip = Ipv4Addr src_ip \<and> ip_dst ip = Ipv4Addr dst_ip \<and> ttl ip = 64 \<and>
    UdpHeader_parse p2 = Some (udp, data) \<and> src_port udp = sport \<and> dst_port udp = dport \<and>
    unat (total_len ip) = (28 + length data) mod 2 ^ 16 \<and> unat (udp_length udp) = (8 + length data) mod 2 ^ 16"
  using transmitted_datagram[OF assms] .

theorem datagram_arrives_witness:
  "\<exists>frame. transmit_eipc_udp [10, 0, 2, 15] [10, 0, 2, 2] 49152 5000 [0x48, 0x70] = Some frame \<and> process_frame frame = ''UDP datagram''"
  using datagram_arrives[of "[10, 0, 2, 15]" "[10, 0, 2, 2]" "[0x48, 0x70]" 49152 5000] by auto

lemma from_u16_IPv4: "EtherType_from_u16 (from_be_bytes [b, c]) = IPv4 \<longleftrightarrow> b = 0x08 \<and> c = 0x00"
proof -
  have "to_be_bytes 2 (0x0800 :: u16) = [8, 0]" by code_simp
  then show ?thesis using split2[of "[b, c]" "0x0800"] by (auto simp: EtherType_from_u16_def)
qed

lemma EtherFrame_parse_type:
  "(\<exists>eth. EtherFrame_parse bs = Some (eth, rest) \<and> ethertype eth = IPv4) \<longleftrightarrow>
     14 \<le> length bs \<and> bs ! 12 = 0x08 \<and> bs ! 13 = 0x00 \<and> rest = drop 14 bs"
proof (cases "14 \<le> length bs")
  case True
  have "slice 12 14 bs = [bs ! 12, bs ! 13]"
    using True by (intro nth_equalityI) (auto simp: slice_def less_Suc_eq numeral_2_eq_2)
  then show ?thesis using True by (auto simp: EtherFrame_parse_def from_u16_IPv4)
qed (simp add: EtherFrame_parse_def)

lemma process_frame_udp:
  "process_frame bs = ''UDP datagram'' \<longleftrightarrow>
     (\<exists>data. (\<exists>eth. EtherFrame_parse bs = Some (eth, data) \<and> ethertype eth = IPv4) \<and>
       (\<exists>ip rest. Ipv4Header_parse data = Some (ip, rest) \<and> protocol ip = UDP \<and> UdpHeader_parse rest \<noteq> None))"
  by (auto simp: process_frame_def split: EtherType.splits IpProto.splits option.splits)

text \<open>What the receive pipeline takes for a UDP datagram: exactly the frames with the right type and protocol
  bytes and room for the three headers, the middle one as long as its length nibble says. Nothing
  else is looked at, neither the version nor the checksums nor the length fields, and with a
  nibble below five the UDP header is read from inside the IPv4 header.\<close>

theorem udp_accepted_exact:
  "process_frame bs = ''UDP datagram'' \<longleftrightarrow>
     34 \<le> length bs \<and> bs ! 12 = 0x08 \<and> bs ! 13 = 0x00 \<and> bs ! 23 = 17 \<and>
     14 + 4 * unat (bs ! 14 AND 0xF) + 8 \<le> length bs"
  by (auto simp: process_frame_udp EtherFrame_parse_type Ipv4Header_parse_def UdpHeader_parse_def Let_def
      IpProto_from_u8_def mult.commute)

text \<open>The initialisation sequence of the network card stays within its specification.\<close>

lemma nic_registration: "register_nic_with_ztdf = Some (10, True)"
proof -
  have "DriverSpec_ok virtio_net_driver_spec" by (simp add: DriverSpec_ok_def virtio_net_driver_spec_def region_ok_def)
  moreover have "\<forall>op \<in> set nic_init_ops. op_allowed virtio_net_driver_spec op"
    by (simp add: nic_init_ops_def virtio_net_driver_spec_def)
  moreover have "length nic_init_ops \<le> 2 ^ 32 - 1 - unat (ops_done (ZtdfChecker_new virtio_net_driver_spec))"
    by (simp add: nic_init_ops_def ZtdfChecker_new_def)
  ultimately obtain c' where "run_monitor ZtdfChecker_step DriverOk (ZtdfChecker_new virtio_net_driver_spec) nic_init_ops =
      Some (nic_init_ops, None, c')"
    using ztdf_monitor.run_admitted[of "ZtdfChecker_new virtio_net_driver_spec" nic_init_ops]
    by (auto simp: ZtdfChecker_new_def)
  then show ?thesis by (simp add: register_nic_with_ztdf_def) (simp add: virtio_net_driver_spec_def)
qed

end
