(* ===== verification/Scheduler.thy ===== *)
theory Scheduler
  imports Axiom_Prelude
begin

text \<open>
  Tasks and the budget-accounting scheduler (\<open>kernel/src/task.rs\<close>, \<open>kernel/src/scheduler.rs\<close>)
  with the timer interrupt that drives it (\<open>kernel/src/interrupts.rs\<close>). The budget counters
  are shown to be division with remainder, the schedule to be strict round robin, and the
  fence statistics to be consistent.
\<close>

section \<open>Tasks\<close>

datatype TaskState = Ready | Running

record ScbaState =
  budget_max :: u64
  budget_consumed :: u64
  fence_count :: u64
  throttle_count :: u64
  epoch :: u64

definition ScbaState_new :: "u64 \<Rightarrow> ScbaState" where
  "ScbaState_new b = \<lparr>budget_max = b, budget_consumed = 0, fence_count = 0, throttle_count = 0, epoch = 0\<rparr>"

definition ScbaState_tick :: "ScbaState \<Rightarrow> (bool \<times> ScbaState) panics" where
  "ScbaState_tick s = do {
     n \<leftarrow> add_chk (budget_consumed s) 1;
     Some (budget_max s \<le> n, s\<lparr>budget_consumed := n\<rparr>) }"

definition ScbaState_reset_epoch :: "ScbaState \<Rightarrow> ScbaState panics" where
  "ScbaState_reset_epoch s = do {
     f \<leftarrow> add_chk (fence_count s) 1;
     e \<leftarrow> add_chk (epoch s) 1;
     Some (s\<lparr>budget_consumed := 0, fence_count := f, epoch := e\<rparr>) }"

record Task =
  task_id :: u64
  task_state :: TaskState
  rsp :: u64
  task_stack :: bytes
  scba :: ScbaState

text \<open>\<open>Task::new_with_budget\<close>, given the address the heap returned for the stack: the initial
  context is written below the stack top and \<open>rsp\<close> points at it. The address arithmetic
  is checked; a stack too small for the context is undefined behaviour and excluded.\<close>

definition init_ctx :: "u64 \<Rightarrow> u64 list" where
  "init_ctx entry = [0, 0, 0, 0, 0, 0, 0x200, entry]"

definition Task_new_with_budget :: "u64 \<Rightarrow> u64 \<Rightarrow> u64 \<Rightarrow> nat \<Rightarrow> u64 \<Rightarrow> Task panics" where
  "Task_new_with_budget tid entry stack_base stack_size b =
     (let stack = replicate stack_size 0 in do {
        stack_top \<leftarrow> add_chk stack_base (word_of_nat stack_size);
        p \<leftarrow> sub_chk stack_top 64;
        ctx_ptr \<leftarrow> sub_chk p 128;
        if ctx_ptr < stack_base then None
        else Some \<lparr>task_id = tid, task_state = Ready, rsp = ctx_ptr,
          task_stack = copy_at (unat (ctx_ptr - stack_base)) (concat (map (to_le_bytes 8) (init_ctx entry))) stack,
          scba = ScbaState_new b\<rparr> })"

definition Task_new_idle :: "u64 \<Rightarrow> Task" where
  "Task_new_idle tid = \<lparr>task_id = tid, task_state = Running, rsp = 0, task_stack = replicate 4096 0,
     scba = ScbaState_new (- 1)\<rparr>"

lemma new_with_budget_layout:
  assumes "Task_new_with_budget tid entry base sz b = Some t" "sz < 2 ^ 64"
  shows "unat base + sz < 2 ^ 64 \<and> 192 \<le> sz \<and> unat (rsp t) = unat base + (sz - 192) \<and>
    task_stack t = copy_at (sz - 192) (concat (map (to_le_bytes 8) (init_ctx entry))) (replicate sz 0)"
proof -
  obtain top p q where a: "add_chk base (word_of_nat sz) = Some top" "sub_chk top 64 = Some p" "sub_chk p 128 = Some q"
      "\<not> q < base" "rsp t = q"
      "task_stack t = copy_at (unat (q - base)) (concat (map (to_le_bytes 8) (init_ctx entry))) (replicate sz 0)"
    using assms(1) by (auto simp: Task_new_with_budget_def Let_def bind_eq_Some_conv split: if_splits)
  have "unat top = unat base + sz" using add_chk_unat[OF a(1)] assms(2) by (simp add: unat_of_nat)
  moreover have "unat top < 2 ^ 64" using unsigned_less[of top, where ?'a = nat] by simp
  moreover have "unat p + 64 = unat top" "unat q + 128 = unat p"
    using a(2,3) by (auto simp: sub_chk_def unat_sub word_le_nat_alt split: if_splits)
  moreover have "unat base \<le> unat q" using a(4) by (simp add: word_less_nat_alt)
  moreover have "unat (q - base) = unat q - unat base" using a(4) by (simp add: unat_sub)
  ultimately have "unat (q - base) = sz - 192" "unat base + sz < 2 ^ 64" "192 \<le> sz" "unat q = unat base + (sz - 192)"
    by linarith+
  then show ?thesis using a(5,6) by simp
qed

section \<open>The scheduler\<close>

record ScbaStats =
  total_fences :: u64
  total_switches :: u64

record Scheduler =
  tasks :: "Task list"
  current :: nat
  stats :: ScbaStats

definition Scheduler_new :: Scheduler where
  "Scheduler_new = \<lparr>tasks = [], current = 0, stats = \<lparr>total_fences = 0, total_switches = 0\<rparr>\<rparr>"

definition Scheduler_add_task :: "Scheduler \<Rightarrow> Task \<Rightarrow> Scheduler" where
  "Scheduler_add_task s t = s\<lparr>tasks := tasks s @ [t]\<rparr>"

definition Scheduler_task_count :: "Scheduler \<Rightarrow> nat" where
  "Scheduler_task_count s = length (tasks s)"

text \<open>The first half of \<open>prepare_switch\<close>: accounting of the running task. The second component
  says whether a fence is due.\<close>

definition account :: "Scheduler \<Rightarrow> (bool \<times> Scheduler) panics" where
  "account s =
     (let old = current s in
      if length (tasks s) \<le> old then None
      else do {
        (exhausted, sc) \<leftarrow> ScbaState_tick (scba (tasks s ! old));
        if exhausted
        then do {
          sc \<leftarrow> ScbaState_reset_epoch sc;
          f \<leftarrow> add_chk (total_fences (stats s)) 1;
          Some (True, s\<lparr>tasks := (tasks s)[old := (tasks s ! old)\<lparr>scba := sc, task_state := Ready\<rparr>],
                        stats := (stats s)\<lparr>total_fences := f\<rparr>\<rparr>) }
        else Some (False, s\<lparr>tasks := (tasks s)[old := (tasks s ! old)\<lparr>scba := sc, task_state := Ready\<rparr>]\<rparr>) })"

text \<open>The round-robin search loop; the inner option is the early \<open>return None\<close>.\<close>

partial_function (option) find_ready :: "Task list \<Rightarrow> nat \<Rightarrow> nat \<Rightarrow> nat option panics" where
  "find_ready ts start next =
     (if length ts \<le> next then None
      else if task_state (ts ! next) = Ready then Some (Some next)
      else let next' = (next + 1) mod length ts
           in if next' = start then Some None else find_ready ts start next')"

text \<open>The old task is named by its index instead of the address of its \<open>rsp\<close> field.\<close>

definition Scheduler_prepare_switch :: "Scheduler \<Rightarrow> ((nat \<times> u64 \<times> bool) option \<times> Scheduler) panics" where
  "Scheduler_prepare_switch s =
     (if length (tasks s) < 2 then Some (None, s)
      else let old = current s in do {
        (need_fence, s) \<leftarrow> account s;
        let start = (old + 1) mod length (tasks s) in do {
        found \<leftarrow> find_ready (tasks s) start start;
        case found of
          None \<Rightarrow> Some (None, s)
        | Some next \<Rightarrow>
            if next = old then Some (None, s)
            else
              let s = s\<lparr>tasks := (tasks s)[next := (tasks s ! next)\<lparr>task_state := Running\<rparr>], current := next\<rparr>
              in do {
                n \<leftarrow> add_chk (total_switches (stats s)) 1;
                Some (Some (old, rsp (tasks s ! next), need_fence), s\<lparr>stats := (stats s)\<lparr>total_switches := n\<rparr>\<rparr>) } } })"

definition Scheduler_scba_snapshot :: "Scheduler \<Rightarrow> (u64 \<times> u64 \<times> u64) list" where
  "Scheduler_scba_snapshot s =
     map (\<lambda>i. if i + 1 < length (tasks s)
              then let t = tasks s ! (i + 1) in (budget_consumed (scba t), fence_count (scba t), epoch (scba t))
              else (0, 0, 0)) [0..<3]"

text \<open>What the processor does on behalf of the switch, in order: port writes, the two fences and
  the change of stack. \<open>perform_switch\<close> also gets the stack pointer that
  \<open>context_switch\<close> saves for the old task.\<close>

datatype cpu_action = PortWrite u16 u8 | Lfence | Mfence | SwitchTo u64

definition perform_switch :: "nat \<Rightarrow> u64 \<Rightarrow> bool \<Rightarrow> u64 \<Rightarrow> Scheduler \<Rightarrow> cpu_action list \<times> Scheduler" where
  "perform_switch old new_rsp need_fence saved_rsp s =
     ((if need_fence then [Lfence, Mfence] else []) @ [SwitchTo new_rsp],
      s\<lparr>tasks := (tasks s)[old := (tasks s ! old)\<lparr>rsp := saved_rsp\<rparr>]\<rparr>)"

section \<open>The timer interrupt\<close>

record TimerState =
  TICKS :: u64
  SCHEDULER :: Scheduler

text \<open>The first argument is \<open>None\<close> if the scheduler's lock is held, and otherwise the stack pointer
  at which the running task is suspended if the handler switches.\<close>

definition timer_interrupt_handler :: "u64 option \<Rightarrow> TimerState \<Rightarrow> (cpu_action list \<times> TimerState) panics" where
  "timer_interrupt_handler lock st =
     (let st = st\<lparr>TICKS := TICKS st + 1\<rparr>; eoi = [PortWrite 0x20 0x20] in
      case lock of
        None \<Rightarrow> Some (eoi, st)
      | Some saved_rsp \<Rightarrow> do {
          (switch, s) \<leftarrow> Scheduler_prepare_switch (SCHEDULER st);
          case switch of
            None \<Rightarrow> Some (eoi, st\<lparr>SCHEDULER := s\<rparr>)
          | Some (old, new_rsp, need_fence) \<Rightarrow>
              let (acts, s) = perform_switch old new_rsp need_fence saved_rsp s
              in Some (eoi @ acts, st\<lparr>SCHEDULER := s\<rparr>) })"

fun timer_run :: "TimerState \<Rightarrow> u64 option list \<Rightarrow> (cpu_action list list \<times> TimerState) panics" where
  "timer_run st [] = Some ([], st)"
| "timer_run st (e # es) = do {
     (acts, st) \<leftarrow> timer_interrupt_handler e st;
     (rest, st) \<leftarrow> timer_run st es;
     Some (acts # rest, st) }"

section \<open>Budget accounting is division with remainder\<close>

text \<open>One accounting step of a task: tick, and reset when exhausted.\<close>

definition scba_step :: "ScbaState \<Rightarrow> (bool \<times> ScbaState) panics" where
  "scba_step s = do {
     (exhausted, s) \<leftarrow> ScbaState_tick s;
     if exhausted then do { s \<leftarrow> ScbaState_reset_epoch s; Some (True, s) } else Some (False, s) }"

fun scba_run :: "nat \<Rightarrow> ScbaState \<Rightarrow> (bool list \<times> ScbaState) panics" where
  "scba_run 0 s = Some ([], s)"
| "scba_run (Suc n) s = do {
     (fences, s) \<leftarrow> scba_run n s;
     (f, s) \<leftarrow> scba_step s;
     Some (fences @ [f], s) }"

definition scba_after :: "u64 \<Rightarrow> nat \<Rightarrow> ScbaState" where
  "scba_after b n =
     (let m = max 1 (unat b)
      in \<lparr>budget_max = b, budget_consumed = word_of_nat (n mod m), fence_count = word_of_nat (n div m),
          throttle_count = 0, epoch = word_of_nat (n div m)\<rparr>)"

lemma unat_small: "n < 2 ^ 64 \<Longrightarrow> unat (word_of_nat n :: u64) = n"
  by (simp add: unat_of_nat)

lemma add_chk_small: "Suc n < 2 ^ 64 \<Longrightarrow> add_chk (word_of_nat n) (1 :: u64) = Some (word_of_nat (Suc n))"
  by (simp add: add_chk_def unat_small)

lemma scba_step_after:
  assumes "Suc n < 2 ^ 64"
  shows "scba_step (scba_after b n) = Some (Suc n mod max 1 (unat b) = 0, scba_after b (Suc n))"
proof -
  define m where "m = max 1 (unat b)"
  define q r where "q = n div m" and "r = n mod m"
  have m: "0 < m" by (simp add: m_def)
  have bnd: "Suc r < 2 ^ 64" "Suc q < 2 ^ 64"
    unfolding q_def r_def by (meson assms Suc_le_mono div_le_dividend mod_less_eq_dividend order_le_less_trans)+
  have r: "r < m" using m by (simp add: r_def)
  have after: "scba_after b n = \<lparr>budget_max = b, budget_consumed = word_of_nat r, fence_count = word_of_nat q,
      throttle_count = 0, epoch = word_of_nat q\<rparr>"
    by (simp add: scba_after_def Let_def m_def q_def r_def)
  have le: "b \<le> word_of_nat (Suc r) \<longleftrightarrow> Suc r = m"
    using r bnd(1) unat_small[OF bnd(1)] by (auto simp: word_le_nat_alt m_def)
  have dm: "Suc n div m = (if Suc r = m then Suc q else q)" "Suc n mod m = (if Suc r = m then 0 else Suc r)"
    using m by (simp_all add: div_Suc mod_Suc q_def r_def)
  show ?thesis
    unfolding scba_step_def ScbaState_tick_def ScbaState_reset_epoch_def after
    by (simp add: add_chk_small[OF bnd(1)] add_chk_small[OF bnd(2)] le del: of_nat_Suc)
      (simp add: scba_after_def Let_def m_def[symmetric, simplified] dm)
qed

lemma scba_run_eq:
  "n < 2 ^ 64 \<Longrightarrow>
   scba_run n (ScbaState_new b) = Some (map (\<lambda>k. Suc k mod max 1 (unat b) = 0) [0..<n], scba_after b n)"
proof (induction n)
  case 0
  then show ?case by (simp add: scba_after_def ScbaState_new_def Let_def)
next
  case (Suc n)
  then show ?case using scba_step_after[of n b] by simp
qed

section \<open>The search for a ready task terminates\<close>

lemma mod_shift_image: "0 < n \<Longrightarrow> (\<lambda>j. (s + j) mod n) ` {..<n} = {..<n :: nat}"
proof -
  assume n: "0 < n"
  have "i \<in> (\<lambda>j. (s + j) mod n) ` {..<n}" if "i < n" for i
  proof (rule image_eqI)
    show "i = (s + (i + (n - s mod n)) mod n) mod n"
    proof -
      have "(s + (i + (n - s mod n)) mod n) mod n = (s mod n + (i + (n - s mod n))) mod n" by (simp add: mod_simps)
      also have "\<dots> = (i + n) mod n" using mod_less_divisor[OF n, of s] by (simp add: add.left_commute)
      finally show ?thesis using that by simp
    qed
  qed (simp add: n)
  then show ?thesis using n by auto
qed

lemma find_ready_from:
  assumes "start < length ts" "k < length ts"
  shows "find_ready ts start ((start + k) mod length ts) =
    Some (List.find (\<lambda>i. task_state (ts ! i) = Ready) (map (\<lambda>j. (start + j) mod length ts) [k..<length ts]))"
  using assms(2)
proof (induction "length ts - k" arbitrary: k)
  case (Suc d)
  let ?n = "length ts"
  have nxt: "((start + k) mod ?n + 1) mod ?n = (start + Suc k) mod ?n" by (simp add: mod_Suc_eq)
  have wrap: "(start + Suc k) mod ?n = start \<longleftrightarrow> Suc k = ?n"
    using assms(1) Suc.prems by (auto simp: mod_if)
  have "(start + k) mod ?n < ?n" by (rule mod_less_divisor) (use Suc.prems in linarith)
  then have step: "find_ready ts start ((start + k) mod ?n) =
    (if task_state (ts ! ((start + k) mod ?n)) = Ready then Some (Some ((start + k) mod ?n))
     else if Suc k = ?n then Some None else find_ready ts start ((start + Suc k) mod ?n))"
    by (subst find_ready.simps) (simp only: not_le[symmetric] nxt wrap Let_def if_False simp_thms)
  show ?case
  proof (cases "Suc k = ?n")
    case True
    then have "[k..<?n] = [k]" by (simp add: upt_conv_Cons)
    then show ?thesis unfolding step using True by simp
  next
    case False
    with Suc have "find_ready ts start ((start + Suc k) mod ?n) =
      Some (List.find (\<lambda>i. task_state (ts ! i) = Ready) (map (\<lambda>j. (start + j) mod ?n) [Suc k..<?n]))"
      by (intro Suc.hyps(1)) auto
    then show ?thesis unfolding step using Suc.prems False by (simp add: upt_conv_Cons)
  qed
qed simp

text \<open>C31: The round-robin search always returns: started at any index of the task list it finds the first
  ready task in cyclic order from there, and answers \<open>None\<close> exactly if no task is ready.\<close>

theorem find_ready_terminates:
  assumes "start < length ts"
  shows "find_ready ts start start =
      Some (List.find (\<lambda>i. task_state (ts ! i) = Ready) (map (\<lambda>j. (start + j) mod length ts) [0..<length ts])) \<and>
    (find_ready ts start start = Some None \<longleftrightarrow> (\<forall>t\<in>set ts. task_state t \<noteq> Ready))"
proof -
  let ?is = "map (\<lambda>j. (start + j) mod length ts) [0..<length ts]"
  have run: "find_ready ts start start = Some (List.find (\<lambda>i. task_state (ts ! i) = Ready) ?is)"
    using find_ready_from[OF assms, of 0] assms by (cases ts) simp_all
  have "0 < length ts" using assms by linarith
  from mod_shift_image[OF this] have "set ?is = {..<length ts}"
    by (simp only: set_map set_upt atLeast0LessThan)
  then have "(\<forall>i\<in>set ?is. task_state (ts ! i) \<noteq> Ready) \<longleftrightarrow> (\<forall>t\<in>set ts. task_state t \<noteq> Ready)"
    by (auto simp: all_set_conv_all_nth)
  then show ?thesis unfolding run by (auto simp: find_None_iff)
qed

theorem find_ready_terminates_witness:
  "find_ready [Task_new_idle 0, (Task_new_idle 1)\<lparr>task_state := Ready\<rparr>] 0 0 = Some (Some 1)"
  using find_ready_terminates[of 0 "[Task_new_idle 0, (Task_new_idle 1)\<lparr>task_state := Ready\<rparr>]"]
  by (simp add: Task_new_idle_def)

section \<open>Strict round robin\<close>

text \<open>The specification of the scheduler after the switches whose saved stack pointers are
  \<open>sps\<close>: task \<open>i\<close> of \<open>n\<close> had the processor at the switches \<open>j\<close> with \<open>j mod n = i\<close>.\<close>

definition slots :: "nat \<Rightarrow> nat \<Rightarrow> nat \<Rightarrow> nat list" where
  "slots n k i = filter (\<lambda>j. j mod n = i) [0..<k]"

definition turns :: "nat \<Rightarrow> nat \<Rightarrow> nat \<Rightarrow> nat" where
  "turns n k i = length (slots n k i)"

definition epoch_len :: "Task \<Rightarrow> nat" where
  "epoch_len t = max 1 (unat (budget_max (scba t)))"

definition resume_rsp :: "Task list \<Rightarrow> u64 list \<Rightarrow> nat \<Rightarrow> u64" where
  "resume_rsp ts sps i = last (rsp (ts ! i) # map ((!) sps) (slots (length ts) (length sps) i))"

definition task_after :: "Task list \<Rightarrow> u64 list \<Rightarrow> nat \<Rightarrow> Task" where
  "task_after ts sps i =
     (let n = length ts; k = length sps
      in (ts ! i)\<lparr>task_state := (if i = k mod n then Running else Ready), rsp := resume_rsp ts sps i,
                  scba := scba_after (budget_max (scba (ts ! i))) (turns n k i)\<rparr>)"

definition fences_after :: "Task list \<Rightarrow> nat \<Rightarrow> nat" where
  "fences_after ts k = (\<Sum>i<length ts. turns (length ts) k i div epoch_len (ts ! i))"

definition sched_after :: "Task list \<Rightarrow> u64 list \<Rightarrow> Scheduler" where
  "sched_after ts sps =
     \<lparr>tasks = map (task_after ts sps) [0..<length ts], current = length sps mod length ts,
      stats = \<lparr>total_fences = word_of_nat (fences_after ts (length sps)), total_switches = word_of_nat (length sps)\<rparr>\<rparr>"

definition fence_due :: "Task list \<Rightarrow> nat \<Rightarrow> bool" where
  "fence_due ts k = (Suc (turns (length ts) k (k mod length ts)) mod epoch_len (ts ! (k mod length ts)) = 0)"

lemma slots_Suc: "slots n (Suc k) i = slots n k i @ (if k mod n = i then [k] else [])"
  by (simp add: slots_def)

lemma turns_Suc: "turns n (Suc k) i = turns n k i + (if k mod n = i then 1 else 0)"
  by (simp add: turns_def slots_Suc)

lemma turns_le: "turns n k i \<le> k"
  by (simp add: turns_def slots_def le_trans[OF length_filter_le])

lemma sum_turns: "0 < n \<Longrightarrow> (\<Sum>i<n. turns n k i) = k"
  by (induction k) (simp_all add: turns_Suc sum.distrib, simp add: turns_def slots_def)

lemma fences_Suc:
  assumes "0 < length ts"
  shows "fences_after ts (Suc k) = fences_after ts k + (if fence_due ts k then 1 else 0)"
proof -
  let ?n = "length ts" and ?c = "k mod length ts"
  have "turns ?n (Suc k) i div epoch_len (ts ! i) =
      turns ?n k i div epoch_len (ts ! i) + (if i = ?c then if fence_due ts k then 1 else 0 else 0)" for i
    by (auto simp: turns_Suc div_Suc fence_due_def)
  then show ?thesis using assms by (simp add: fences_after_def sum.distrib)
qed

lemma fences_le: "0 < length ts \<Longrightarrow> fences_after ts k \<le> k"
  using sum_mono[of "{..<length ts}" "\<lambda>i. turns (length ts) k i div epoch_len (ts ! i)" "turns (length ts) k"]
  by (simp add: fences_after_def sum_turns)

lemma resume_snoc:
  "resume_rsp ts (sps @ [sp]) i = (if length sps mod length ts = i then sp else resume_rsp ts sps i)"
proof -
  have "map ((!) (sps @ [sp])) (slots n (length sps) i) = map ((!) sps) (slots n (length sps) i)" for n
    by (auto simp: slots_def nth_append)
  then show ?thesis unfolding resume_rsp_def length_append_singleton slots_Suc by (simp only: map_append) simp
qed

lemma account_eq:
  "account s =
     (if length (tasks s) \<le> current s then None
      else case scba_step (scba (tasks s ! current s)) of
        None \<Rightarrow> None
      | Some (f, sc) \<Rightarrow>
          (case if f then add_chk (total_fences (stats s)) 1 else Some (total_fences (stats s)) of
             None \<Rightarrow> None
           | Some n \<Rightarrow> Some (f, s\<lparr>tasks := (tasks s)[current s := (tasks s ! current s)\<lparr>scba := sc, task_state := Ready\<rparr>],
               stats := (stats s)\<lparr>total_fences := n\<rparr>\<rparr>)))"
  by (cases "ScbaState_tick (scba (tasks s ! current s))";
      cases "fst (the (ScbaState_tick (scba (tasks s ! current s))))";
      cases "ScbaState_reset_epoch (snd (the (ScbaState_tick (scba (tasks s ! current s)))))";
      cases "add_chk (total_fences (stats s)) 1")
    (auto simp: account_def scba_step_def Let_def)

lemma account_after:
  assumes "0 < length ts" "Suc (length sps) < 2 ^ 64"
  defines "c \<equiv> length sps mod length ts"
  shows "account (sched_after ts sps) = Some (fence_due ts (length sps), (sched_after ts sps)\<lparr>
    tasks := (map (task_after ts sps) [0..<length ts])[c := (task_after ts sps c)
      \<lparr>scba := scba_after (budget_max (scba (ts ! c))) (Suc (turns (length ts) (length sps) c)), task_state := Ready\<rparr>],
    stats := (stats (sched_after ts sps))\<lparr>total_fences := word_of_nat (fences_after ts (Suc (length sps)))\<rparr>\<rparr>)"
proof -
  let ?t = "turns (length ts) (length sps) c"
  have c: "c < length ts" using assms(1) by (simp add: c_def)
  have "Suc ?t < 2 ^ 64" using turns_le[of "length ts" "length sps" c] assms(2) by linarith
  note step = scba_step_after[OF this, of "budget_max (scba (ts ! c))", folded epoch_len_def]
  have due: "Suc ?t mod epoch_len (ts ! c) = 0 \<longleftrightarrow> fence_due ts (length sps)" by (simp add: fence_due_def c_def)
  have "Suc (fences_after ts (length sps)) < 2 ^ 64" using fences_le[of ts "length sps"] assms(1,2) by linarith
  note add = add_chk_small[OF this]
  show ?thesis
    unfolding account_eq
    using step[unfolded due] c add fences_Suc[OF assms(1), of "length sps"]
    by (simp add: sched_after_def task_after_def c_def Let_def)
qed

lemma Suc_mod_neq: "2 \<le> n \<Longrightarrow> Suc k mod n \<noteq> k mod n"
  by (auto simp: mod_Suc)

lemma task_after_snoc:
  "task_after ts (sps @ [sp]) i =
     (let c = length sps mod length ts; t = task_after ts sps i
      in if i = c then t\<lparr>task_state := (if i = Suc (length sps) mod length ts then Running else Ready), rsp := sp,
             scba := scba_after (budget_max (scba (ts ! i))) (Suc (turns (length ts) (length sps) i))\<rparr>
         else if i = Suc (length sps) mod length ts then t\<lparr>task_state := Running\<rparr> else t)"
  by (simp add: task_after_def resume_snoc turns_Suc Let_def)

lemma prepare_switch_after:
  assumes "2 \<le> length ts" "Suc (length sps) < 2 ^ 64"
  defines "c \<equiv> length sps mod length ts" and "d \<equiv> Suc (length sps) mod length ts"
  shows "\<exists>s. Scheduler_prepare_switch (sched_after ts sps) =
      Some (Some (c, resume_rsp ts sps d, fence_due ts (length sps)), s) \<and>
    perform_switch c new_rsp f sp s = ((if f then [Lfence, Mfence] else []) @ [SwitchTo new_rsp], sched_after ts (sps @ [sp]))"
proof -
  let ?n = "length ts" and ?k = "length sps"
  let ?old = "(task_after ts sps c)\<lparr>scba := scba_after (budget_max (scba (ts ! c))) (Suc (turns ?n ?k c)), task_state := Ready\<rparr>"
  define T where "T = (map (task_after ts sps) [0..<?n])[c := ?old]"
  have n: "0 < ?n" using assms(1) by linarith
  have cd: "c < ?n" "d < ?n" "d \<noteq> c" and T: "length T = ?n"
    unfolding c_def d_def T_def using mod_less_divisor[OF n] Suc_mod_neq[OF assms(1)] by simp_all
  have nth: "T ! i = (if i = c then ?old else task_after ts sps i)" if "i < ?n" for i
    using that cd by (simp add: T_def)
  have d: "Suc c mod ?n = d" by (simp add: c_def d_def mod_Suc_eq)
  have found: "find_ready T d d = Some (Some d)"
    using cd nth[of d] by (subst find_ready.simps) (simp add: T task_after_def c_def Let_def)
  have add: "add_chk (word_of_nat ?k) (1 :: u64) = Some (word_of_nat (Suc ?k))"
    using add_chk_small assms(2) by blast
  have final: "(T[d := (T ! d)\<lparr>task_state := Running\<rparr>])[c := (T ! c)\<lparr>rsp := sp\<rparr>] = map (task_after ts (sps @ [sp])) [0..<?n]"
    using cd nth d_def c_def by (intro nth_equalityI) (auto simp: T nth_list_update task_after_snoc Let_def)
  have "rsp (task_after ts sps d) = resume_rsp ts sps d" by (simp add: task_after_def Let_def)
  then show ?thesis
    using assms(1) found add final cd nth[of d] T d account_after[OF n assms(2), folded c_def, folded T_def]
    by (simp add: Scheduler_prepare_switch_def sched_after_def perform_switch_def Let_def c_def[symmetric] d_def[symmetric]
        nth_list_update del: of_nat_Suc)
qed

text \<open>The tasks the scheduler is started with, and the trace the specification predicts.\<close>

definition boot_tasks :: "Task list \<Rightarrow> bool" where
  "boot_tasks ts \<longleftrightarrow> 2 \<le> length ts \<and> (\<forall>i<length ts. task_state (ts ! i) = (if i = 0 then Running else Ready) \<and>
     scba (ts ! i) = ScbaState_new (budget_max (scba (ts ! i))))"

definition started :: "u64 \<Rightarrow> Task list \<Rightarrow> TimerState" where
  "started t0 ts = \<lparr>TICKS = t0, SCHEDULER = foldl Scheduler_add_task Scheduler_new ts\<rparr>"

abbreviation eoi :: cpu_action where "eoi \<equiv> PortWrite 0x20 0x20"

definition switch_trace :: "Task list \<Rightarrow> u64 list \<Rightarrow> cpu_action list" where
  "switch_trace ts sps =
     eoi # (if fence_due ts (length sps) then [Lfence, Mfence] else []) @
     [SwitchTo (resume_rsp ts sps (Suc (length sps) mod length ts))]"

fun sched_trace :: "Task list \<Rightarrow> u64 list \<Rightarrow> u64 option list \<Rightarrow> cpu_action list list" where
  "sched_trace ts sps [] = []"
| "sched_trace ts sps (None # es) = [eoi] # sched_trace ts sps es"
| "sched_trace ts sps (Some sp # es) = switch_trace ts sps # sched_trace ts (sps @ [sp]) es"

lemma started_eq:
  assumes "boot_tasks ts"
  shows "started t0 ts = \<lparr>TICKS = t0, SCHEDULER = sched_after ts []\<rparr>"
proof -
  have "foldl Scheduler_add_task s ts = s\<lparr>tasks := tasks s @ ts\<rparr>" for s
    by (induction ts arbitrary: s) (simp_all add: Scheduler_add_task_def)
  moreover have "map (task_after ts []) [0..<length ts] = ts"
    using assms by (intro nth_equalityI)
      (auto simp: boot_tasks_def task_after_def Let_def resume_rsp_def turns_def slots_def scba_after_def ScbaState_new_def)
  moreover have "fences_after ts 0 = 0"
    by (simp add: fences_after_def turns_def slots_def)
  ultimately show ?thesis using assms
    by (simp add: started_def sched_after_def Scheduler_new_def)
qed

lemma timer_run_after:
  assumes "2 \<le> length ts" "length sps + length evs < 2 ^ 64"
  shows "timer_run \<lparr>TICKS = t, SCHEDULER = sched_after ts sps\<rparr> evs =
    Some (sched_trace ts sps evs,
      \<lparr>TICKS = t + word_of_nat (length evs), SCHEDULER = sched_after ts (sps @ cat_options evs)\<rparr>)"
  using assms(2)
proof (induction evs arbitrary: sps t)
  case (Cons e evs)
  show ?case
  proof (cases e)
    case None
    then show ?thesis using Cons by (simp add: timer_interrupt_handler_def add.assoc)
  next
    case (Some sp)
    then have "Suc (length sps) < 2 ^ 64" "length (sps @ [sp]) + length evs < 2 ^ 64" using Cons.prems by simp_all
    from prepare_switch_after[OF assms(1) this(1), of "resume_rsp ts sps (Suc (length sps) mod length ts)"
        "fence_due ts (length sps)" sp] Cons.IH[OF this(2)]
    show ?thesis by (auto simp: Some timer_interrupt_handler_def switch_trace_def add.assoc Let_def)
  qed
qed simp

text \<open>C22: The scheduler implements its specification: after any sequence of timer interrupts, with the lock
  free or held at each, the tick counter has counted them all, the switches went round robin
  in task order, every task was resumed with the stack pointer it was last suspended with, its
  budget was accounted at each turn, and the fences were issued exactly when a budget ran out
  and before the switch. The run does not panic.\<close>

theorem scheduler_refines_round_robin:
  assumes "boot_tasks ts" "length evs < 2 ^ 64"
  shows "timer_run (started t0 ts) evs =
    Some (sched_trace ts [] evs,
      \<lparr>TICKS = t0 + word_of_nat (length evs), SCHEDULER = sched_after ts (cat_options evs)\<rparr>)"
  using timer_run_after[of ts "[]" evs t0] assms by (simp add: started_eq) (simp add: boot_tasks_def)

definition demo_tasks :: "Task list" where
  "demo_tasks = [Task_new_idle 0,
     (Task_new_idle 1)\<lparr>task_state := Ready, rsp := 0x1000, scba := ScbaState_new 2\<rparr>,
     (Task_new_idle 2)\<lparr>task_state := Ready, rsp := 0x2000, scba := ScbaState_new 1\<rparr>]"

lemma demo_tasks_boot: "boot_tasks demo_tasks"
  by (auto simp: boot_tasks_def demo_tasks_def Task_new_idle_def ScbaState_new_def less_Suc_eq numeral_3_eq_3)

theorem scheduler_refines_round_robin_witness:
  "\<exists>st. timer_run (started 0 demo_tasks) [Some 7, Some 8, None, Some 9, Some 10] =
     Some ([[eoi, SwitchTo 0x1000], [eoi, SwitchTo 0x2000], [eoi], [eoi, Lfence, Mfence, SwitchTo 7], [eoi, SwitchTo 8]], st)"
proof -
  let ?evs = "[Some 7, Some 8, None, Some 9, Some 10]"
  have "unat (- 1 :: u64) = 18446744073709551615" by (simp add: unsigned_minus_1_eq_mask mask_eq_exp_minus_1)
  then have "sched_trace demo_tasks [] ?evs =
    [[eoi, SwitchTo 0x1000], [eoi, SwitchTo 0x2000], [eoi], [eoi, Lfence, Mfence, SwitchTo 7], [eoi, SwitchTo 8]]"
    by (simp add: switch_trace_def fence_due_def resume_rsp_def turns_def slots_def epoch_len_def demo_tasks_def
        Task_new_idle_def ScbaState_new_def upt_rec)
  with scheduler_refines_round_robin[OF demo_tasks_boot, of ?evs 0] show ?thesis
    by (simp del: timer_run.simps sched_trace.simps)
qed

section \<open>Budgets and fairness\<close>

text \<open>The scheduler after a run from \<open>started\<close>, as its own function for the statements below.\<close>

definition run_scheduler :: "u64 \<Rightarrow> Task list \<Rightarrow> u64 option list \<Rightarrow> (cpu_action list list \<times> Scheduler) panics" where
  "run_scheduler t0 ts evs = do { (tr, st) \<leftarrow> timer_run (started t0 ts) evs; Some (tr, SCHEDULER st) }"

definition fences_in :: "cpu_action list list \<Rightarrow> nat" where
  "fences_in tr = length (filter (\<lambda>acts. Lfence \<in> set acts) tr)"

lemma run_scheduler_eq:
  "boot_tasks ts \<Longrightarrow> length evs < 2 ^ 64 \<Longrightarrow>
   run_scheduler t0 ts evs = Some (sched_trace ts [] evs, sched_after ts (cat_options evs))"
  using timer_run_after[of ts "[]" evs t0] by (simp add: run_scheduler_def started_eq) (simp add: boot_tasks_def)

lemma fences_in_trace:
  "0 < length ts \<Longrightarrow>
   fences_after ts (length sps) + fences_in (sched_trace ts sps evs) = fences_after ts (length (sps @ cat_options evs))"
proof (induction evs arbitrary: sps)
  case (Cons e evs)
  then show ?case
  proof (cases e)
    case (Some sp)
    have "fences_in (switch_trace ts sps # tr) = fences_in tr + (if fence_due ts (length sps) then 1 else 0)" for tr
      by (simp add: fences_in_def switch_trace_def)
    with Cons.IH[of "sps @ [sp]"] Cons.prems show ?thesis by (simp add: Some fences_Suc)
  qed (simp add: fences_in_def)
qed (simp add: fences_in_def)

lemma length_cat_options: "length (cat_options evs) \<le> length evs"
  by (induction evs rule: cat_options.induct) auto

text \<open>C26: Leakage budgets hold: at every point of a run a task with budget \<open>B\<close> has used fewer than
  \<open>B\<close> ticks since its last fence (none, for the degenerate budget 0), its ticks are its completed
  epochs times \<open>B\<close> plus the current ones, and the fences the processor executed are exactly the
  fences charged to the tasks and the total that is reported.\<close>

theorem leakage_budget:
  assumes "boot_tasks ts" "length evs < 2 ^ 64"
  shows "\<exists>tr s. run_scheduler t0 ts evs = Some (tr, s) \<and>
    (\<forall>i<length ts. let sc = scba (tasks s ! i); B = max 1 (unat (budget_max (scba (ts ! i)))) in
        unat (budget_consumed sc) < B \<and>
        unat (fence_count sc) * B + unat (budget_consumed sc) = turns (length ts) (length (cat_options evs)) i \<and>
        epoch sc = fence_count sc) \<and>
    unat (total_fences (stats s)) = (\<Sum>i<length ts. unat (fence_count (scba (tasks s ! i)))) \<and>
    fences_in tr = unat (total_fences (stats s))"
proof -
  let ?k = "length (cat_options evs)" and ?n = "length ts"
  have k: "?k < 2 ^ 64" using length_cat_options[of evs] assms(2) by linarith
  have n: "0 < ?n" using assms(1) by (auto simp: boot_tasks_def)
  have t: "turns ?n ?k i < 2 ^ 64" for i using turns_le[of ?n ?k i] k by linarith
  have w: "unat (word_of_nat (turns ?n ?k i div B) :: u64) = turns ?n ?k i div B"
      "unat (word_of_nat (turns ?n ?k i mod B) :: u64) = turns ?n ?k i mod B" for i B
    using le_less_trans[OF div_le_dividend t] le_less_trans[OF mod_less_eq_dividend t]
    by (simp_all only: unat_small)
  have F: "unat (word_of_nat (fences_after ts ?k) :: u64) = fences_after ts ?k"
    by (rule unat_small) (use fences_le[OF n, of ?k] k in linarith)
  have "fences_in (sched_trace ts [] evs) = fences_after ts ?k"
    using fences_in_trace[OF n, of "[]" evs] by (simp add: fences_after_def turns_def slots_def)
  then show ?thesis
    unfolding run_scheduler_eq[OF assms]
    by (simp add: sched_after_def task_after_def scba_after_def Let_def w[simplified] F[simplified])
      (simp add: fences_after_def epoch_len_def div_mult_mod_eq)
qed

theorem leakage_budget_witness:
  "\<exists>tr s. run_scheduler 0 demo_tasks [Some 1, Some 2, Some 3] = Some (tr, s) \<and> fences_in tr = unat (total_fences (stats s))"
  using leakage_budget[OF demo_tasks_boot, of "[Some 1, Some 2, Some 3]" 0] by auto

lemma round_robin_reaches:
  fixes i n k :: nat
  assumes "i < n"
  shows "\<exists>m<n. (k + m) mod n = i"
proof -
  have "i \<in> (\<lambda>m. (k + m) mod n) ` {..<n}" using mod_shift_image[of n k] assms by simp
  then show ?thesis by auto
qed

text \<open>C27: No task starves: whatever happened before, every task is the running one after fewer further
  switches than there are tasks, however many interrupts are lost to the lock in between.\<close>

theorem every_task_runs:
  assumes "boot_tasks ts" "i < length ts"
  shows "\<exists>m<length ts. \<forall>more. length (cat_options more) = m \<and> length (evs @ more) < 2 ^ 64 \<longrightarrow>
    (\<exists>tr s. run_scheduler t0 ts (evs @ more) = Some (tr, s) \<and> current s = i \<and>
       (\<forall>j<length ts. task_state (tasks s ! j) = (if j = i then Running else Ready)))"
proof -
  obtain m where "m < length ts" "(length (cat_options evs) + m) mod length ts = i"
    using round_robin_reaches[OF assms(2)] by blast
  then show ?thesis
    by (intro exI[of _ m]) (auto simp: run_scheduler_eq[OF assms(1)] sched_after_def task_after_def Let_def)
qed

theorem every_task_runs_witness:
  "\<exists>m<3. \<forall>more. length (cat_options more) = m \<and> length ([None, Some 1] @ more) < 2 ^ 64 \<longrightarrow>
    (\<exists>tr s. run_scheduler 0 demo_tasks ([None, Some 1] @ more) = Some (tr, s) \<and> current s = 2)"
proof -
  have l: "length demo_tasks = 3" "2 < length demo_tasks" by (simp_all add: demo_tasks_def)
  from every_task_runs[OF demo_tasks_boot l(2), of "[None, Some 1]" 0, unfolded l(1)] show ?thesis by blast
qed

end
