(* ===== verification/Context_Switch.thy ===== *)
theory Context_Switch
  imports Byte_Memory Scheduler
begin

unbundle bit_operations_syntax

text \<open>
  The two assembly routines of the kernel, \<open>kernel/src/context_switch.s\<close> and
  \<open>kernel/src/syscall_entry.s\<close>, run on a model of the part of the processor they use. A
  suspended task resumes with its registers, a new task starts at its entry point, and a
  system call brings the user back to where it was.
\<close>

section \<open>The processor\<close>

datatype reg = RAX | RBX | RCX | RDX | RSI | RDI | RBP | RSP | R11 | R12 | R13 | R14 | R15

record cpu =
  regs :: "reg \<Rightarrow> u64"
  rip :: u64
  rflags :: u64
  ram :: mem

datatype symbol = SYSCALL_USER_RSP | SYSCALL_KERNEL_RSP

text \<open>Straight-line code: \<open>rip\<close> is tracked where control leaves the routine.\<close>

datatype instr =
    Push reg | Pop reg | Pushfq | Popfq
  | MovReg reg reg
  | MovToMem reg reg
  | MovToSym reg symbol
  | MovFromSym symbol reg
  | CallDispatch
  | Ret | Sysretq

text \<open>The flags that \<open>popfq\<close> and \<open>sysretq\<close> write in ring 0; bit 1 reads as one.\<close>

definition popf :: "u64 \<Rightarrow> u64" where
  "popf v = (v AND 0x247FD5) OR 2"

definition sysret_flags :: "u64 \<Rightarrow> u64" where
  "sysret_flags v = (v AND 0x3C7FD7) OR 2"

text \<open>The addresses of the two statics are chosen by the linker and \<open>dispatch\<close> is the whole call of
  the compiled \<open>syscall_dispatch\<close>; both are parameters.\<close>

fun exec :: "(symbol \<Rightarrow> u64) \<Rightarrow> (cpu \<Rightarrow> cpu) \<Rightarrow> instr \<Rightarrow> cpu \<Rightarrow> cpu" where
  "exec addr dispatch (Push r) c =
     (let sp = regs c RSP - 8 in c\<lparr>regs := (regs c)(RSP := sp), ram := store64 (ram c) sp (regs c r)\<rparr>)"
| "exec addr dispatch (Pop r) c =
     (let sp = regs c RSP in c\<lparr>regs := (regs c)(RSP := sp + 8, r := load64 (ram c) sp)\<rparr>)"
| "exec addr dispatch Pushfq c =
     (let sp = regs c RSP - 8 in c\<lparr>regs := (regs c)(RSP := sp), ram := store64 (ram c) sp (rflags c AND 0xFCFFFF)\<rparr>)"
| "exec addr dispatch Popfq c =
     (let sp = regs c RSP in c\<lparr>regs := (regs c)(RSP := sp + 8), rflags := popf (load64 (ram c) sp)\<rparr>)"
| "exec addr dispatch (MovReg src dst) c = c\<lparr>regs := (regs c)(dst := regs c src)\<rparr>"
| "exec addr dispatch (MovToMem src at) c = c\<lparr>ram := store64 (ram c) (regs c at) (regs c src)\<rparr>"
| "exec addr dispatch (MovToSym src s) c = c\<lparr>ram := store64 (ram c) (addr s) (regs c src)\<rparr>"
| "exec addr dispatch (MovFromSym s dst) c = c\<lparr>regs := (regs c)(dst := load64 (ram c) (addr s))\<rparr>"
| "exec addr dispatch CallDispatch c = dispatch c"
| "exec addr dispatch Ret c =
     (let sp = regs c RSP in c\<lparr>regs := (regs c)(RSP := sp + 8), rip := load64 (ram c) sp\<rparr>)"
| "exec addr dispatch Sysretq c = c\<lparr>rip := regs c RCX, rflags := sysret_flags (regs c R11)\<rparr>"

definition run :: "(symbol \<Rightarrow> u64) \<Rightarrow> (cpu \<Rightarrow> cpu) \<Rightarrow> instr list \<Rightarrow> cpu \<Rightarrow> cpu" where
  "run addr dispatch is c = fold (exec addr dispatch) is c"

section \<open>The routines\<close>

definition context_switch_save :: "instr list" where
  "context_switch_save =
     [Pushfq, Push RBP, Push RBX, Push R12, Push R13, Push R14, Push R15, MovToMem RSP RDI]"

definition context_switch_restore :: "instr list" where
  "context_switch_restore =
     [MovReg RSI RSP, Pop R15, Pop R14, Pop R13, Pop R12, Pop RBX, Pop RBP, Popfq, Ret]"

definition context_switch :: "cpu \<Rightarrow> cpu" where
  "context_switch = run (\<lambda>_. 0) id (context_switch_save @ context_switch_restore)"

definition syscall_entry :: "instr list" where
  "syscall_entry =
     [MovToSym RSP SYSCALL_USER_RSP, MovFromSym SYSCALL_KERNEL_RSP RSP,
      Push RCX, Push R11, Push RBP, Push RBX, Push R12, Push R13, Push R14, Push R15,
      MovReg RDX RCX, MovReg RSI RDX, MovReg RDI RSI, MovReg RAX RDI,
      CallDispatch,
      Pop R15, Pop R14, Pop R13, Pop R12, Pop RBX, Pop RBP, Pop R11, Pop RCX,
      MovFromSym SYSCALL_USER_RSP RSP, Sysretq]"

section \<open>Saved contexts\<close>

text \<open>The frame at the saved stack pointer, lowest address first, in the order of \<open>InitCtx\<close>.\<close>

definition load_ctx :: "mem \<Rightarrow> u64 \<Rightarrow> u64 list" where
  "load_ctx m a = map (\<lambda>i. load64 m (a + word_of_nat (8 * i))) [0..<8]"

definition ctx_of :: "cpu \<Rightarrow> u64 list" where
  "ctx_of c = [regs c R15, regs c R14, regs c R13, regs c R12, regs c RBX, regs c RBP,
     rflags c AND 0xFCFFFF, load64 (ram c) (regs c RSP)]"

lemma load_ctx_eq:
  "load_ctx m a = [load64 m a, load64 m (a + 8), load64 m (a + 16), load64 m (a + 24), load64 m (a + 32),
     load64 m (a + 40), load64 m (a + 48), load64 m (a + 56)]"
  by (simp add: load_ctx_def upt_rec)

lemma restore_ctx:
  fixes addr d
  assumes "load_ctx (ram c) (regs c RSI) = [v15, v14, v13, v12, vbx, vbp, vfl, vip]"
  defines "c' \<equiv> run addr d context_switch_restore c"
  shows "regs c' R15 = v15" "regs c' R14 = v14" "regs c' R13 = v13" "regs c' R12 = v12" "regs c' RBX = vbx"
    "regs c' RBP = vbp" "rflags c' = popf vfl" "rip c' = vip" "regs c' RSP = regs c RSI + 64" "ram c' = ram c"
  using assms(1)
  by (simp_all add: c'_def run_def context_switch_restore_def load_ctx_eq add.assoc)

lemma load_ctx_store64_apart: "apart p 8 F 64 \<Longrightarrow> load_ctx (store64 m p v) F = load_ctx m F"
  by (unfold load_ctx_def, rule map_cong[OF refl], rule load64_store64_apart, rule apart_sub[of p 8 F 64]) auto

lemma load_ctx_cong: "(\<And>x. in_range F 64 x \<Longrightarrow> m x = m' x) \<Longrightarrow> load_ctx m F = load_ctx m' F"
  by (unfold load_ctx_def, rule map_cong[OF refl], rule load64_nth[of F 64]) auto

lemma run_append: "run addr d (is @ js) c = run addr d js (run addr d is c)"
  by (simp add: run_def)

lemma save_ram:
  fixes addr d
  assumes "regs c RSP = F + 56"
  defines "c' \<equiv> run addr d context_switch_save c"
  shows "\<exists>m. ram c' = store64 m (regs c RDI) F \<and> load_ctx m F = ctx_of c \<and> (\<forall>x. \<not> in_range F 56 x \<longrightarrow> m x = ram c x)"
    "regs c' RSI = regs c RSI"
proof -
  have sub: "F + 56 - 8 = F + 48" "F + 48 - 8 = F + 40" "F + 40 - 8 = F + 32" "F + 32 - 8 = F + 24" "F + 24 - 8 = F + 16"
    "F + 16 - 8 = F + 8" by simp_all
  define m where "m = store64 (store64 (store64 (store64 (store64 (store64 (store64 (ram c) (F + 48) (rflags c AND 0xFCFFFF))
    (F + 40) (regs c RBP)) (F + 32) (regs c RBX)) (F + 24) (regs c R12)) (F + 16) (regs c R13)) (F + 8) (regs c R14)) F (regs c R15)"
  have "ram c' = store64 m (regs c RDI) F"
    by (simp add: c'_def run_def context_switch_save_def assms(1) sub Let_def m_def)
  moreover have "load_ctx m F = ctx_of c"
    by (simp add: load_ctx_eq m_def ctx_of_def load64_store64_apart apart_offsets assms(1))
      (simp add: load64_store64_apart apart_def)
  moreover have "m x = ram c x" if "\<not> in_range F 56 x" for x
  proof -
    have "\<not> in_range (F + word_of_nat i) 8 x" if "i + 8 \<le> 56" for i
      using in_range_sub[of F i 8 x 56] that \<open>\<not> in_range F 56 x\<close> by auto
    from this[of 0] this[of 8] this[of 16] this[of 24] this[of 32] this[of 40] this[of 48] show ?thesis
      by (simp add: store64_out m_def)
  qed
  ultimately show "\<exists>m. ram c' = store64 m (regs c RDI) F \<and> load_ctx m F = ctx_of c \<and> (\<forall>x. \<not> in_range F 56 x \<longrightarrow> m x = ram c x)"
    by blast
  show "regs c' RSI = regs c RSI" by (simp add: c'_def run_def context_switch_save_def Let_def)
qed

text \<open>The two halves of a switch, seen from the outgoing and from the incoming task.\<close>

lemma context_switch_saves:
  assumes "apart (regs c RDI) 8 (regs c RSP - 56) 64"
  shows "load_ctx (ram (context_switch c)) (regs c RSP - 56) = ctx_of c"
    "load64 (ram (context_switch c)) (regs c RDI) = regs c RSP - 56"
proof -
  have "ram (run addr d context_switch_restore c') = ram c'" for addr d c'
    by (simp add: run_def context_switch_restore_def Let_def)
  moreover obtain m where "ram (run (\<lambda>_. 0) id context_switch_save c) = store64 m (regs c RDI) (regs c RSP - 56)"
      "load_ctx m (regs c RSP - 56) = ctx_of c"
    using save_ram(1)[of c "regs c RSP - 56" "\<lambda>_. 0" id] by auto
  ultimately show "load_ctx (ram (context_switch c)) (regs c RSP - 56) = ctx_of c"
    "load64 (ram (context_switch c)) (regs c RDI) = regs c RSP - 56"
    using assms by (simp_all add: context_switch_def run_append load_ctx_store64_apart)
qed

lemma context_switch_loads:
  assumes "apart (regs c RSP - 56) 56 F 64" "apart (regs c RDI) 8 F 64" "regs c RSI = F"
    "load_ctx (ram c) F = [v15, v14, v13, v12, vbx, vbp, vfl, vip]"
  defines "c' \<equiv> context_switch c"
  shows "regs c' R15 = v15" "regs c' R14 = v14" "regs c' R13 = v13" "regs c' R12 = v12" "regs c' RBX = vbx"
    "regs c' RBP = vbp" "rflags c' = popf vfl" "rip c' = vip" "regs c' RSP = F + 64"
proof -
  define s where "s = run (\<lambda>_. 0) id context_switch_save c"
  obtain m where m: "ram s = store64 m (regs c RDI) (regs c RSP - 56)" "\<forall>x. \<not> in_range (regs c RSP - 56) 56 x \<longrightarrow> m x = ram c x"
    using save_ram(1)[of c "regs c RSP - 56" "\<lambda>_. 0" id] by (auto simp: s_def)
  have "in_range F 64 x \<Longrightarrow> m x = ram c x" for x
    using m(2) apart_out[OF assms(1), of "unat (x - F)"] by (auto simp: in_range_def)
  then have "load_ctx m F = load_ctx (ram c) F" by (rule load_ctx_cong)
  moreover have s: "regs s RSI = F" using save_ram(2)[of c "regs c RSP - 56"] assms(3) by (simp add: s_def)
  ultimately have "load_ctx (ram s) (regs s RSI) = [v15, v14, v13, v12, vbx, vbp, vfl, vip]"
    using assms(2,4) m(1) by (simp add: load_ctx_store64_apart)
  from restore_ctx[OF this, of "\<lambda>_. 0" id] show "regs c' R15 = v15" "regs c' R14 = v14" "regs c' R13 = v13"
    "regs c' R12 = v12" "regs c' RBX = vbx" "regs c' RBP = vbp" "rflags c' = popf vfl" "rip c' = vip" "regs c' RSP = F + 64"
    by (simp_all add: c'_def context_switch_def run_append s_def[symmetric] s)
qed

lemma popf_saved: "popf (f AND 0xFCFFFF) = popf f"
  by (simp add: popf_def and.assoc)

section \<open>Switching is transparent to the tasks\<close>

text \<open>C24: A suspended task resumes where it was: if a task is switched out, its stack frame is left alone
  while others run, and some later switch is given the stack pointer that was saved for it, then
  it continues after its call with the registers the calling convention preserves, its stack
  pointer and its flags, the interrupt flag among them, as they were.\<close>

theorem suspended_task_resumes:
  assumes "apart (regs c RDI) 8 (regs c RSP - 56) 64"
    and "\<And>x. in_range (regs c RSP - 56) 64 x \<Longrightarrow> ram t x = ram (context_switch c) x"
    and "regs t RSI = load64 (ram (context_switch c)) (regs c RDI)"
    and "apart (regs t RSP - 56) 56 (regs c RSP - 56) 64" "apart (regs t RDI) 8 (regs c RSP - 56) 64"
  shows "(\<forall>r \<in> {RBX, RBP, R12, R13, R14, R15}. regs (context_switch t) r = regs c r) \<and>
    regs (context_switch t) RSP = regs c RSP + 8 \<and>
    rip (context_switch t) = load64 (ram c) (regs c RSP) \<and>
    rflags (context_switch t) = popf (rflags c)"
proof -
  have "load_ctx (ram t) (regs c RSP - 56) = ctx_of c"
    using load_ctx_cong[of "regs c RSP - 56" "ram t", OF assms(2)] context_switch_saves(1)[OF assms(1)] by simp
  note l = context_switch_loads[OF assms(4,5) _ this[unfolded ctx_of_def]]
  show ?thesis
    using l assms(3) context_switch_saves(2)[OF assms(1)] by (simp add: popf_saved)
qed

text \<open>Two calls of the routine: task A leaves at \<open>demo_leave\<close>, task B at \<open>demo_back\<close> for A.\<close>

definition demo_leave :: cpu where
  "demo_leave = \<lparr>regs = (\<lambda>_. 0)(RSP := 0x10000, RDI := 0x500, RSI := 0x20000, RBX := 11, R12 := 12),
     rip = 0, rflags = 0x202, ram = (\<lambda>_. 0)\<rparr>"

definition demo_back :: cpu where
  "demo_back = \<lparr>regs = (\<lambda>_. 0)(RSP := 0x30000, RDI := 0x508, RSI := 0xFFC8), rip = 0, rflags = 0x202,
     ram = ram (context_switch demo_leave)\<rparr>"

theorem suspended_task_resumes_witness:
  "regs (context_switch demo_back) RBX = 11 \<and> regs (context_switch demo_back) R12 = 12 \<and>
   regs (context_switch demo_back) RSP = 0x10008 \<and> rflags (context_switch demo_back) = 0x202"
proof -
  have a: "apart (regs demo_leave RDI) 8 (regs demo_leave RSP - 56) 64"
    by (simp add: apart_def demo_leave_def)
  have "regs demo_back RSI = load64 (ram (context_switch demo_leave)) (regs demo_leave RDI)"
    using context_switch_saves(2)[OF a] by (simp add: demo_leave_def demo_back_def)
  from suspended_task_resumes[OF a _ this] show ?thesis
    by (simp add: apart_def demo_back_def) (simp add: demo_leave_def popf_def)
qed

text \<open>A new task starts at its entry point: switching to a task built by \<open>new_with_budget\<close> whose stack is in
  memory jumps to the entry point with interrupts enabled, cleared registers and a stack
  pointer inside the task's own stack, 128 bytes below its top.\<close>

theorem new_task_starts_at_entry:
  assumes "Task_new_with_budget tid entry base sz b = Some t" "sz < 2 ^ 64"
    and "load_bytes (ram c) base sz = task_stack t" "regs c RSI = rsp t"
    and "apart (regs c RSP - 56) 56 (rsp t) 64" "apart (regs c RDI) 8 (rsp t) 64"
  shows "rip (context_switch c) = entry \<and> rflags (context_switch c) = 0x202 \<and>
    (\<forall>r \<in> {RBX, RBP, R12, R13, R14, R15}. regs (context_switch c) r = 0) \<and>
    unat (regs (context_switch c) RSP) = unat base + sz - 128 \<and> 192 \<le> sz"
proof -
  let ?ctx = "concat (map (to_le_bytes 8) (init_ctx entry))"
  have top: "unat base + sz < 2 ^ 64" and min: "192 \<le> sz" and rsp: "unat (rsp t) = unat base + (sz - 192)"
    and stack: "task_stack t = copy_at (sz - 192) ?ctx (replicate sz 0)"
    using assms(1,2) new_with_budget_layout by blast+
  have r: "rsp t = base + word_of_nat (sz - 192)"
    using rsp top by (simp add: word_unat_eq_iff unat_word_ariths(1) unat_of_nat)
  have len: "length ?ctx = 64" by (simp add: init_ctx_def)
  have "load_bytes (ram c) (rsp t) 64 = slice (sz - 192) (sz - 192 + 64) (task_stack t)"
    unfolding r using load_bytes_slice[of "sz - 192" 64 sz] min assms(3) by simp
  also have "\<dots> = ?ctx" unfolding stack len[symmetric] by (rule slice_copy_at) (use min len in simp)
  finally have "load_ctx (ram c) (rsp t) = init_ctx entry"
    using load_quads[of "ram c" "rsp t" "init_ctx entry"] by (simp add: load_ctx_eq init_ctx_def)
  note l = context_switch_loads[OF assms(5,6,4) this[unfolded init_ctx_def]]
  have "unat (rsp t + 64) = unat base + sz - 128"
    using rsp min top by (simp add: unat_word_ariths(1))
  then show ?thesis using l min by (simp add: popf_def)
qed

definition demo_start :: cpu where
  "demo_start = \<lparr>regs = (\<lambda>_. 0)(RSP := 0x10000, RDI := 0x500, RSI := 0x20040), rip = 0, rflags = 0x202,
     ram = store_bytes (\<lambda>_. 0) 0x20000 (copy_at 64 (concat (map (to_le_bytes 8) (init_ctx 0x1234))) (replicate 256 0))\<rparr>"

theorem new_task_starts_at_entry_witness:
  "rip (context_switch demo_start) = 0x1234 \<and> unat (regs (context_switch demo_start) RSP) = 0x20080"
proof -
  let ?ctx = "concat (map (to_le_bytes 8) (init_ctx 0x1234))"
  have len: "length ?ctx = 64" by (simp add: init_ctx_def)
  obtain t where t: "Task_new_with_budget 1 0x1234 0x20000 256 64 = Some t" "rsp t = 0x20040"
    "task_stack t = copy_at 64 ?ctx (replicate 256 0)"
    by (simp add: Task_new_with_budget_def add_chk_def sub_chk_def Let_def)
  have "load_bytes (ram demo_start) 0x20000 256 = task_stack t"
    unfolding t(3) demo_start_def cpu.simps by (rule load_store_same) (use len in simp_all)
  from new_task_starts_at_entry[OF t(1) _ this] show ?thesis
    by (simp add: t(2) demo_start_def apart_def)
qed

section \<open>System calls return to the user\<close>

text \<open>The \<open>SYSCALL\<close> instruction as \<open>syscall::init\<close> configures it: the return address and the
  flags go to \<open>rcx\<close> and \<open>r11\<close>, the flags in \<open>SFMASK\<close> are cleared.\<close>

definition syscall_instr :: "u64 \<Rightarrow> cpu \<Rightarrow> cpu" where
  "syscall_instr sfmask c = c\<lparr>regs := (regs c)(RCX := rip c, R11 := rflags c), rflags := rflags c AND NOT sfmask\<rparr>"

text \<open>What the stub relies on about the compiled dispatcher, the System V calling convention: the
  preserved registers and the stack pointer come back unchanged, and so do the memory of the
  caller's frame and the variable that holds the user's stack pointer.\<close>

definition sysv_call :: "(symbol \<Rightarrow> u64) \<Rightarrow> (cpu \<Rightarrow> cpu) \<Rightarrow> bool" where
  "sysv_call addr dispatch \<longleftrightarrow> (\<forall>c.
     (\<forall>r \<in> {RBX, RBP, RSP, R12, R13, R14, R15}. regs (dispatch c) r = regs c r) \<and>
     (\<forall>x. in_range (regs c RSP) 64 x \<or> in_range (addr SYSCALL_USER_RSP) 8 x \<longrightarrow> ram (dispatch c) x = ram c x))"

definition dispatch_args :: "cpu \<Rightarrow> u64 \<times> u64 \<times> u64 \<times> u64" where
  "dispatch_args c = (regs c RDI, regs c RSI, regs c RDX, regs c RCX)"

text \<open>The stub up to the call and after it.\<close>

definition stub_in :: "instr list" where "stub_in = take 14 syscall_entry"
definition stub_out :: "instr list" where "stub_out = drop 15 syscall_entry"

lemma syscall_entry_split: "syscall_entry = stub_in @ [CallDispatch] @ stub_out"
  by (simp add: stub_in_def stub_out_def syscall_entry_def)

definition user_ctx :: "cpu \<Rightarrow> u64 list" where
  "user_ctx c = [regs c R15, regs c R14, regs c R13, regs c R12, regs c RBX, regs c RBP, regs c R11, regs c RCX]"

lemma stub_in_saves:
  fixes addr d
  assumes "load64 (ram c) (addr SYSCALL_KERNEL_RSP) = F + 64" "apart (addr SYSCALL_USER_RSP) 8 (addr SYSCALL_KERNEL_RSP) 8"
    "apart F 64 (addr SYSCALL_USER_RSP) 8"
  defines "k \<equiv> run addr d stub_in c"
  shows "load_ctx (ram k) F = user_ctx c" "load64 (ram k) (addr SYSCALL_USER_RSP) = regs c RSP" "regs k RSP = F"
    "dispatch_args k = (regs c RAX, regs c RDI, regs c RSI, regs c RDX)" "rflags k = rflags c"
proof -
  have sub: "F + 64 - 8 = F + 56" "F + 56 - 8 = F + 48" "F + 48 - 8 = F + 40" "F + 40 - 8 = F + 32" "F + 32 - 8 = F + 24"
    "F + 24 - 8 = F + 16" "F + 16 - 8 = F + 8" by simp_all
  define u where "u = store64 (ram c) (addr SYSCALL_USER_RSP) (regs c RSP)"
  define m where "m = store64 (store64 (store64 (store64 (store64 (store64 (store64 (store64 u (F + 56) (regs c RCX))
    (F + 48) (regs c R11)) (F + 40) (regs c RBP)) (F + 32) (regs c RBX)) (F + 24) (regs c R12)) (F + 16) (regs c R13))
    (F + 8) (regs c R14)) F (regs c R15)"
  have u: "load64 u (addr SYSCALL_KERNEL_RSP) = F + 64" using assms(1,2) by (simp add: u_def load64_store64_apart)
  have k: "ram k = m" "regs k RSP = F" "rflags k = rflags c"
    "dispatch_args k = (regs c RAX, regs c RDI, regs c RSI, regs c RDX)"
    by (simp_all add: k_def run_def stub_in_def syscall_entry_def u[unfolded u_def] sub Let_def m_def u_def dispatch_args_def)
  have "apart (F + word_of_nat i) 8 (addr SYSCALL_USER_RSP) 8" if "i + 8 \<le> 64" for i
    using assms(3) that by (rule apart_sub_left) simp
  from this[of 0] this[of 8] this[of 16] this[of 24] this[of 32] this[of 40] this[of 48] this[of 56]
  have "load64 m (addr SYSCALL_USER_RSP) = regs c RSP"
    by (simp add: m_def u_def load64_store64_apart)
  moreover have "load_ctx m F = user_ctx c"
    by (simp add: load_ctx_eq m_def user_ctx_def load64_store64_apart apart_offsets)
      (simp add: load64_store64_apart apart_def)
  ultimately show "load_ctx (ram k) F = user_ctx c" "load64 (ram k) (addr SYSCALL_USER_RSP) = regs c RSP"
    "regs k RSP = F" "dispatch_args k = (regs c RAX, regs c RDI, regs c RSI, regs c RDX)" "rflags k = rflags c"
    using k by simp_all
qed

lemma stub_out_restores:
  fixes addr d
  assumes "load_ctx (ram c) (regs c RSP) = [v15, v14, v13, v12, vbx, vbp, v11, vcx]"
  defines "c' \<equiv> run addr d stub_out c"
  shows "regs c' R15 = v15" "regs c' R14 = v14" "regs c' R13 = v13" "regs c' R12 = v12" "regs c' RBX = vbx" "regs c' RBP = vbp"
    "regs c' RSP = load64 (ram c) (addr SYSCALL_USER_RSP)" "rip c' = vcx" "rflags c' = sysret_flags v11" "regs c' RAX = regs c RAX"
  using assms(1)
  by (simp_all add: c'_def run_def stub_out_def syscall_entry_def load_ctx_eq Let_def add.assoc)

lemma stub_correct:
  fixes addr dispatch c
  assumes "load64 (ram c) (addr SYSCALL_KERNEL_RSP) = F + 64" "apart (addr SYSCALL_USER_RSP) 8 (addr SYSCALL_KERNEL_RSP) 8"
    "apart F 64 (addr SYSCALL_USER_RSP) 8" "sysv_call addr dispatch"
  defines "k \<equiv> run addr dispatch stub_in c" and "c' \<equiv> run addr dispatch syscall_entry c"
  shows "rip c' = regs c RCX" "rflags c' = sysret_flags (regs c R11)"
    "\<forall>r \<in> {RSP, RBX, RBP, R12, R13, R14, R15}. regs c' r = regs c r" "regs c' RAX = regs (dispatch k) RAX"
    "dispatch_args k = (regs c RAX, regs c RDI, regs c RSI, regs c RDX)" "regs k RSP = F" "rflags k = rflags c"
proof -
  note k = stub_in_saves[of c addr F dispatch, OF assms(1-3), folded k_def]
  have pre: "regs (dispatch k) RSP = F" and mem: "\<And>x. in_range F 64 x \<Longrightarrow> ram (dispatch k) x = ram k x"
    "\<And>x. in_range (addr SYSCALL_USER_RSP) 8 x \<Longrightarrow> ram (dispatch k) x = ram k x"
    using assms(4) k(3) by (auto simp: sysv_call_def)
  have ctx: "load_ctx (ram (dispatch k)) (regs (dispatch k) RSP) = load_ctx (ram k) F"
    unfolding pre by (rule load_ctx_cong) (rule mem(1))
  have sp: "load64 (ram (dispatch k)) (addr SYSCALL_USER_RSP) = regs c RSP"
    using load64_nth[of "addr SYSCALL_USER_RSP" 8 "ram (dispatch k)" "ram k" 0, OF mem(2)] k(2) by simp
  have c': "c' = run addr dispatch stub_out (dispatch k)"
    by (simp add: c'_def k_def syscall_entry_split run_def)
  note out = stub_out_restores[OF ctx[unfolded k(1) user_ctx_def], of addr dispatch, folded c']
  show "rip c' = regs c RCX" "rflags c' = sysret_flags (regs c R11)"
    "\<forall>r \<in> {RSP, RBX, RBP, R12, R13, R14, R15}. regs c' r = regs c r" "regs c' RAX = regs (dispatch k) RAX"
    "dispatch_args k = (regs c RAX, regs c RDI, regs c RSI, regs c RDX)" "regs k RSP = F" "rflags k = rflags c"
    using out sp k by simp_all
qed

text \<open>C25: A system call is transparent to the user: for every dispatcher that keeps the calling convention,
  the user continues after the \<open>SYSCALL\<close> instruction with its stack pointer, its preserved
  registers and its flags, and finds the dispatcher's answer in \<open>rax\<close>; the dispatcher was
  called with the number and the three arguments, on the kernel's stack, with interrupts off.\<close>

theorem syscall_returns_to_user:
  fixes addr dispatch u
  assumes "load64 (ram u) (addr SYSCALL_KERNEL_RSP) = F + 64" "apart (addr SYSCALL_USER_RSP) 8 (addr SYSCALL_KERNEL_RSP) 8"
    and "apart F 64 (addr SYSCALL_USER_RSP) 8" "sysv_call addr dispatch"
  defines "k \<equiv> run addr dispatch stub_in (syscall_instr 0x200 u)"
    and "u' \<equiv> run addr dispatch syscall_entry (syscall_instr 0x200 u)"
  shows "rip u' = rip u \<and> rflags u' = sysret_flags (rflags u) \<and>
    (\<forall>r \<in> {RSP, RBX, RBP, R12, R13, R14, R15}. regs u' r = regs u r) \<and>
    regs u' RAX = regs (dispatch k) RAX \<and>
    dispatch_args k = (regs u RAX, regs u RDI, regs u RSI, regs u RDX) \<and> regs k RSP = F \<and> rflags k AND 0x200 = 0"
proof -
  have "ram (syscall_instr 0x200 u) = ram u" by (simp add: syscall_instr_def)
  from stub_correct[of "syscall_instr 0x200 u" addr F dispatch, unfolded this, OF assms(1-4), folded k_def u'_def]
  show ?thesis by (simp add: syscall_instr_def and.assoc)
qed

definition demo_addr :: "symbol \<Rightarrow> u64" where
  "demo_addr s = (case s of SYSCALL_USER_RSP \<Rightarrow> 0x1000 | SYSCALL_KERNEL_RSP \<Rightarrow> 0x1008)"

definition demo_user :: cpu where
  "demo_user = \<lparr>regs = (\<lambda>_. 0)(RSP := 0x500000000000, RAX := 9, RBX := 5), rip = 0x400000000005, rflags = 0x202,
     ram = store64 (\<lambda>_. 0) 0x1008 0x9000\<rparr>"

theorem syscall_returns_to_user_witness:
  "rip (run demo_addr (\<lambda>c. c\<lparr>regs := (regs c)(RAX := 77)\<rparr>) syscall_entry (syscall_instr 0x200 demo_user)) = 0x400000000005 \<and>
   regs (run demo_addr (\<lambda>c. c\<lparr>regs := (regs c)(RAX := 77)\<rparr>) syscall_entry (syscall_instr 0x200 demo_user)) RAX = 77"
proof -
  let ?d = "\<lambda>c. c\<lparr>regs := (regs c)(RAX := 77)\<rparr>"
  have "load64 (ram demo_user) (demo_addr SYSCALL_KERNEL_RSP) = 0x8FC0 + 64" "sysv_call demo_addr ?d"
    "apart (demo_addr SYSCALL_USER_RSP) 8 (demo_addr SYSCALL_KERNEL_RSP) 8" "apart 0x8FC0 64 (demo_addr SYSCALL_USER_RSP) 8"
    by (simp_all add: demo_user_def demo_addr_def sysv_call_def apart_def)
  from syscall_returns_to_user[OF this(1,3,4,2)] show ?thesis by (simp add: demo_user_def)
qed

end
