(* ===== verification/Syscall.thy ===== *)
theory Syscall
  imports Meal Context_Switch
begin

unbundle bit_operations_syntax

text \<open>
  System calls: the segment selectors (\<open>kernel/src/gdt.rs\<close>), the configuration of the \<open>SYSCALL\<close>
  instruction and the dispatcher (\<open>kernel/src/syscall.rs\<close>), the exit notification
  (\<open>kernel/src/user.rs\<close>) and the exception handlers (\<open>kernel/src/interrupts.rs\<close>). The dispatcher
  is shown to answer and to log every call, and the selectors of the three places to agree.
\<close>

section \<open>Segments\<close>

text \<open>The descriptor table crate. \<open>append\<close> panics when the table is full; \<open>selector_new\<close> and
  \<open>selector_index\<close> are \<open>SegmentSelector::new\<close> and \<open>index\<close>.\<close>

datatype Descriptor = kernel_code_segment | kernel_data_segment | tss_segment | user_data_segment | user_code_segment

record 'g gdt_crate =
  gdt_new :: 'g
  gdt_append :: "'g \<Rightarrow> Descriptor \<Rightarrow> ('g \<times> u16) panics"
  selector_new :: "u16 \<Rightarrow> u16 \<Rightarrow> u16"
  selector_index :: "u16 \<Rightarrow> u16"

record Selectors =
  kernel_code :: u16
  kernel_data :: u16
  tss :: u16
  user_data :: u16
  user_code :: u16

definition GDT :: "'g gdt_crate \<Rightarrow> ('g \<times> Selectors) panics" where
  "GDT c = do {
     (g, kc) \<leftarrow> gdt_append c (gdt_new c) kernel_code_segment;
     (g, kd) \<leftarrow> gdt_append c g kernel_data_segment;
     (g, t) \<leftarrow> gdt_append c g tss_segment;
     (g, ud_raw) \<leftarrow> gdt_append c g user_data_segment;
     (g, uc_raw) \<leftarrow> gdt_append c g user_code_segment;
     let ud = selector_new c (selector_index c ud_raw) 3;
         uc = selector_new c (selector_index c uc_raw) 3
     in Some (g, \<lparr>kernel_code = kc, kernel_data = kd, tss = t, user_data = ud, user_code = uc\<rparr>) }"

text \<open>The documented behaviour of the crate: the table has eight slots, the first of them empty from
  the start; a segment takes the next slot, a task state segment the next two; the selector has
  the slot as its index and the privilege level of the descriptor in its low bits.\<close>

fun slots :: "Descriptor \<Rightarrow> nat" where
  "slots d = (if d = tss_segment then 2 else 1)"

fun ring :: "Descriptor \<Rightarrow> u16" where
  "ring d = (if d = user_data_segment \<or> d = user_code_segment then 3 else 0)"

definition gdt_doc :: "'g gdt_crate \<Rightarrow> ('g \<Rightarrow> nat) \<Rightarrow> bool" where
  "gdt_doc c used \<longleftrightarrow> used (gdt_new c) = 1 \<and>
     (\<forall>g d. used g + slots d \<le> 8 \<longrightarrow>
       (\<exists>g'. gdt_append c g d = Some (g', push_bit 3 (word_of_nat (used g)) OR ring d) \<and> used g' = used g + slots d)) \<and>
     (\<forall>i r. r < 4 \<longrightarrow> selector_new c i r = push_bit 3 i OR r) \<and>
     (\<forall>s. selector_index c s = drop_bit 3 s)"

section \<open>Configuration of the SYSCALL instruction\<close>

definition IA32_EFER :: u32 where "IA32_EFER = 0xC0000080"
definition IA32_STAR :: u32 where "IA32_STAR = 0xC0000081"
definition IA32_LSTAR :: u32 where "IA32_LSTAR = 0xC0000082"
definition IA32_SFMASK :: u32 where "IA32_SFMASK = 0xC0000084"
definition STACK_SIZE :: u64 where "STACK_SIZE = 64 * 1024"

type_synonym msrs = "u32 \<Rightarrow> u64"

text \<open>The instructions move the halves of a register through \<open>eax\<close> and \<open>edx\<close>.\<close>

definition msr_halves :: "u32 \<Rightarrow> u32 \<Rightarrow> u64" where
  "msr_halves hi lo = push_bit 32 (ucast hi) OR ucast lo"

definition rdmsr :: "msrs \<Rightarrow> u32 \<Rightarrow> u64" where
  "rdmsr m r = (let lo = ucast (m r); hi = ucast (drop_bit 32 (m r)) in msr_halves hi lo)"

definition wrmsr :: "msrs \<Rightarrow> u32 \<Rightarrow> u64 \<Rightarrow> msrs" where
  "wrmsr m r v = m(r := msr_halves (ucast (drop_bit 32 v)) (ucast v))"

text \<open>\<open>syscall::init\<close>, given the addresses of the stub and of \<open>SYSCALL_STACK\<close>; the second result
  is stored in \<open>SYSCALL_KERNEL_RSP\<close>.\<close>

definition syscall_init :: "u64 \<Rightarrow> u64 \<Rightarrow> msrs \<Rightarrow> (msrs \<times> u64) panics" where
  "syscall_init entry stack m =
     (let m = wrmsr m IA32_EFER (rdmsr m IA32_EFER OR 1);
          m = wrmsr m IA32_STAR (push_bit 48 0x20 OR push_bit 32 0x08);
          m = wrmsr m IA32_LSTAR entry;
          m = wrmsr m IA32_SFMASK 0x200
      in do { stack_end \<leftarrow> add_chk stack STACK_SIZE; Some (m, stack_end AND NOT 0xF) })"

section \<open>The dispatcher\<close>

text \<open>The statics the dispatcher works on. An \<open>i64\<close> is its 64 bits. The lock of the audit log may be
  held (\<open>locked\<close>), in which case nothing is logged, and so may that of the scheduler
  (\<open>sched = None\<close>). Interrupts are off during a call, so \<open>ticks\<close> does not change.\<close>

record kernel =
  syscall_count :: u64
  last_syscall_nr :: u64
  last_syscall_ret :: u64
  user_exited :: bool
  meal :: MealLog

definition notify_exit :: "bool \<Rightarrow> u64 \<Rightarrow> u64 \<Rightarrow> kernel \<Rightarrow> kernel panics" where
  "notify_exit locked ticks code k = do {
     m \<leftarrow> meal_log locked (meal k) ticks ProcessExited 3 code 0;
     Some (k\<lparr>meal := m, user_exited := True\<rparr>) }"

definition syscall_dispatch ::
  "bool \<Rightarrow> u64 \<Rightarrow> ScbaStats option \<Rightarrow> u64 \<Rightarrow> u64 \<Rightarrow> u64 \<Rightarrow> u64 \<Rightarrow> kernel \<Rightarrow> (u64 \<times> kernel) panics" where
  "syscall_dispatch locked ticks sched nr arg1 arg2 arg3 k =
     (let k = k\<lparr>syscall_count := syscall_count k + 1, last_syscall_nr := nr\<rparr> in do {
        m \<leftarrow> meal_log locked (meal k) ticks SyscallDispatched 3 nr 0;
        let k = k\<lparr>meal := m\<rparr> in do {
        (ret, k) \<leftarrow>
          (if nr = 0 then Some (0, k)
           else if nr = 9 then Some (case sched of Some s \<Rightarrow> total_fences s | None \<Rightarrow> - 1, k)
           else if nr = 11 then do { k \<leftarrow> notify_exit locked ticks arg1 k; Some (0, k) }
           else Some (- 38, k));
        Some (ret, k\<lparr>last_syscall_ret := ret\<rparr>) } })"

section \<open>Entering and leaving ring 3\<close>

text \<open>The processor with its segment selectors and model-specific registers. That loading a selector
  checks the descriptor is not modelled.\<close>

record machine =
  core :: cpu
  msr :: msrs
  cs :: u16
  ss :: u16

text \<open>\<open>SYSCALL\<close> takes the kernel's segments from \<open>STAR\<close>, masks the flags and jumps to \<open>LSTAR\<close>; it is
  invalid unless enabled. \<open>SYSRET\<close> takes the user's segments from \<open>STAR\<close>; its effect on the rest
  is that of \<open>Sysretq\<close>.\<close>

definition hw_syscall :: "machine \<Rightarrow> machine option" where
  "hw_syscall m =
     (if bit (msr m IA32_EFER) 0
      then let base = ucast (drop_bit 32 (msr m IA32_STAR)) in
        Some (m\<lparr>core := (syscall_instr (msr m IA32_SFMASK) (core m))\<lparr>rip := msr m IA32_LSTAR\<rparr>,
                cs := base AND 0xFFFC, ss := base + 8\<rparr>)
      else None)"

definition sysret_segments :: "machine \<Rightarrow> machine" where
  "sysret_segments m =
     (let base = ucast (drop_bit 48 (msr m IA32_STAR)) in m\<lparr>cs := (base + 16) OR 3, ss := (base + 8) OR 3\<rparr>)"

definition system_call :: "(symbol \<Rightarrow> u64) \<Rightarrow> (cpu \<Rightarrow> cpu) \<Rightarrow> machine \<Rightarrow> machine option" where
  "system_call addr dispatch m = do {
     k \<leftarrow> hw_syscall m;
     Some (sysret_segments (k\<lparr>core := run addr dispatch syscall_entry (core k)\<rparr>)) }"

definition USER_CODE_VIRT :: u64 where "USER_CODE_VIRT = 0x0000400000000000"
definition USER_STACK_TOP :: u64 where "USER_STACK_TOP = 0x0000500000000000"

definition push :: "u64 \<Rightarrow> cpu \<Rightarrow> cpu" where
  "push v c = (let sp = regs c RSP - 8 in c\<lparr>regs := (regs c)(RSP := sp), ram := store64 (ram c) sp v\<rparr>)"

definition iretq :: "machine \<Rightarrow> machine" where
  "iretq m =
     (let c = core m; sp = regs c RSP; pop = \<lambda>i. load64 (ram c) (sp + i) in
      m\<lparr>core := c\<lparr>rip := pop 0, rflags := (pop 16 AND 0x3D7FD5) OR 2, regs := (regs c)(RSP := pop 24)\<rparr>,
        cs := ucast (pop 8), ss := ucast (pop 32)\<rparr>)"

text \<open>\<open>user::enter\<close>.\<close>

definition enter :: "Selectors \<Rightarrow> u64 \<Rightarrow> machine \<Rightarrow> machine" where
  "enter sel entry m =
     (let cs = ucast (user_code sel); ss = ucast (user_data sel); rflags = 0x202;
          c = push ss (core m); c = push USER_STACK_TOP c; c = push rflags c; c = push cs c; c = push entry c
      in iretq (m\<lparr>core := c\<rparr>))"

section \<open>Exceptions\<close>

text \<open>What happens after a handler: the interrupted code continues, or the processor halts for good.\<close>

datatype aftermath = Continue | HaltLoop

datatype handler = breakpoint | general_protection_fault | page_fault | double_fault | timer

definition PIC_1_OFFSET :: u8 where "PIC_1_OFFSET = 32"

text \<open>The vectors of the exceptions are the processor's.\<close>

definition IDT :: "u8 \<Rightarrow> handler option" where
  "IDT = [3 \<mapsto> breakpoint, 13 \<mapsto> general_protection_fault, 14 \<mapsto> page_fault, 8 \<mapsto> double_fault, PIC_1_OFFSET \<mapsto> timer]"

text \<open>The exception handlers, given the code segment of the interrupted code; the printing is left
  out. The timer's handler is in \<open>Scheduler\<close>.\<close>

definition double_fault_handler :: "bool \<Rightarrow> u64 \<Rightarrow> u16 \<Rightarrow> MealLog \<Rightarrow> (aftermath \<times> MealLog) panics" where
  "double_fault_handler locked ticks code_segment m =
     (if code_segment AND 3 = 3 then do { m \<leftarrow> meal_log locked m ticks ProcessExited 3 0xFF 0; Some (HaltLoop, m) }
      else Some (HaltLoop, m))"

definition breakpoint_handler :: "MealLog \<Rightarrow> (aftermath \<times> MealLog) panics" where
  "breakpoint_handler m = Some (Continue, m)"

definition page_fault_handler :: "MealLog \<Rightarrow> (aftermath \<times> MealLog) panics" where
  "page_fault_handler m = Some (HaltLoop, m)"

definition general_protection_fault_handler :: "MealLog \<Rightarrow> (aftermath \<times> MealLog) panics" where
  "general_protection_fault_handler m = Some (HaltLoop, m)"

section \<open>Every call is answered and logged\<close>

text \<open>The contract of the dispatcher: the number alone determines the answer, and the audit log gets
  an entry for the call and one more for an exit.\<close>

definition syscall_answer :: "ScbaStats option \<Rightarrow> u64 \<Rightarrow> int" where
  "syscall_answer sched nr =
     (if nr = 9 then (case sched of Some s \<Rightarrow> sint (total_fences s) | None \<Rightarrow> - 1)
      else if nr = 0 \<or> nr = 11 then 0 else - 38)"

definition syscall_events :: "u64 \<Rightarrow> u64 \<Rightarrow> u64 \<Rightarrow> event list" where
  "syscall_events ticks nr arg =
     (ticks, SyscallDispatched, 3, nr, 0) # (if nr = 11 then [(ticks, ProcessExited, 3, arg, 0)] else [])"

lemma dispatch_logs:
  assumes "refines key (meal k) evs" "length evs + 2 < 2 ^ 64"
  shows "\<exists>ret k'. syscall_dispatch locked ticks sched nr a1 a2 a3 k = Some (ret, k') \<and>
    sint ret = syscall_answer sched nr \<and> refines key (meal k') (evs @ (if locked then [] else syscall_events ticks nr a1)) \<and>
    syscall_count k' = syscall_count k + 1 \<and> last_syscall_nr k' = nr \<and> last_syscall_ret k' = ret \<and>
    user_exited k' = (nr = 11 \<or> user_exited k)"
proof -
  let ?evs = "if locked then evs else evs @ [(ticks, SyscallDispatched, 3, nr, 0)]"
  obtain m where m: "meal_log locked (meal k) ticks SyscallDispatched 3 nr 0 = Some m" "refines key m ?evs"
    using meal_log_refines[OF assms(1), of locked ticks SyscallDispatched 3 nr 0] assms(2) by auto
  obtain m' where m': "meal_log locked m ticks ProcessExited 3 a1 0 = Some m'"
      "refines key m' (if locked then ?evs else ?evs @ [(ticks, ProcessExited, 3, a1, 0)])"
    using meal_log_refines[OF m(2), of locked ticks ProcessExited 3 a1 0] assms(2) by (cases locked) auto
  show ?thesis
    using m m' by (cases locked; cases sched)
      (auto simp: syscall_dispatch_def Let_def notify_exit_def syscall_answer_def syscall_events_def)
qed

text \<open>C35: Every system call is answered and logged: for any number and arguments the dispatcher returns without
  panic, with the fence count, zero or the error 38 as its number says, having counted the call
  and recorded its number and answer. Unless the audit log is locked the log then also shows the
  call, and the exit when it was one, and still verifies.\<close>

theorem every_syscall_answered:
  assumes "refines key (meal k) evs" "length evs + 2 < 2 ^ 64"
  shows "\<exists>ret k'. syscall_dispatch locked ticks sched nr a1 a2 a3 k = Some (ret, k') \<and>
    sint ret = syscall_answer sched nr \<and>
    syscall_count k' = syscall_count k + 1 \<and> last_syscall_nr k' = nr \<and> last_syscall_ret k' = ret \<and>
    user_exited k' = (nr = 11 \<or> user_exited k) \<and>
    refines key (meal k') (evs @ (if locked then [] else syscall_events ticks nr a1)) \<and>
    MealLog_verify_chain (meal k') =
      Some (min CAPACITY (length evs + (if locked then 0 else length (syscall_events ticks nr a1))), True)"
  using dispatch_logs[OF assms, of locked ticks sched nr a1 a2 a3] refines_verifies by fastforce

definition kernel_at_boot :: "MealLog \<Rightarrow> kernel" where
  "kernel_at_boot m = \<lparr>syscall_count = 0, last_syscall_nr = - 1, last_syscall_ret = 0, user_exited = False, meal = m\<rparr>"

theorem every_syscall_answered_witness:
  "\<exists>m ret k'. MealLog_new K_AUDIT = Some m \<and> syscall_dispatch False 7 None 11 5 0 0 (kernel_at_boot m) = Some (ret, k') \<and>
     ret = 0 \<and> user_exited k' \<and> MealLog_verify_chain (meal k') = Some (2, True)"
proof -
  obtain m where m: "MealLog_new K_AUDIT = Some m" "refines K_AUDIT m []" using refines_new[of K_AUDIT] by auto
  then have "refines K_AUDIT (meal (kernel_at_boot m)) []" by (simp add: kernel_at_boot_def)
  from every_syscall_answered[OF this, of False 7 None 11 5 0 0] m(1) show ?thesis
    by (auto simp: syscall_answer_def syscall_events_def CAPACITY_def signed_eq_0_iff)
qed

section \<open>The selectors agree\<close>

lemma msr_halves_eq: "msr_halves (ucast (drop_bit 32 v)) (ucast v) = v"
  by (rule bit_eqI) (auto simp: msr_halves_def bit_simps)

lemma syscall_init_eq:
  assumes "syscall_init entry stack m = Some (m', sp)"
  shows "m' IA32_EFER = m IA32_EFER OR 1" "m' IA32_STAR = 0x0020000800000000" "m' IA32_LSTAR = entry" "m' IA32_SFMASK = 0x200"
    "16 dvd unat sp" "unat sp \<le> unat stack + 65536" "unat stack + 65520 < unat sp"
proof -
  obtain e where m': "m' = wrmsr (wrmsr (wrmsr (wrmsr m IA32_EFER (rdmsr m IA32_EFER OR 1)) IA32_STAR (push_bit 48 0x20 OR push_bit 32 0x08))
      IA32_LSTAR entry) IA32_SFMASK 0x200"
    and e: "unat e = unat stack + 65536" "sp = e AND NOT 0xF"
    using assms by (auto simp: syscall_init_def Let_def bind_eq_Some_conv STACK_SIZE_def dest!: add_chk_unat)
  show "m' IA32_EFER = m IA32_EFER OR 1" "m' IA32_STAR = 0x0020000800000000" "m' IA32_LSTAR = entry" "m' IA32_SFMASK = 0x200"
    unfolding m' wrmsr_def rdmsr_def Let_def msr_halves_eq
    by (simp_all add: IA32_EFER_def IA32_STAR_def IA32_LSTAR_def IA32_SFMASK_def)
  have "unat sp = unat e - unat e mod 16" using unat_align_down[of e 4] by (simp add: e(2) mask_eq_exp_minus_1)
  then have "unat sp = 16 * (unat e div 16)" by (simp add: minus_mod_eq_mult_div)
  then show "16 dvd unat sp" "unat sp \<le> unat stack + 65536" "unat stack + 65520 < unat sp"
    using e(1) by simp_all
qed

lemma GDT_selectors:
  assumes "gdt_doc c used"
  shows "\<exists>g. GDT c = Some (g, \<lparr>kernel_code = 0x08, kernel_data = 0x10, tss = 0x18, user_data = 0x2B, user_code = 0x33\<rparr>)"
proof -
  have append: "\<exists>g'. gdt_append c g d = Some (g', push_bit 3 (word_of_nat (used g)) OR ring d) \<and> used g' = used g + slots d"
    if "used g + slots d \<le> 8" for g d
    using assms that unfolding gdt_doc_def by blast
  have start: "used (gdt_new c) = 1" and sel: "selector_new c i 3 = push_bit 3 i OR 3" "selector_index c s = drop_bit 3 s" for i s
    using assms by (simp_all add: gdt_doc_def)
  obtain g1 where 1: "gdt_append c (gdt_new c) kernel_code_segment = Some (g1, 0x08)" "used g1 = 2"
    using append[of "gdt_new c" kernel_code_segment] start by auto
  obtain g2 where 2: "gdt_append c g1 kernel_data_segment = Some (g2, 0x10)" "used g2 = 3"
    using append[of g1 kernel_data_segment] 1(2) by auto
  obtain g3 where 3: "gdt_append c g2 tss_segment = Some (g3, 0x18)" "used g3 = 5"
    using append[of g2 tss_segment] 2(2) by auto
  obtain g4 where 4: "gdt_append c g3 user_data_segment = Some (g4, 0x2B)" "used g4 = 6"
    using append[of g3 user_data_segment] 3(2) by auto
  obtain g5 where 5: "gdt_append c g4 user_code_segment = Some (g5, 0x33)"
    using append[of g4 user_code_segment] 4(2) by auto
  show ?thesis by (simp add: GDT_def 1 2 3 4 5 sel Let_def)
qed

lemma ucast_16_64: "ucast (ucast (x :: u16) :: u64) = x"
  by (rule bit_eqI) (simp add: bit_simps)

lemma enter_eq:
  "cs (enter sel entry m) = user_code sel" "ss (enter sel entry m) = user_data sel"
  "rip (core (enter sel entry m)) = entry" "regs (core (enter sel entry m)) RSP = USER_STACK_TOP"
  "rflags (core (enter sel entry m)) = 0x202"
proof -
  define F where "F = regs (core m) RSP - 40"
  have sub: "regs (core m) RSP - 8 = F + 32" "F + 32 - 8 = F + 24" "F + 24 - 8 = F + 16" "F + 16 - 8 = F + 8" "F + 8 - 8 = F"
    by (simp_all add: F_def)
  show "cs (enter sel entry m) = user_code sel" "ss (enter sel entry m) = user_data sel"
    "rip (core (enter sel entry m)) = entry" "regs (core (enter sel entry m)) RSP = USER_STACK_TOP"
    "rflags (core (enter sel entry m)) = 0x202"
    by (simp_all add: enter_def iretq_def push_def Let_def sub load64_store64_apart apart_offsets)
      (simp_all add: load64_store64_apart apart_def ucast_16_64)
qed

text \<open>C36: The rings fit together: the selectors built for the descriptor table are those that \<open>SYSCALL\<close> and
  \<open>SYSRET\<close> derive from the configured register. A system call arrives at the stub in the kernel's
  segments with interrupts off, on an aligned stack inside the reserved area, and returns to the
  user's instruction in the very segments that \<open>enter\<close> started the user program in, which begins at
  its entry point with interrupts on and the top of its stack.\<close>

theorem ring_transitions:
  fixes addr dispatch m
  assumes "gdt_doc c used" "syscall_init stub stack m0 = Some (msr m, F + 64)"
    and "load64 (ram (core m)) (addr SYSCALL_KERNEL_RSP) = F + 64" "apart (addr SYSCALL_USER_RSP) 8 (addr SYSCALL_KERNEL_RSP) 8"
    and "apart F 64 (addr SYSCALL_USER_RSP) 8" "sysv_call addr dispatch"
  shows "\<exists>g sel k u. GDT c = Some (g, sel) \<and>
    hw_syscall m = Some k \<and> cs k = kernel_code sel \<and> ss k = kernel_data sel \<and> rip (core k) = stub \<and>
      rflags (core k) AND 0x200 = 0 \<and>
    16 dvd unat (F + 64) \<and> unat stack + 65520 < unat (F + 64) \<and> unat (F + 64) \<le> unat stack + 65536 \<and>
    system_call addr dispatch m = Some u \<and> cs u = user_code sel \<and> ss u = user_data sel \<and>
      rip (core u) = rip (core m) \<and> regs (core u) RSP = regs (core m) RSP \<and>
    cs (enter sel entry m) = user_code sel \<and> ss (enter sel entry m) = user_data sel \<and>
      rip (core (enter sel entry m)) = entry \<and> regs (core (enter sel entry m)) RSP = USER_STACK_TOP \<and>
      rflags (core (enter sel entry m)) = 0x202"
proof -
  note init = syscall_init_eq[OF assms(2)]
  obtain g where g: "GDT c = Some (g, \<lparr>kernel_code = 0x08, kernel_data = 0x10, tss = 0x18, user_data = 0x2B, user_code = 0x33\<rparr>)"
    using GDT_selectors[OF assms(1)] by blast
  define k where "k = m\<lparr>core := (syscall_instr 0x200 (core m))\<lparr>rip := stub\<rparr>, cs := 0x08, ss := 0x10\<rparr>"
  have k: "hw_syscall m = Some k"
    by (simp add: hw_syscall_def k_def init(1-4) bit_simps Let_def)
  have "load64 (ram (core k)) (addr SYSCALL_KERNEL_RSP) = F + 64" using assms(3) by (simp add: k_def syscall_instr_def)
  note stub = stub_correct[OF this assms(4-6)]
  have "system_call addr dispatch m = Some (k\<lparr>core := run addr dispatch syscall_entry (core k), cs := 0x33, ss := 0x2B\<rparr>)"
    using init(2) by (simp add: system_call_def k sysret_segments_def Let_def) (simp add: k_def)
  then show ?thesis
    using g k init(5-7) stub(1,3) enter_eq[of _ entry m] by (simp add: k_def syscall_instr_def and.assoc)
qed

text \<open>A descriptor table that only counts its slots, and a machine about to call.\<close>

definition counting_gdt :: "nat gdt_crate" where
  "counting_gdt = \<lparr>gdt_new = 1,
     gdt_append = (\<lambda>g d. if g + slots d \<le> 8 then Some (g + slots d, push_bit 3 (word_of_nat g) OR ring d) else None),
     selector_new = (\<lambda>i r. push_bit 3 i OR r), selector_index = drop_bit 3\<rparr>"

definition demo_machine :: machine where
  "demo_machine = \<lparr>core = demo_user\<lparr>ram := store64 (\<lambda>_. 0) 0x1008 0x20000\<rparr>,
     msr = fst (the (syscall_init 0x7000 0x10000 (\<lambda>_. 0))), cs = 0x33, ss = 0x2B\<rparr>"

theorem ring_transitions_witness:
  "\<exists>g sel u. GDT counting_gdt = Some (g, sel) \<and>
     system_call demo_addr (\<lambda>c. c\<lparr>regs := (regs c)(RAX := 77)\<rparr>) demo_machine = Some u \<and>
     cs u = user_code sel \<and> ss u = user_data sel \<and> rip (core u) = 0x400000000005 \<and>
     rip (core (enter sel 0x400000 demo_machine)) = 0x400000"
proof -
  let ?d = "\<lambda>c. c\<lparr>regs := (regs c)(RAX := 77)\<rparr>"
  have 1: "gdt_doc counting_gdt id" by (simp add: gdt_doc_def counting_gdt_def)
  have 2: "syscall_init 0x7000 0x10000 (\<lambda>_. 0) = Some (msr demo_machine, 0x1FFC0 + 64)"
    by (simp add: demo_machine_def syscall_init_def add_chk_def STACK_SIZE_def Let_def)
  have 3: "load64 (ram (core demo_machine)) (demo_addr SYSCALL_KERNEL_RSP) = 0x1FFC0 + 64"
    by (simp add: demo_machine_def demo_addr_def)
  have 4: "apart (demo_addr SYSCALL_USER_RSP) 8 (demo_addr SYSCALL_KERNEL_RSP) 8"
      "apart 0x1FFC0 64 (demo_addr SYSCALL_USER_RSP) 8" "sysv_call demo_addr ?d"
    by (simp_all add: demo_addr_def sysv_call_def apart_def)
  have "rip (core demo_machine) = 0x400000000005" by (simp add: demo_machine_def demo_user_def)
  with ring_transitions[OF 1 2 3 4, of "0x400000"] show ?thesis by auto
qed

end
