(* ===== verification/Paging.thy ===== *)
theory Paging
  imports Byte_Memory
begin

unbundle bit_operations_syntax

text \<open>
  Physical frames and page mappings: the boot-time frame allocator
  (\<open>kernel/src/memory.rs\<close>), the mapping of the kernel heap (\<open>kernel/src/allocator.rs\<close>), and
  the interface to the paging crate, whose operations are parameters.
\<close>

section \<open>The paging crate\<close>

datatype PageTableFlag = PRESENT | WRITABLE | USER_ACCESSIBLE | NO_EXECUTE

type_synonym flags = "PageTableFlag set"

datatype MapToError = FrameAllocationFailed | ParentEntryHugePage | PageAlreadyMapped

text \<open>
  What the kernel uses of the crate: \<open>PhysFrame::containing_address\<close> of \<open>PhysAddr::new\<close> and
  \<open>Page::containing_address\<close> of \<open>VirtAddr::new\<close>, which panic on addresses that are not
  canonical, the addition of \<open>VirtAddr\<close>, \<open>Page::range_inclusive\<close>, and \<open>Mapper::map_to\<close>, which may take frames for page tables from the allocator.
  Frames and pages are their start addresses. \<open>lookup\<close> is the translation that \<open>map_to\<close>
  maintains; only the statements use it.
\<close>

record ('m, 'f) paging =
  phys_frame :: "u64 \<Rightarrow> u64 panics"
  virt_page :: "u64 \<Rightarrow> u64 panics"
  virt_add :: "u64 \<Rightarrow> u64 \<Rightarrow> u64 panics"
  range_inclusive :: "u64 \<Rightarrow> u64 \<Rightarrow> u64 list"
  map_to :: "'m \<Rightarrow> u64 \<Rightarrow> u64 \<Rightarrow> flags \<Rightarrow> 'f \<Rightarrow> ((MapToError + unit) \<times> 'm \<times> 'f) panics"
  lookup :: "'m \<Rightarrow> u64 \<Rightarrow> (u64 \<times> flags) option"

definition page_down :: "u64 \<Rightarrow> u64" where
  "page_down a = a AND NOT 0xFFF"

text \<open>The documented behaviour of the address types.\<close>

definition pages_from :: "u64 \<Rightarrow> nat \<Rightarrow> u64 list" where
  "pages_from s n = map (\<lambda>k. s + word_of_nat (4096 * k)) [0..<n]"

definition addresses_doc :: "('m, 'f) paging \<Rightarrow> bool" where
  "addresses_doc p \<longleftrightarrow>
     (\<forall>a. unat a < 2 ^ 52 \<longrightarrow> phys_frame p a = Some (page_down a)) \<and>
     (\<forall>a. unat a < 2 ^ 47 \<longrightarrow> virt_page p a \<noteq> None) \<and>
     (\<forall>a b. virt_page p a = Some b \<longrightarrow> b = page_down a) \<and>
     (\<forall>a b. unat a + unat b < 2 ^ 47 \<longrightarrow> virt_add p a b \<noteq> None) \<and>
     (\<forall>a b c. virt_add p a b = Some c \<longrightarrow> c = a + b) \<and>
     (\<forall>s e. s \<le> e \<longrightarrow> range_inclusive p s e = pages_from s ((unat e - unat s) div 4096 + 1))"

text \<open>The documented behaviour of \<open>map_to\<close>: it adds the mapping or reports an error and leaves the
  mappings alone, refuses a page that is mapped already, and only takes frames from the
  allocator (\<open>grows\<close> relates the allocator before and after).\<close>

definition map_to_doc :: "('m, 'f) paging \<Rightarrow> ('f \<Rightarrow> 'f \<Rightarrow> bool) \<Rightarrow> bool" where
  "map_to_doc p grows \<longleftrightarrow> (\<forall>m pg f fl a r m' a'. map_to p m pg f fl a = Some (r, m', a') \<longrightarrow>
     grows a a' \<and>
     (case r of Inl e \<Rightarrow> lookup p m' = lookup p m
      | Inr u \<Rightarrow> lookup p m pg = None \<and> lookup p m' = (lookup p m)(pg \<mapsto> (f, fl))))"

lemma not_Inl_unit: "\<forall>x. r \<noteq> Inl x \<Longrightarrow> r = Inr ()"
  by (cases r) auto

section \<open>Frame allocators\<close>

text \<open>An allocator that may only have given out more.\<close>

definition grows_by :: "('f \<Rightarrow> bool) \<Rightarrow> ('f \<Rightarrow> u64 set) \<Rightarrow> 'f \<Rightarrow> 'f \<Rightarrow> bool" where
  "grows_by ok issued a a' \<longleftrightarrow> (ok a \<longrightarrow> ok a' \<and> issued a \<subseteq> issued a')"

text \<open>What the users of a frame allocator rely on: a frame is never handed out twice, and frames
  are page-aligned physical addresses.\<close>

locale frame_source =
  fixes allocate :: "'f \<Rightarrow> (u64 option \<times> 'f) option"
    and issued :: "'f \<Rightarrow> u64 set"
    and ok :: "'f \<Rightarrow> bool"
  assumes issued_aligned: "ok a \<Longrightarrow> f \<in> issued a \<Longrightarrow> 4096 dvd unat f \<and> unat f < 2 ^ 52"
    and allocate_fresh: "ok a \<Longrightarrow> allocate a = Some (Some f, a') \<Longrightarrow>
      ok a' \<and> f \<notin> issued a \<and> insert f (issued a) \<subseteq> issued a'"
    and allocate_none: "ok a \<Longrightarrow> allocate a = Some (None, a') \<Longrightarrow> ok a' \<and> issued a \<subseteq> issued a'"
begin

lemma grows_refl: "grows_by ok issued a a"
  by (simp add: grows_by_def)

lemma grows_trans: "grows_by ok issued a b \<Longrightarrow> grows_by ok issued b c \<Longrightarrow> grows_by ok issued a c"
  by (auto simp: grows_by_def)

lemma allocate_grows: "allocate a = Some (r, a') \<Longrightarrow> grows_by ok issued a a'"
  using allocate_fresh[of a _ a'] allocate_none[of a a'] by (cases r) (auto simp: grows_by_def)

end

section \<open>The boot-time allocator\<close>

text \<open>A region of the boot loader's memory map; the code only asks whether its kind is
  \<open>Usable\<close>.\<close>

record MemoryRegion =
  region_start :: u64
  region_end :: u64
  region_usable :: bool

record BootInfoFrameAllocator =
  memory_regions :: "MemoryRegion list"
  next_frame :: u64

definition BootInfoFrameAllocator_init :: "MemoryRegion list \<Rightarrow> BootInfoFrameAllocator" where
  "BootInfoFrameAllocator_init rs = \<lparr>memory_regions = rs, next_frame = 0\<rparr>"

definition step_by_4096 :: "u64 \<Rightarrow> u64 \<Rightarrow> u64 list" where
  "step_by_4096 s e = pages_from s ((unat e - unat s + 4095) div 4096)"

definition usable_addrs :: "BootInfoFrameAllocator \<Rightarrow> u64 list" where
  "usable_addrs a = concat (map (\<lambda>r. step_by_4096 (region_start r) (region_end r)) (filter region_usable (memory_regions a)))"

text \<open>\<open>usable_frames().nth(n)\<close> maps every address up to the \<open>n\<close>-th to its frame.\<close>

definition usable_frames_nth :: "('m, 'f) paging \<Rightarrow> BootInfoFrameAllocator \<Rightarrow> nat \<Rightarrow> u64 option panics" where
  "usable_frames_nth p a n = do {
     fs \<leftarrow> those (map (phys_frame p) (take (Suc n) (usable_addrs a)));
     Some (if n < length fs then Some (fs ! n) else None) }"

definition allocate_frame :: "('m, 'f) paging \<Rightarrow> BootInfoFrameAllocator \<Rightarrow> (u64 option \<times> BootInfoFrameAllocator) panics" where
  "allocate_frame p a = do {
     frame \<leftarrow> usable_frames_nth p a (unat (next_frame a));
     n \<leftarrow> add_chk (next_frame a) 1;
     Some (frame, a\<lparr>next_frame := n\<rparr>) }"

section \<open>The kernel heap\<close>

definition HEAP_START :: u64 where "HEAP_START = 0x444444440000"
definition HEAP_SIZE :: u64 where "HEAP_SIZE = 8 * 1024 * 1024"

text \<open>The page loop of \<open>init_heap\<close>, over any frame allocator; errors leave the mappings made so
  far in place.\<close>

fun map_heap :: "('m, 'f) paging \<Rightarrow> ('f \<Rightarrow> (u64 option \<times> 'f) panics) \<Rightarrow> u64 list \<Rightarrow> 'm \<Rightarrow> 'f \<Rightarrow>
    ((MapToError + unit) \<times> 'm \<times> 'f) panics" where
  "map_heap p alloc [] m a = Some (Inr (), m, a)"
| "map_heap p alloc (page # pages) m a = do {
     (frame, a) \<leftarrow> alloc a;
     case frame of
       None \<Rightarrow> Some (Inl FrameAllocationFailed, m, a)
     | Some frame \<Rightarrow> do {
         (r, m, a) \<leftarrow> map_to p m page frame {PRESENT, WRITABLE} a;
         case r of Inl e \<Rightarrow> Some (Inl e, m, a) | Inr _ \<Rightarrow> map_heap p alloc pages m a } }"

text \<open>Handing the region to the heap allocator, a library call, is recorded in the result.\<close>

definition init_heap :: "('m, 'f) paging \<Rightarrow> ('f \<Rightarrow> (u64 option \<times> 'f) panics) \<Rightarrow> 'm \<Rightarrow> 'f \<Rightarrow>
    ((MapToError + (u64 \<times> u64)) \<times> 'm \<times> 'f) panics" where
  "init_heap p alloc m a = do {
     heap_last \<leftarrow> virt_add p HEAP_START HEAP_SIZE;
     heap_end \<leftarrow> sub_chk heap_last 1;
     start_page \<leftarrow> virt_page p HEAP_START;
     end_page \<leftarrow> virt_page p heap_end;
     (r, m, a) \<leftarrow> map_heap p alloc (range_inclusive p start_page end_page) m a;
     Some (case r of Inl e \<Rightarrow> (Inl e, m, a) | Inr _ \<Rightarrow> (Inr (HEAP_START, HEAP_SIZE), m, a)) }"

section \<open>The allocator never repeats itself\<close>

lemma unat_page_down: "unat (page_down a) = unat a - unat a mod 4096"
  using unat_align_down[of a 12] by (simp add: page_down_def mask_eq_exp_minus_1)

lemma page_down_aligned: "4096 dvd unat a \<Longrightarrow> page_down a = a"
  by (simp add: word_unat_eq_iff unat_page_down)

lemma page_down_bounds:
  "4096 dvd unat (page_down x)" "unat (page_down x) \<le> unat x" "unat x < unat (page_down x) + 4096"
  "4096 dvd s \<Longrightarrow> s \<le> unat x \<Longrightarrow> s \<le> unat (page_down x)"
proof -
  have eq: "unat (page_down x) = 4096 * (unat x div 4096)"
    by (simp add: unat_page_down minus_mod_eq_mult_div)
  then show "4096 dvd unat (page_down x)" "unat (page_down x) \<le> unat x" "unat x < unat (page_down x) + 4096" by simp_all
  show "s \<le> unat (page_down x)" if "4096 dvd s" "s \<le> unat x"
  proof -
    from that(1) obtain k where "s = 4096 * k" by (rule dvdE)
    then show ?thesis using div_le_mono[OF that(2), of 4096] unfolding eq by simp
  qed
qed

lemma pages_from_props:
  assumes "4096 dvd unat s" "unat s + 4096 * n \<le> 2 ^ 64"
  shows "distinct (pages_from s n)"
    "\<And>x. x \<in> set (pages_from s n) \<longleftrightarrow> 4096 dvd unat x \<and> unat s \<le> unat x \<and> unat x < unat s + 4096 * n"
proof -
  have u: "unat (s + word_of_nat (4096 * k)) = unat s + 4096 * k" if "k < n" for k
    using that assms(2) by (simp add: unat_word_ariths(1) unat_of_nat del: of_nat_mult)
  show "distinct (pages_from s n)"
    unfolding pages_from_def distinct_map using u by (force intro!: inj_onI simp del: of_nat_mult dest!: arg_cong[of _ _ unat])
  show "x \<in> set (pages_from s n) \<longleftrightarrow> 4096 dvd unat x \<and> unat s \<le> unat x \<and> unat x < unat s + 4096 * n" for x
  proof
    assume "x \<in> set (pages_from s n)"
    then show "4096 dvd unat x \<and> unat s \<le> unat x \<and> unat x < unat s + 4096 * n"
      using u assms(1) by (auto simp: pages_from_def simp del: of_nat_mult)
  next
    assume r: "4096 dvd unat x \<and> unat s \<le> unat x \<and> unat x < unat s + 4096 * n"
    define k where "k = (unat x - unat s) div 4096"
    have "4096 * k = unat x - unat s" using r assms(1) by (simp add: k_def dvd_diff_nat)
    with r have "k < n" "unat x = unat s + 4096 * k" by linarith+
    with u have "x = s + word_of_nat (4096 * k)" by (simp add: word_unat_eq_iff del: of_nat_mult)
    with \<open>k < n\<close> show "x \<in> set (pages_from s n)" by (auto simp: pages_from_def)
  qed
qed

text \<open>A memory map is well formed if its usable regions start on page boundaries, lie in the physical
  address space and do not overlap.\<close>

definition regions_ok :: "MemoryRegion list \<Rightarrow> bool" where
  "regions_ok rs \<longleftrightarrow>
     (\<forall>r \<in> set (filter region_usable rs). 4096 dvd unat (region_start r) \<and> unat (region_end r) \<le> 2 ^ 52) \<and>
     sorted_wrt (\<lambda>r q. unat (region_end r) \<le> unat (region_start q) \<or> unat (region_end q) \<le> unat (region_start r))
       (filter region_usable rs)"

definition issued_frames :: "BootInfoFrameAllocator \<Rightarrow> u64 set" where
  "issued_frames a = set (take (unat (next_frame a)) (usable_addrs a))"

definition boot_alloc_ok :: "('m, 'f) paging \<Rightarrow> BootInfoFrameAllocator \<Rightarrow> bool" where
  "boot_alloc_ok p a \<longleftrightarrow> addresses_doc p \<and> regions_ok (memory_regions a)"

abbreviation boot_grows :: "('m, 'f) paging \<Rightarrow> BootInfoFrameAllocator \<Rightarrow> BootInfoFrameAllocator \<Rightarrow> bool" where
  "boot_grows p \<equiv> grows_by (boot_alloc_ok p) issued_frames"

lemma step_by_props:
  assumes "4096 dvd unat s" "unat e \<le> 2 ^ 52"
  shows "distinct (step_by_4096 s e)"
    "x \<in> set (step_by_4096 s e) \<longleftrightarrow> 4096 dvd unat x \<and> unat s \<le> unat x \<and> unat x < unat e"
proof -
  define n where "n = (unat e - unat s + 4095) div 4096"
  have n: "4096 * n < unat e - unat s + 4096" "unat e - unat s \<le> 4096 * n" unfolding n_def by linarith+
  have "unat s + 4096 * n \<le> 2 ^ 64"
    using n assms(2) by (cases "unat s \<le> unat e") (simp_all, use unsigned_less[of s, where ?'a = nat] in simp)
  note p = pages_from_props[OF assms(1) this]
  show "distinct (step_by_4096 s e)" using p(1) by (simp add: step_by_4096_def n_def)
  have "unat x < unat e \<longleftrightarrow> unat x < unat s + 4096 * n" if x: "4096 dvd unat x" "unat s \<le> unat x"
  proof
    assume lt: "unat x < unat s + 4096 * n"
    obtain i j where ij: "unat x = 4096 * i" "unat s = 4096 * j" using x(1) assms(1) unfolding dvd_def by blast
    then have "i < j + n" using lt by linarith
    then have "4096 * i + 4096 \<le> 4096 * j + 4096 * n" by simp
    then show "unat x < unat e" using n(1) x(2) ij by linarith
  qed (use n(2) x(2) in linarith)
  then show "x \<in> set (step_by_4096 s e) \<longleftrightarrow> 4096 dvd unat x \<and> unat s \<le> unat x \<and> unat x < unat e"
    using p(2)[of x] by (auto simp: step_by_4096_def n_def)
qed

lemma usable_addrs_props:
  assumes "regions_ok (memory_regions a)"
  shows "distinct (usable_addrs a)"
    "x \<in> set (usable_addrs a) \<longleftrightarrow> 4096 dvd unat x \<and>
       (\<exists>r \<in> set (memory_regions a). region_usable r \<and> unat (region_start r) \<le> unat x \<and> unat x < unat (region_end r))"
proof -
  let ?rs = "filter region_usable (memory_regions a)"
  let ?f = "\<lambda>r. step_by_4096 (region_start r) (region_end r)"
  have props: "distinct (?f r)" "\<And>x. x \<in> set (?f r) \<longleftrightarrow> 4096 dvd unat x \<and> unat (region_start r) \<le> unat x \<and> unat x < unat (region_end r)"
    if "r \<in> set ?rs" for r using that assms step_by_props by (auto simp: regions_ok_def)
  have "distinct (concat (map ?f rs))" if "set rs \<subseteq> set ?rs"
      "sorted_wrt (\<lambda>r q. unat (region_end r) \<le> unat (region_start q) \<or> unat (region_end q) \<le> unat (region_start r)) rs" for rs
    using that
  proof (induction rs)
    case (Cons r rs)
    have "x \<notin> set (?f q)" if "x \<in> set (?f r)" "q \<in> set rs" for x q
      using that Cons.prems props(2)[of r x] props(2)[of q x] by fastforce
    then show ?case using Cons props(1)[of r] by auto
  qed simp
  then show "distinct (usable_addrs a)" using assms by (simp add: usable_addrs_def regions_ok_def)
  show "x \<in> set (usable_addrs a) \<longleftrightarrow> 4096 dvd unat x \<and>
       (\<exists>r \<in> set (memory_regions a). region_usable r \<and> unat (region_start r) \<le> unat x \<and> unat x < unat (region_end r))"
    using props(2) by (auto simp: usable_addrs_def)
qed

lemma usable_frames_nth_eq:
  assumes "boot_alloc_ok p a"
  shows "usable_frames_nth p a n = Some (if n < length (usable_addrs a) then Some (usable_addrs a ! n) else None)"
proof -
  have "phys_frame p x = Some x" if "x \<in> set (usable_addrs a)" for x
  proof -
    from that assms have "4096 dvd unat x" "unat x < 2 ^ 52"
      using usable_addrs_props(2)[of a x] by (fastforce simp: boot_alloc_ok_def regions_ok_def)+
    with assms show ?thesis by (simp add: boot_alloc_ok_def addresses_doc_def page_down_aligned)
  qed
  then have "those (map (phys_frame p) xs) = Some xs" if "set xs \<subseteq> set (usable_addrs a)" for xs
    using that by (induction xs) auto
  from this[of "take (Suc n) (usable_addrs a)"] show ?thesis
    using set_take_subset[of "Suc n" "usable_addrs a"] by (auto simp: usable_frames_nth_def)
qed

lemma allocate_frame_eq:
  assumes "boot_alloc_ok p a" "allocate_frame p a = Some (r, a')"
  shows "memory_regions a' = memory_regions a" "unat (next_frame a') = Suc (unat (next_frame a))" "boot_alloc_ok p a'"
    "r = (if unat (next_frame a) < length (usable_addrs a) then Some (usable_addrs a ! unat (next_frame a)) else None)"
    "usable_addrs a' = usable_addrs a"
  using assms add_chk_unat[of "next_frame a" 1]
  by (auto simp: allocate_frame_def usable_frames_nth_eq boot_alloc_ok_def usable_addrs_def bind_eq_Some_conv)

interpretation boot_frames: frame_source "allocate_frame p" issued_frames "boot_alloc_ok p" for p
proof unfold_locales
  fix a f assume "boot_alloc_ok p a" "f \<in> issued_frames a"
  then have "regions_ok (memory_regions a)" "f \<in> set (usable_addrs a)"
    using set_take_subset[of "unat (next_frame a)" "usable_addrs a"] by (auto simp: boot_alloc_ok_def issued_frames_def)
  with usable_addrs_props(2)[of a f] show "4096 dvd unat f \<and> unat f < 2 ^ 52"
    by (fastforce simp: regions_ok_def)
next
  fix a f a' assume ok: "boot_alloc_ok p a" and alloc: "allocate_frame p a = Some (Some f, a')"
  note eq = allocate_frame_eq[OF ok alloc]
  let ?n = "unat (next_frame a)" and ?xs = "usable_addrs a"
  have n: "?n < length ?xs" "f = ?xs ! ?n" using eq(4) by (auto split: if_splits)
  have regions: "regions_ok (memory_regions a)" using ok by (simp add: boot_alloc_ok_def)
  have "f \<notin> set (take ?n ?xs)"
    using usable_addrs_props(1)[OF regions] n by (auto simp: in_set_conv_nth nth_eq_iff_index_eq)
  moreover have "issued_frames a' = insert f (issued_frames a)"
    using n by (simp add: issued_frames_def eq take_Suc_conv_app_nth)
  ultimately show "boot_alloc_ok p a' \<and> f \<notin> issued_frames a \<and>
      insert f (issued_frames a) \<subseteq> issued_frames a'"
    using eq(3) by (simp add: issued_frames_def)
next
  fix a a' assume "boot_alloc_ok p a" "allocate_frame p a = Some (None, a')"
  from allocate_frame_eq[OF this] show "boot_alloc_ok p a' \<and> issued_frames a \<subseteq> issued_frames a'"
    using set_take_subset_set_take[of "unat (next_frame a)" "Suc (unat (next_frame a))"] by (simp add: issued_frames_def)
qed

text \<open>Allocating repeatedly, as boot does.\<close>

fun allocate_many :: "('m, 'f) paging \<Rightarrow> nat \<Rightarrow> BootInfoFrameAllocator \<Rightarrow> (u64 option list \<times> BootInfoFrameAllocator) panics" where
  "allocate_many p 0 a = Some ([], a)"
| "allocate_many p (Suc n) a = do {
     (f, a) \<leftarrow> allocate_frame p a;
     (fs, a) \<leftarrow> allocate_many p n a;
     Some (f # fs, a) }"

lemma allocate_many_eq:
  assumes "boot_alloc_ok p a" "unat (next_frame a) + n < 2 ^ 64"
  shows "\<exists>a'. allocate_many p n a = Some (map (\<lambda>i. if i < length (usable_addrs a) then Some (usable_addrs a ! i) else None)
      [unat (next_frame a)..<unat (next_frame a) + n], a') \<and> memory_regions a' = memory_regions a"
  using assms
proof (induction n arbitrary: a)
  case (Suc n)
  have "add_chk (next_frame a) 1 = Some (next_frame a + 1)"
    using Suc.prems(2) by (simp add: add_chk_def)
  then obtain r a1 where a1: "allocate_frame p a = Some (r, a1)"
    using usable_frames_nth_eq[OF Suc.prems(1)] by (simp add: allocate_frame_def)
  note eq = allocate_frame_eq[OF Suc.prems(1) a1]
  with Suc show ?case by (fastforce simp: a1 upt_conv_Cons simp del: upt_Suc)
qed simp

text \<open>C28: No physical frame is given out twice: on a well-formed memory map any number of allocations yields
  the page-aligned frames of the usable regions, each exactly once, and from then on only
  failures; it never panics.\<close>

theorem frames_allocated_once:
  assumes "addresses_doc p" "regions_ok rs" "n < 2 ^ 64"
  shows "\<exists>fs a. allocate_many p n (BootInfoFrameAllocator_init rs) = Some (map Some fs @ replicate (n - length fs) None, a) \<and>
    distinct fs \<and> length fs \<le> n \<and>
    (\<forall>f \<in> set fs. 4096 dvd unat f \<and> (\<exists>r \<in> set rs. region_usable r \<and> unat (region_start r) \<le> unat f \<and> unat f < unat (region_end r))) \<and>
    (length fs < n \<longrightarrow> (\<forall>r \<in> set rs. \<forall>x. region_usable r \<and> 4096 dvd unat x \<and> unat (region_start r) \<le> unat x \<and>
       unat x < unat (region_end r) \<longrightarrow> x \<in> set fs))"
proof -
  let ?a = "BootInfoFrameAllocator_init rs"
  let ?xs = "usable_addrs ?a"
  let ?fs = "take n ?xs"
  have ok: "boot_alloc_ok p ?a" "memory_regions ?a = rs" and n0: "unat (next_frame ?a) = 0"
    using assms by (simp_all add: boot_alloc_ok_def BootInfoFrameAllocator_init_def)
  obtain a where "allocate_many p n ?a = Some (map (\<lambda>i. if i < length ?xs then Some (?xs ! i) else None) [0..<n], a)"
    using allocate_many_eq[OF ok(1), of n] assms(3) n0 by auto
  moreover have "map (\<lambda>i. if i < length ?xs then Some (?xs ! i) else None) [0..<n] = map Some ?fs @ replicate (n - length ?fs) None"
    by (intro nth_equalityI) (auto simp: nth_append min_def)
  ultimately have run: "allocate_many p n ?a = Some (map Some ?fs @ replicate (n - length ?fs) None, a)" by simp
  note props = usable_addrs_props[of ?a, unfolded ok(2), OF assms(2)]
  have "set ?fs \<subseteq> set ?xs" by (rule set_take_subset)
  then have sound: "\<forall>f \<in> set ?fs. 4096 dvd unat f \<and>
      (\<exists>r \<in> set rs. region_usable r \<and> unat (region_start r) \<le> unat f \<and> unat f < unat (region_end r))"
    using props(2) by blast
  have complete: "length ?fs < n \<longrightarrow> (\<forall>r \<in> set rs. \<forall>x. region_usable r \<and> 4096 dvd unat x \<and>
      unat (region_start r) \<le> unat x \<and> unat x < unat (region_end r) \<longrightarrow> x \<in> set ?fs)"
    using props(2) by (simp add: min_def) blast
  have "distinct ?fs" "length ?fs \<le> n" using props(1) by (simp_all add: distinct_take)
  with run sound complete show ?thesis by blast
qed

text \<open>A paging crate whose mapper is the translation itself.\<close>

definition demo_paging :: "(u64 \<Rightarrow> (u64 \<times> flags) option, 'f) paging" where
  "demo_paging = \<lparr>
     phys_frame = (\<lambda>a. if unat a < 2 ^ 52 then Some (page_down a) else None),
     virt_page = (\<lambda>a. if unat a < 2 ^ 47 then Some (page_down a) else None),
     virt_add = (\<lambda>a b. if unat a + unat b < 2 ^ 47 then Some (a + b) else None),
     range_inclusive = (\<lambda>s e. pages_from s ((unat e - unat s) div 4096 + 1)),
     map_to = (\<lambda>m pg f fl a. Some (if m pg = None then (Inr (), m(pg \<mapsto> (f, fl)), a) else (Inl PageAlreadyMapped, m, a))),
     lookup = (\<lambda>m. m)\<rparr>"

lemma demo_paging_doc: "addresses_doc demo_paging" "(\<And>a. grows a a) \<Longrightarrow> map_to_doc demo_paging grows"
  by (auto simp: addresses_doc_def map_to_doc_def demo_paging_def split: if_splits)

definition demo_regions :: "MemoryRegion list" where
  "demo_regions = [\<lparr>region_start = 0, region_end = 0x1000, region_usable = False\<rparr>,
     \<lparr>region_start = 0x100000, region_end = 0x102000, region_usable = True\<rparr>]"

theorem frames_allocated_once_witness:
  "\<exists>fs a. allocate_many (demo_paging :: (_, unit) paging) 5 (BootInfoFrameAllocator_init demo_regions) =
     Some (map Some fs @ replicate (5 - length fs) None, a) \<and> distinct fs"
proof -
  have "regions_ok demo_regions" by (simp add: regions_ok_def demo_regions_def)
  from frames_allocated_once[OF demo_paging_doc(1) this, of 5] show ?thesis by auto
qed

section \<open>The heap is mapped\<close>

text \<open>The translation after a list of pages was mapped to a list of frames.\<close>

definition with_pages :: "(u64 \<Rightarrow> (u64 \<times> flags) option) \<Rightarrow> u64 list \<Rightarrow> u64 list \<Rightarrow> flags \<Rightarrow> u64 \<Rightarrow> (u64 \<times> flags) option" where
  "with_pages l pages fs fl x = (case map_of (zip pages fs) x of Some f \<Rightarrow> Some (f, fl) | None \<Rightarrow> l x)"

context frame_source
begin

lemma map_heap_maps:
  assumes "map_to_doc p (grows_by ok issued)"
  shows "ok a \<Longrightarrow> distinct pages \<Longrightarrow> map_heap p allocate pages m a = Some (Inr (), m', a') \<Longrightarrow>
    \<exists>fs. length fs = length pages \<and> distinct fs \<and> set fs \<inter> issued a = {} \<and> set fs \<subseteq> issued a' \<and> grows_by ok issued a a' \<and>
      lookup p m' = with_pages (lookup p m) pages fs {PRESENT, WRITABLE}"
proof (induction pages arbitrary: m a)
  case Nil
  then show ?case by (simp add: grows_refl with_pages_def fun_eq_iff)
next
  case (Cons pg pages)
  from Cons.prems(3) obtain f a1 m2 a2 where s: "allocate a = Some (Some f, a1)"
      "map_to p m pg f {PRESENT, WRITABLE} a1 = Some (Inr (), m2, a2)"
      "map_heap p allocate pages m2 a2 = Some (Inr (), m', a')"
    by (auto simp: bind_eq_Some_conv split: option.splits sum.splits dest!: not_Inl_unit)
  have a1: "ok a1" "f \<notin> issued a" "insert f (issued a) \<subseteq> issued a1"
    using allocate_fresh[OF Cons.prems(1) s(1)] by auto
  have m2: "grows_by ok issued a1 a2" "lookup p m2 = (lookup p m)(pg \<mapsto> (f, {PRESENT, WRITABLE}))"
    using assms s(2) by (force simp: map_to_doc_def)+
  then have "ok a2" "issued a1 \<subseteq> issued a2" using a1(1) by (auto simp: grows_by_def)
  with Cons.IH[of a2 m2] s(3) Cons.prems(2) obtain fs where fs: "length fs = length pages" "distinct fs"
      "set fs \<inter> issued a2 = {}" "set fs \<subseteq> issued a'" "grows_by ok issued a2 a'"
      "lookup p m' = with_pages (lookup p m2) pages fs {PRESENT, WRITABLE}" by auto
  have g: "grows_by ok issued a a'" using allocate_grows[OF s(1)] m2(1) fs(5) by (blast intro: grows_trans)
  have f: "f \<in> issued a'" "f \<notin> set fs" "set (f # fs) \<inter> issued a = {}"
    using a1 \<open>issued a1 \<subseteq> issued a2\<close> fs(3,5) \<open>ok a2\<close> by (auto simp: grows_by_def)
  have "map_of (zip pages fs) pg = None" using Cons.prems(2) fs(1) by simp
  then have "lookup p m' = with_pages (lookup p m) (pg # pages) (f # fs) {PRESENT, WRITABLE}"
    by (auto simp: fs(6) m2(2) with_pages_def fun_eq_iff split: option.splits)
  then show ?case using fs(1,2,4) f g by (intro exI[of _ "f # fs"]) auto
qed

end

definition heap_pages :: "u64 list" where
  "heap_pages = pages_from HEAP_START 2048"

lemma virt_page_low: "addresses_doc p \<Longrightarrow> unat a < 2 ^ 47 \<Longrightarrow> virt_page p a = Some (page_down a)"
  by (force simp: addresses_doc_def)

lemma virt_add_low: "addresses_doc p \<Longrightarrow> unat a + unat b < 2 ^ 47 \<Longrightarrow> virt_add p a b = Some (a + b)"
  by (force simp: addresses_doc_def)

lemma init_heap_eq:
  assumes "addresses_doc p"
  shows "init_heap p alloc m a = do {
     (r, m, a) \<leftarrow> map_heap p alloc heap_pages m a;
     Some (case r of Inl e \<Rightarrow> (Inl e, m, a) | Inr _ \<Rightarrow> (Inr (HEAP_START, HEAP_SIZE), m, a)) }"
proof -
  have "virt_page p HEAP_START = Some HEAP_START" "virt_page p 0x444444C3FFFF = Some 0x444444C3F000"
    using virt_page_low[OF assms] by (simp_all add: HEAP_START_def page_down_def)
  moreover have "range_inclusive p HEAP_START 0x444444C3F000 = heap_pages"
    using assms by (simp add: addresses_doc_def HEAP_START_def heap_pages_def)
  ultimately show ?thesis
    using virt_add_low[OF assms, of HEAP_START HEAP_SIZE]
    by (simp add: init_heap_def HEAP_START_def HEAP_SIZE_def sub_chk_def)
qed

text \<open>The documented conditions under which \<open>map_to\<close> succeeds: the page is free and there are frames
  for at most three new page tables.\<close>

definition frames_left :: "BootInfoFrameAllocator \<Rightarrow> nat" where
  "frames_left a = length (usable_addrs a) - unat (next_frame a)"

definition map_to_succeeds :: "('m, BootInfoFrameAllocator) paging \<Rightarrow> bool" where
  "map_to_succeeds p \<longleftrightarrow> (\<forall>m pg f fl a. lookup p m pg = None \<and> 3 \<le> frames_left a \<longrightarrow>
     (\<exists>m' a'. map_to p m pg f fl a = Some (Inr (), m', a') \<and>
        frames_left a \<le> frames_left a' + 3 \<and> memory_regions a' = memory_regions a))"

lemma allocate_frame_succeeds:
  assumes "boot_alloc_ok p a" "unat (next_frame a) < length (usable_addrs a)"
  shows "\<exists>f a'. allocate_frame p a = Some (Some f, a')"
proof -
  have regions: "regions_ok (memory_regions a)" using assms(1) by (simp add: boot_alloc_ok_def)
  have "1 \<notin> set (usable_addrs a)" using usable_addrs_props(2)[OF regions, of 1] by simp
  then have "card (set (usable_addrs a)) < card (UNIV :: u64 set)" by (intro psubset_card_mono) auto
  then have "length (usable_addrs a) < 2 ^ 64"
    using usable_addrs_props(1)[OF regions] by (simp add: distinct_card card_word)
  then show ?thesis
    using assms(2) by (simp add: allocate_frame_def usable_frames_nth_eq[OF assms(1)] add_chk_def)
qed

lemma map_step_succeeds:
  assumes "map_to_doc p (boot_grows p)" "map_to_succeeds p" "boot_alloc_ok p a" "lookup p m pg = None" "4 \<le> frames_left a"
  shows "\<exists>f a1 m' a'. allocate_frame p a = Some (Some f, a1) \<and> f \<in> set (usable_addrs a) \<and>
    map_to p m pg f fl a1 = Some (Inr (), m', a') \<and> boot_alloc_ok p a' \<and> frames_left a \<le> frames_left a' + 4 \<and>
    memory_regions a' = memory_regions a \<and> lookup p m' = (lookup p m)(pg \<mapsto> (f, fl))"
proof -
  have n: "unat (next_frame a) < length (usable_addrs a)" using assms(5) by (simp add: frames_left_def)
  with allocate_frame_succeeds[OF assms(3)] obtain f a1 where a1: "allocate_frame p a = Some (Some f, a1)" by blast
  note eq = allocate_frame_eq[OF assms(3) a1]
  have f: "f \<in> set (usable_addrs a)" using eq(4) n by simp
  have left1: "frames_left a \<le> Suc (frames_left a1)" using eq(2,5) by (simp add: frames_left_def)
  then have "3 \<le> frames_left a1" using assms(5) by simp
  with assms(2,4) obtain m2 a2 where m2: "map_to p m pg f fl a1 = Some (Inr (), m2, a2)" "frames_left a1 \<le> frames_left a2 + 3"
      "memory_regions a2 = memory_regions a1"
    unfolding map_to_succeeds_def by blast
  have doc: "boot_grows p a1 a2" "lookup p m2 = (lookup p m)(pg \<mapsto> (f, fl))"
    using assms(1) m2(1) by (force simp: map_to_doc_def)+
  have "boot_alloc_ok p a2" using doc(1) eq(3) by (simp add: grows_by_def)
  with a1 f m2 doc(2) left1 eq(1) show ?thesis by auto
qed

lemma map_heap_succeeds:
  assumes "map_to_doc p (boot_grows p)" "map_to_succeeds p"
  shows "boot_alloc_ok p a \<Longrightarrow> distinct pages \<Longrightarrow> \<forall>x \<in> set pages. lookup p m x = None \<Longrightarrow>
    4 * length pages \<le> frames_left a \<Longrightarrow>
    \<exists>m' a'. map_heap p (allocate_frame p) pages m a = Some (Inr (), m', a') \<and> boot_alloc_ok p a' \<and>
      frames_left a \<le> frames_left a' + 4 * length pages \<and> memory_regions a' = memory_regions a \<and>
      (\<forall>x. x \<notin> set pages \<longrightarrow> lookup p m' x = lookup p m x)"
proof (induction pages arbitrary: m a)
  case (Cons pg pages)
  have "lookup p m pg = None" "4 \<le> frames_left a" using Cons.prems(3,4) by simp_all
  from map_step_succeeds[OF assms Cons.prems(1) this, of "{PRESENT, WRITABLE}"] obtain f a1 m2 a2 where
    s: "allocate_frame p a = Some (Some f, a1)" "map_to p m pg f {PRESENT, WRITABLE} a1 = Some (Inr (), m2, a2)"
      "boot_alloc_ok p a2" "frames_left a \<le> frames_left a2 + 4" "lookup p m2 = (lookup p m)(pg \<mapsto> (f, {PRESENT, WRITABLE}))"
      "memory_regions a2 = memory_regions a"
    by blast
  have "distinct pages" "\<forall>x \<in> set pages. lookup p m2 x = None" "4 * length pages \<le> frames_left a2"
    using Cons.prems s(4,5) by auto
  from Cons.IH[OF s(3) this] show ?case using s(4-6) by (fastforce simp: s(1,2))
qed simp

lemma heap_pages_props: "distinct heap_pages" "length heap_pages = 2048"
  "x \<in> set heap_pages \<longleftrightarrow> 4096 dvd unat x \<and> unat HEAP_START \<le> unat x \<and> unat x < unat HEAP_START + unat HEAP_SIZE"
  unfolding heap_pages_def using pages_from_props[of HEAP_START 2048]
  by (simp_all add: HEAP_START_def HEAP_SIZE_def) (simp add: pages_from_def)

lemma init_heap_succeeds:
  assumes "addresses_doc p" "map_to_doc p (boot_grows p)" "map_to_succeeds p" "boot_alloc_ok p a"
    and "\<forall>x \<in> set heap_pages. lookup p m x = None" "8192 \<le> frames_left a"
  shows "\<exists>m' a'. init_heap p (allocate_frame p) m a = Some (Inr (HEAP_START, HEAP_SIZE), m', a') \<and> boot_alloc_ok p a' \<and>
    frames_left a \<le> frames_left a' + 8192 \<and> memory_regions a' = memory_regions a \<and>
    (\<forall>x. x \<notin> set heap_pages \<longrightarrow> lookup p m' x = lookup p m x)"
proof -
  obtain m' a' where "map_heap p (allocate_frame p) heap_pages m a = Some (Inr (), m', a')" "boot_alloc_ok p a'"
      "frames_left a \<le> frames_left a' + 8192" "memory_regions a' = memory_regions a"
      "\<forall>x. x \<notin> set heap_pages \<longrightarrow> lookup p m' x = lookup p m x"
    using map_heap_succeeds[OF assms(2-4) heap_pages_props(1) assms(5)] assms(6) by (auto simp: heap_pages_props(2))
  then show ?thesis by (simp add: init_heap_eq[OF assms(1)])
qed

text \<open>C29: The heap is backed by memory: with the heap's pages free and enough usable frames, four for
  each page, \<open>init_heap\<close> succeeds; whenever it succeeds, every address of the heap's range lies
  on a page that is mapped present and writable to a frame of its own, none of them handed out
  before, and no other page changed.\<close>

theorem heap_backed_by_frames:
  assumes "addresses_doc p" "map_to_doc p (boot_grows p)" "boot_alloc_ok p a"
  shows "(map_to_succeeds p \<and> (\<forall>x \<in> set heap_pages. lookup p m x = None) \<and>
      8192 \<le> frames_left a \<longrightarrow>
      (\<exists>m' a'. init_heap p (allocate_frame p) m a = Some (Inr (HEAP_START, HEAP_SIZE), m', a'))) \<and>
    (init_heap p (allocate_frame p) m a = Some (Inr region, m', a') \<longrightarrow>
      (\<exists>fs. distinct fs \<and> set fs \<inter> issued_frames a = {} \<and>
        lookup p m' = with_pages (lookup p m) heap_pages fs {PRESENT, WRITABLE} \<and>
        (\<forall>x. unat HEAP_START \<le> unat x \<and> unat x < unat HEAP_START + unat HEAP_SIZE \<longrightarrow>
          (\<exists>f \<in> set fs. lookup p m' (page_down x) = Some (f, {PRESENT, WRITABLE})))))"
proof (intro conjI impI)
  assume "map_to_succeeds p \<and> (\<forall>x \<in> set heap_pages. lookup p m x = None) \<and>
      8192 \<le> frames_left a"
  then show "\<exists>m' a'. init_heap p (allocate_frame p) m a = Some (Inr (HEAP_START, HEAP_SIZE), m', a')"
    using init_heap_succeeds[OF assms(1,2) _ assms(3)] by blast
next
  assume "init_heap p (allocate_frame p) m a = Some (Inr region, m', a')"
  then have "map_heap p (allocate_frame p) heap_pages m a = Some (Inr (), m', a')"
    by (auto simp: init_heap_eq[OF assms(1)] bind_eq_Some_conv split: sum.splits dest!: not_Inl_unit)
  from boot_frames.map_heap_maps[OF assms(2,3) heap_pages_props(1) this] obtain fs where
    fs: "length fs = 2048" "distinct fs" "set fs \<inter> issued_frames a = {}"
      "lookup p m' = with_pages (lookup p m) heap_pages fs {PRESENT, WRITABLE}" by (auto simp: heap_pages_props(2))
  have "\<exists>f \<in> set fs. lookup p m' (page_down x) = Some (f, {PRESENT, WRITABLE})"
    if x: "unat HEAP_START \<le> unat x \<and> unat x < unat HEAP_START + unat HEAP_SIZE" for x
  proof -
    have "page_down x \<in> set heap_pages"
      unfolding heap_pages_props(3) using x page_down_bounds(1,2)[of x] page_down_bounds(4)[of "unat HEAP_START" x]
      by (auto simp: HEAP_START_def)
    then obtain f where "map_of (zip heap_pages fs) (page_down x) = Some f"
      using fs(1) heap_pages_props(2) by (metis map_of_zip_is_None not_Some_eq)
    moreover from this have "f \<in> set fs" by (auto dest!: map_of_SomeD in_set_zipE)
    ultimately show ?thesis by (auto simp: fs(4) with_pages_def)
  qed
  with fs show "\<exists>fs. distinct fs \<and> set fs \<inter> issued_frames a = {} \<and>
        lookup p m' = with_pages (lookup p m) heap_pages fs {PRESENT, WRITABLE} \<and>
        (\<forall>x. unat HEAP_START \<le> unat x \<and> unat x < unat HEAP_START + unat HEAP_SIZE \<longrightarrow>
          (\<exists>f \<in> set fs. lookup p m' (page_down x) = Some (f, {PRESENT, WRITABLE})))" by blast
qed

definition demo_alloc :: BootInfoFrameAllocator where
  "demo_alloc = BootInfoFrameAllocator_init [\<lparr>region_start = 0x1000000, region_end = 0x3000000, region_usable = True\<rparr>]"

lemma demo_alloc_ok: "boot_alloc_ok demo_paging demo_alloc"
  by (simp add: boot_alloc_ok_def demo_paging_doc(1) regions_ok_def demo_alloc_def BootInfoFrameAllocator_init_def)

lemma demo_map_to_doc: "map_to_doc demo_paging (grows_by ok issued)"
  by (rule demo_paging_doc(2)) (simp add: grows_by_def)

definition boot_paging :: "(u64 \<Rightarrow> (u64 \<times> flags) option, BootInfoFrameAllocator) paging" where
  "boot_paging = demo_paging"

theorem heap_backed_by_frames_witness:
  "\<exists>m' a'. init_heap boot_paging (allocate_frame boot_paging) (\<lambda>_. None) demo_alloc = Some (Inr (HEAP_START, HEAP_SIZE), m', a')"
proof -
  have "frames_left demo_alloc = 8192"
    by (simp add: frames_left_def usable_addrs_def demo_alloc_def BootInfoFrameAllocator_init_def step_by_4096_def pages_from_def)
  moreover have "map_to_succeeds boot_paging"
      "lookup boot_paging (\<lambda>_. None) x = None" for x
    by (simp_all add: map_to_succeeds_def boot_paging_def demo_paging_def)
  ultimately show ?thesis
    using heap_backed_by_frames[OF demo_paging_doc(1) demo_map_to_doc demo_alloc_ok, folded boot_paging_def, THEN conjunct1, of "\<lambda>_. None"] by simp
qed

end
