(* ===== verification/Elf_Loader.thy ===== *)
theory Elf_Loader
  imports Paging
begin

unbundle bit_operations_syntax

text \<open>
  The ELF loader (\<open>kernel/src/elf_loader.rs\<close>) over the paging interface: header checks, program
  headers, page flags and the page-by-page copy into the physical window. After a successful
  load every byte of every segment reads as the file says.
\<close>

definition ELFMAG :: bytes where "ELFMAG = [0x7F, 0x45, 0x4C, 0x46]"
definition ELFCLASS64 :: u8 where "ELFCLASS64 = 2"
definition ELFDATA2LSB :: u8 where "ELFDATA2LSB = 1"
definition EM_X86_64 :: u16 where "EM_X86_64 = 62"
definition ET_EXEC :: u16 where "ET_EXEC = 2"
definition PT_LOAD :: u32 where "PT_LOAD = 1"
definition PF_X :: u32 where "PF_X = 1"
definition PF_W :: u32 where "PF_W = 2"

datatype ElfError =
    TooShort | BadMagic | NotElf64 | NotLittleEndian | NotX86_64 | NotExecutable
  | BadPhOffset | SegmentOutOfBounds | PageMapFailed | FrameAllocFailed

text \<open>What a load changes: the mapper, the frame allocator and physical memory.\<close>

record ('m, 'f) load_state =
  ls_mapper :: 'm
  ls_alloc :: 'f
  ls_mem :: mem

definition read_le :: "nat \<Rightarrow> bytes \<Rightarrow> nat \<Rightarrow> 'a::len word panics" where
  "read_le n bs off = do { s \<leftarrow> slice_chk off (off + n) bs; Some (from_le_bytes s) }"

definition page_flags :: "u32 \<Rightarrow> flags" where
  "page_flags p_flags =
     {PRESENT, USER_ACCESSIBLE} \<union> (if p_flags AND PF_W \<noteq> 0 then {WRITABLE} else {}) \<union>
     (if p_flags AND PF_X = 0 then {NO_EXECUTE} else {})"

text \<open>The body of the page loop.\<close>

definition copy_segment :: "bytes \<Rightarrow> u64 \<Rightarrow> u64 \<Rightarrow> u64 \<Rightarrow> mem \<Rightarrow> mem panics" where
  "copy_segment seg_data p_vaddr vpage kv m = do {
     page_end \<leftarrow> add_chk vpage 4096;
     file_end \<leftarrow> add_chk p_vaddr (word_of_nat (length seg_data));
     let copy_start = max p_vaddr vpage; copy_end = min file_end page_end in
     if copy_start < copy_end
     then let src_off = unat (copy_start - p_vaddr); dst_off = copy_start - vpage; len = unat (copy_end - copy_start)
          in do { src \<leftarrow> slice_chk src_off (length seg_data) seg_data; Some (store_bytes m (kv + dst_off) (take len src)) }
     else Some m }"

definition load_page :: "('m, 'f) paging \<Rightarrow> ('f \<Rightarrow> (u64 option \<times> 'f) panics) \<Rightarrow> u64 \<Rightarrow> bytes \<Rightarrow> u64 \<Rightarrow> flags \<Rightarrow> u64 \<Rightarrow>
    ('m, 'f) load_state \<Rightarrow> ((ElfError + unit) \<times> ('m, 'f) load_state) panics" where
  "load_page p alloc phys_offset seg_data p_vaddr fl vpage st = do {
     (frame, a) \<leftarrow> alloc (ls_alloc st);
     case frame of
       None \<Rightarrow> Some (Inl FrameAllocFailed, st\<lparr>ls_alloc := a\<rparr>)
     | Some frame \<Rightarrow> do {
         page \<leftarrow> virt_page p vpage;
         (r, m, a) \<leftarrow> map_to p (ls_mapper st) page frame fl a;
         let st = st\<lparr>ls_mapper := m, ls_alloc := a\<rparr> in
         case r of
           Inl _ \<Rightarrow> Some (Inl PageMapFailed, st)
         | Inr _ \<Rightarrow> do {
             kv \<leftarrow> virt_add p phys_offset frame;
             mem \<leftarrow> copy_segment seg_data p_vaddr vpage kv (store_bytes (ls_mem st) kv (replicate 4096 0));
             Some (Inr (), st\<lparr>ls_mem := mem\<rparr>) } } }"

function load_pages :: "('m, 'f) paging \<Rightarrow> ('f \<Rightarrow> (u64 option \<times> 'f) panics) \<Rightarrow> u64 \<Rightarrow> bytes \<Rightarrow> u64 \<Rightarrow> flags \<Rightarrow> u64 \<Rightarrow> u64 \<Rightarrow>
    ('m, 'f) load_state \<Rightarrow> ((ElfError + unit) \<times> ('m, 'f) load_state) panics" where
  "load_pages p alloc phys_offset seg_data p_vaddr fl end_page vpage st =
     (if vpage < end_page then
        case load_page p alloc phys_offset seg_data p_vaddr fl vpage st of
          None \<Rightarrow> None
        | Some (Inl e, st) \<Rightarrow> Some (Inl e, st)
        | Some (Inr _, st) \<Rightarrow>
            (case add_chk vpage 4096 of None \<Rightarrow> None
             | Some vpage \<Rightarrow> load_pages p alloc phys_offset seg_data p_vaddr fl end_page vpage st)
      else Some (Inr (), st))"
  by pat_completeness auto
termination
  by (relation "measure (\<lambda>(p, alloc, off, seg, va, fl, e, v, st). unat e - unat v)")
    (auto dest!: add_chk_unat simp: word_less_nat_alt)

declare load_pages.simps [simp del]

text \<open>One iteration of the loop over program headers.\<close>

definition load_segment :: "('m, 'f) paging \<Rightarrow> ('f \<Rightarrow> (u64 option \<times> 'f) panics) \<Rightarrow> u64 \<Rightarrow> bytes \<Rightarrow> u64 \<Rightarrow> u64 \<Rightarrow> nat \<Rightarrow>
    ('m, 'f) load_state \<Rightarrow> ((ElfError + unit) \<times> ('m, 'f) load_state) panics" where
  "load_segment p alloc phys_offset bs e_phoff e_phentsize i st = do {
     rel \<leftarrow> mul_chk (word_of_nat i) e_phentsize;
     off \<leftarrow> add_chk e_phoff rel;
     lim \<leftarrow> add_chk off e_phentsize;
     if length bs < unat lim then Some (Inl BadPhOffset, st)
     else let off = unat off in do {
       p_type \<leftarrow> read_le 4 bs off;
       if p_type \<noteq> PT_LOAD then Some (Inr (), st)
       else do {
         p_flags \<leftarrow> read_le 4 bs (off + 4);
         p_offset \<leftarrow> (read_le 8 bs (off + 8) :: u64 panics);
         p_vaddr \<leftarrow> read_le 8 bs (off + 16);
         p_filesz \<leftarrow> (read_le 8 bs (off + 32) :: u64 panics);
         p_memsz \<leftarrow> read_le 8 bs (off + 40);
         p_align \<leftarrow> (read_le 8 bs (off + 48) :: u64 panics);
         seg_end \<leftarrow> add_chk p_offset p_filesz;
         if length bs < unat seg_end then Some (Inl SegmentOutOfBounds, st)
         else do {
           end_addr \<leftarrow> add_chk p_vaddr p_memsz;
           rounded \<leftarrow> add_chk end_addr 0xFFF;
           load_pages p alloc phys_offset (slice (unat p_offset) (unat seg_end) bs) p_vaddr (page_flags p_flags)
             (rounded AND NOT 0xFFF) (p_vaddr AND NOT 0xFFF) st } } } }"

fun load_segments :: "('m, 'f) paging \<Rightarrow> ('f \<Rightarrow> (u64 option \<times> 'f) panics) \<Rightarrow> u64 \<Rightarrow> bytes \<Rightarrow> u64 \<Rightarrow> u64 \<Rightarrow> nat list \<Rightarrow>
    ('m, 'f) load_state \<Rightarrow> ((ElfError + unit) \<times> ('m, 'f) load_state) panics" where
  "load_segments p alloc phys_offset bs e_phoff e_phentsize [] st = Some (Inr (), st)"
| "load_segments p alloc phys_offset bs e_phoff e_phentsize (i # is) st = do {
     (r, st) \<leftarrow> load_segment p alloc phys_offset bs e_phoff e_phentsize i st;
     case r of Inl e \<Rightarrow> Some (Inl e, st)
     | Inr _ \<Rightarrow> load_segments p alloc phys_offset bs e_phoff e_phentsize is st }"

definition load :: "('m, 'f) paging \<Rightarrow> ('f \<Rightarrow> (u64 option \<times> 'f) panics) \<Rightarrow> u64 \<Rightarrow> bytes \<Rightarrow>
    ('m, 'f) load_state \<Rightarrow> ((ElfError + u64) \<times> ('m, 'f) load_state) panics" where
  "load p alloc phys_offset bs st =
     (if length bs < 64 then Some (Inl TooShort, st)
      else if slice 0 4 bs \<noteq> ELFMAG then Some (Inl BadMagic, st)
      else if bs ! 4 \<noteq> ELFCLASS64 then Some (Inl NotElf64, st)
      else if bs ! 5 \<noteq> ELFDATA2LSB then Some (Inl NotLittleEndian, st)
      else do {
        e_type \<leftarrow> read_le 2 bs 16;
        e_machine \<leftarrow> read_le 2 bs 18;
        if e_machine \<noteq> EM_X86_64 then Some (Inl NotX86_64, st)
        else if e_type \<noteq> ET_EXEC then Some (Inl NotExecutable, st)
        else do {
          e_entry \<leftarrow> read_le 8 bs 24;
          e_phoff \<leftarrow> (read_le 8 bs 32 :: u64 panics);
          e_phentsize \<leftarrow> (read_le 2 bs 54 :: u16 panics);
          e_phnum \<leftarrow> (read_le 2 bs 56 :: u16 panics);
          (r, st) \<leftarrow> load_segments p alloc phys_offset bs e_phoff (ucast e_phentsize) [0..<unat e_phnum] st;
          Some (case r of Inl e \<Rightarrow> Inl e | Inr _ \<Rightarrow> Inr e_entry, st) } })"

section \<open>One page\<close>

text \<open>The contents a page must have for a segment at \<open>v\<close>: the file's bytes where the segment
  covers the page and zeros elsewhere.\<close>

definition seg_byte :: "bytes \<Rightarrow> nat \<Rightarrow> nat \<Rightarrow> u8" where
  "seg_byte seg v x = (if v \<le> x \<and> x < v + length seg then seg ! (x - v) else 0)"

definition page_image :: "bytes \<Rightarrow> nat \<Rightarrow> nat \<Rightarrow> bytes" where
  "page_image seg v pg = map (\<lambda>i. seg_byte seg v (pg + i)) [0..<4096]"

lemma copy_segment_image:
  assumes "copy_segment seg v pg kv (store_bytes m kv (replicate 4096 0)) = Some m'" "length seg < 2 ^ 64"
  shows "load_bytes m' kv 4096 = page_image seg (unat v) (unat pg)" "\<not> in_range kv 4096 x \<Longrightarrow> m' x = m x"
proof -
  obtain pe fe where e0: "add_chk pg 4096 = Some pe" "add_chk v (word_of_nat (length seg)) = Some fe"
    using assms(1) by (auto simp: copy_segment_def bind_eq_Some_conv)
  have e: "unat pe = unat pg + 4096" "unat fe = unat v + length seg"
    using add_chk_unat[OF e0(1)] add_chk_unat[OF e0(2)] assms(2) by (simp_all add: unat_of_nat)
  define cs ce z where "cs = max v pg" and "ce = min fe pe" and "z = store_bytes m kv (replicate 4096 0)"
  have r: "(if cs < ce
       then do { src \<leftarrow> slice_chk (unat (cs - v)) (length seg) seg;
                 Some (store_bytes z (kv + (cs - pg)) (take (unat (ce - cs)) src)) }
       else Some z) = Some m'"
    using assms(1) unfolding copy_segment_def Let_def e0 bind.bind_lunit cs_def[symmetric] ce_def[symmetric] z_def[symmetric] .
  have u: "unat cs = max (unat v) (unat pg)" "unat ce = min (unat v + length seg) (unat pg + 4096)"
    using e by (auto simp: cs_def ce_def max_def min_def word_le_nat_alt)
  have z: "z (kv + word_of_nat i) = 0" if "i < 4096" for i
    using that by (simp add: z_def store_bytes_in[of i "replicate 4096 0", simplified])
  have zout: "z x = m x" if "\<not> in_range kv 4096 x" for x
    using that store_bytes_out[of kv "replicate 4096 0" x] by (simp add: z_def)
  have "load_bytes m' kv 4096 = page_image seg (unat v) (unat pg) \<and> (\<not> in_range kv 4096 x \<longrightarrow> m' x = m x)"
  proof (cases "cs < ce")
    case False
    then have m': "m' = z" using r by simp
    have "min (unat v + length seg) (unat pg + 4096) \<le> max (unat v) (unat pg)"
      using False unfolding word_less_nat_alt u by linarith
    then show ?thesis unfolding m' using z zout by (auto simp: page_image_def seg_byte_def intro!: nth_equalityI)
  next
    case True
    define d where "d = unat cs - unat pg"
    define src where "src = take (unat ce - unat cs) (drop (unat cs - unat v) seg)"
    have lt: "unat cs < unat ce" using True by (simp add: word_less_nat_alt)
    have le: "v \<le> cs" "pg \<le> cs" "cs \<le> ce" using True by (auto simp: cs_def)
    have len: "length src = unat ce - unat cs" "d + length src \<le> 4096"
      using u lt by (auto simp: src_def d_def)
    have "d = unat (cs - pg)" using le by (simp add: d_def unat_sub)
    then have "kv + (cs - pg) = kv + word_of_nat d" by simp
    moreover have "unat (cs - v) = unat cs - unat v" "unat (ce - cs) = unat ce - unat cs" using le by (simp_all add: unat_sub)
    ultimately have m': "m' = store_bytes z (kv + word_of_nat d) src"
      using r True by (auto simp: slice_chk_def slice_def src_def split: if_splits)
    have "m' (kv + word_of_nat i) = seg_byte seg (unat v) (unat pg + i)" if "i < 4096" for i
    proof -
      have "m' (kv + word_of_nat i) = (if d \<le> i \<and> i < d + length src then src ! (i - d) else 0)"
        unfolding m' using store_bytes_at[of d src i z kv] len that z by simp
      moreover have "d \<le> i \<and> i < d + length src \<longleftrightarrow> unat v \<le> unat pg + i \<and> unat pg + i < unat v + length seg"
        using u lt that unfolding d_def len(1) by (auto simp: max_def min_def split: if_splits)
      moreover have "src ! (i - d) = seg ! (unat pg + i - unat v)" if "d \<le> i" "i < d + length src"
        using that u lt len unfolding src_def d_def by (auto simp: max_def add.commute split: if_splits)
      ultimately show ?thesis by (auto simp: seg_byte_def)
    qed
    moreover have "m' x = m x" if "\<not> in_range kv 4096 x"
    proof -
      have "\<not> in_range (kv + word_of_nat d) (length src) x" using in_range_sub[of kv d "length src" x 4096] len that by auto
      then show ?thesis using zout[OF that] by (simp add: m' store_bytes_out)
    qed
    ultimately show ?thesis by (auto simp: page_image_def intro!: nth_equalityI)
  qed
  then show "load_bytes m' kv 4096 = page_image seg (unat v) (unat pg)" "\<not> in_range kv 4096 x \<Longrightarrow> m' x = m x" by simp_all
qed

lemma frame_windows_apart:
  assumes "4096 dvd unat f" "unat f < 2 ^ 52" "4096 dvd unat g" "unat g < 2 ^ 52" "f \<noteq> g"
  shows "apart (off + f) 4096 (off + g) 4096"
proof -
  obtain i j where ij: "unat f = 4096 * i" "unat g = 4096 * j" using assms(1,3) unfolding dvd_def by blast
  have "i \<noteq> j" using assms(5) ij by (auto simp: word_unat_eq_iff)
  have "off + g - (off + f) = g - f" by simp
  moreover have "unat (g - f) = (if unat f \<le> unat g then unat g - unat f else unat g + 2 ^ 64 - unat f)"
    by (simp add: unat_sub_if')
  moreover have "4096 * i + 4096 \<le> 4096 * j \<or> 4096 * j + 4096 \<le> 4096 * i" using \<open>i \<noteq> j\<close> by linarith
  moreover have "(2 :: nat) ^ 52 + 2 ^ 52 \<le> 2 ^ 64" by simp
  ultimately show ?thesis using ij assms(2,4) unfolding apart_def by (cases "unat f \<le> unat g") (simp_all only: if_True if_False, linarith+)
qed

section \<open>Loading keeps what is there\<close>

text \<open>A page of the translation whose frame was handed out and holds the given bytes.\<close>

definition holds :: "('m, 'f) paging \<Rightarrow> ('f \<Rightarrow> u64 set) \<Rightarrow> u64 \<Rightarrow> ('m, 'f) load_state \<Rightarrow> u64 \<Rightarrow> flags \<Rightarrow> bytes \<Rightarrow> bool" where
  "holds p issued off st pg fl bs \<longleftrightarrow>
     (\<exists>f \<in> issued (ls_alloc st). lookup p (ls_mapper st) pg = Some (f, fl) \<and> load_bytes (ls_mem st) (off + f) 4096 = bs)"

definition keeps :: "('m, 'f) paging \<Rightarrow> ('f \<Rightarrow> u64 set) \<Rightarrow> u64 \<Rightarrow> ('m, 'f) load_state \<Rightarrow> ('m, 'f) load_state \<Rightarrow> bool" where
  "keeps p issued off st st' \<longleftrightarrow> (\<forall>pg fl bs. holds p issued off st pg fl bs \<longrightarrow> holds p issued off st' pg fl bs)"

lemma keeps_refl: "keeps p issued off st st"
  by (simp add: keeps_def)

lemma keeps_trans: "keeps p issued off a b \<Longrightarrow> keeps p issued off b c \<Longrightarrow> keeps p issued off a c"
  by (simp add: keeps_def)

lemma load_page_cases:
  assumes "addresses_doc p" "load_page p alloc off seg v fl pg st = Some (Inr (), st')"
  obtains f a1 m2 a2 kv mem where "alloc (ls_alloc st) = Some (Some f, a1)"
    "virt_page p pg = Some (page_down pg)" "map_to p (ls_mapper st) (page_down pg) f fl a1 = Some (Inr (), m2, a2)"
    "virt_add p off f = Some kv" "copy_segment seg v pg kv (store_bytes (ls_mem st) kv (replicate 4096 0)) = Some mem"
    "st' = st\<lparr>ls_mapper := m2, ls_alloc := a2, ls_mem := mem\<rparr>"
proof -
  note run = assms(2)[unfolded load_page_def]
  obtain fr a1 where 1: "alloc (ls_alloc st) = Some (fr, a1)" using run by (cases "alloc (ls_alloc st)") auto
  obtain f where 2: "fr = Some f" using run 1 by (cases fr) auto
  obtain pg' where 3: "virt_page p pg = Some pg'" using run 1 2 by (cases "virt_page p pg") auto
  obtain r m2 a2 where 4: "map_to p (ls_mapper st) pg' f fl a1 = Some (r, m2, a2)"
    using run 1 2 3 by (cases "map_to p (ls_mapper st) pg' f fl a1") auto
  have 5: "r = Inr ()" using run 1 2 3 4 by (cases r) auto
  obtain kv where 6: "virt_add p off f = Some kv" using run 1 2 3 4 5 by (cases "virt_add p off f") auto
  obtain mem where 7: "copy_segment seg v pg kv (store_bytes (ls_mem st) kv (replicate 4096 0)) = Some mem"
    using run 1 2 3 4 5 6 by (cases "copy_segment seg v pg kv (store_bytes (ls_mem st) kv (replicate 4096 0))") auto
  have "pg' = page_down pg" using assms(1) 3 by (auto simp: addresses_doc_def)
  with 1 2 3 4 5 6 7 run show thesis by (intro that[of f a1 m2 a2 kv mem]) auto
qed

section \<open>Program headers\<close>

record Phdr =
  p_type :: u32
  p_flags :: u32
  p_offset :: u64
  p_vaddr :: u64
  p_filesz :: u64
  p_memsz :: u64

definition phdr :: "bytes \<Rightarrow> nat \<Rightarrow> Phdr" where
  "phdr bs off =
     \<lparr>p_type = from_le_bytes (slice off (off + 4) bs), p_flags = from_le_bytes (slice (off + 4) (off + 8) bs),
      p_offset = from_le_bytes (slice (off + 8) (off + 16) bs), p_vaddr = from_le_bytes (slice (off + 16) (off + 24) bs),
      p_filesz = from_le_bytes (slice (off + 32) (off + 40) bs), p_memsz = from_le_bytes (slice (off + 40) (off + 48) bs)\<rparr>"

definition seg_data :: "bytes \<Rightarrow> Phdr \<Rightarrow> bytes" where
  "seg_data bs ph = slice (unat (p_offset ph)) (unat (p_offset ph) + unat (p_filesz ph)) bs"

lemma read_le_eq: "read_le n bs off = Some w \<longleftrightarrow> off + n \<le> length bs \<and> w = from_le_bytes (slice off (off + n) bs)"
  by (auto simp: read_le_def slice_chk_def split: if_splits)

text \<open>A segment that was loaded: each of its pages holds its image.\<close>

definition segment_pages :: "('m, 'f) paging \<Rightarrow> ('f \<Rightarrow> u64 set) \<Rightarrow> u64 \<Rightarrow> bytes \<Rightarrow> Phdr \<Rightarrow> ('m, 'f) load_state \<Rightarrow> bool" where
  "segment_pages p issued off bs ph st \<longleftrightarrow>
     (\<forall>x. 4096 dvd unat x \<and> unat (page_down (p_vaddr ph)) \<le> unat x \<and> unat x < unat (p_vaddr ph) + unat (p_memsz ph) \<longrightarrow>
       holds p issued off st x (page_flags (p_flags ph)) (page_image (seg_data bs ph) (unat (p_vaddr ph)) (unat x)))"

lemma segment_pages_keeps: "segment_pages p issued off bs ph st \<Longrightarrow> keeps p issued off st st' \<Longrightarrow> segment_pages p issued off bs ph st'"
  by (auto simp: segment_pages_def keeps_def)

lemma load_segment_cases:
  assumes "load_segment p alloc off bs phoff entsize i st = Some (Inr (), st')" "i < 2 ^ 16"
  defines "q \<equiv> unat phoff + i * unat entsize"
  shows "p_type (phdr bs q) \<noteq> PT_LOAD \<and> st' = st \<or>
    p_type (phdr bs q) = PT_LOAD \<and> unat (p_offset (phdr bs q)) + unat (p_filesz (phdr bs q)) \<le> length bs \<and>
    (\<exists>e. unat (p_vaddr (phdr bs q)) + unat (p_memsz (phdr bs q)) \<le> unat e \<and>
      load_pages p alloc off (seg_data bs (phdr bs q)) (p_vaddr (phdr bs q)) (page_flags (p_flags (phdr bs q))) e
        (page_down (p_vaddr (phdr bs q))) st = Some (Inr (), st'))"
proof -
  obtain rel ofs lim where 1: "mul_chk (word_of_nat i) entsize = Some rel" "add_chk phoff rel = Some ofs"
      "add_chk ofs entsize = Some lim" "\<not> length bs < unat lim"
    using assms(1) by (auto simp: load_segment_def bind_eq_Some_conv split: if_splits)
  have q: "unat ofs = q"
    using mul_chk_unat[OF 1(1)] add_chk_unat[OF 1(2)] assms(2) by (simp add: q_def unat_of_nat)
  note run = assms(1)[unfolded load_segment_def 1(1) bind.bind_lunit 1(2) 1(3) Let_def q]
  show ?thesis
  proof (cases "p_type (phdr bs q) = PT_LOAD")
    case False
    then show ?thesis using run 1(4)
      by (auto simp: bind_eq_Some_conv read_le_eq phdr_def split: if_splits)
  next
    case True
    obtain se ea r where 2: "add_chk (p_offset (phdr bs q)) (p_filesz (phdr bs q)) = Some se" "\<not> length bs < unat se"
        "add_chk (p_vaddr (phdr bs q)) (p_memsz (phdr bs q)) = Some ea" "add_chk ea 0xFFF = Some r"
        "load_pages p alloc off (slice (unat (p_offset (phdr bs q))) (unat se) bs) (p_vaddr (phdr bs q))
          (page_flags (p_flags (phdr bs q))) (page_down r) (page_down (p_vaddr (phdr bs q))) st = Some (Inr (), st')"
      using run 1(4) True
      by (auto simp: bind_eq_Some_conv read_le_eq phdr_def page_down_def add.assoc split: if_splits)
    have "unat (p_vaddr (phdr bs q)) + unat (p_memsz (phdr bs q)) \<le> unat (page_down r)"
      using add_chk_unat[OF 2(3)] add_chk_unat[OF 2(4)] page_down_bounds(3)[of r] by simp
    then show ?thesis using True 2 add_chk_unat[OF 2(1)] by (auto simp: seg_data_def)
  qed
qed

context frame_source
begin

text \<open>A fresh frame is mapped and only its window is written.\<close>

lemma fresh_page:
  assumes "map_to_doc p (grows_by ok issued)" "ok (ls_alloc st)"
    and "allocate (ls_alloc st) = Some (Some f, a1)" "map_to p (ls_mapper st) pg f fl a1 = Some (Inr (), m2, a2)"
    and "\<And>x. \<not> in_range (off + f) 4096 x \<Longrightarrow> mem x = ls_mem st x"
  defines "st' \<equiv> st\<lparr>ls_mapper := m2, ls_alloc := a2, ls_mem := mem\<rparr>"
  shows "ok (ls_alloc st')" "keeps p issued off st st'" "holds p issued off st' pg fl (load_bytes mem (off + f) 4096)"
proof -
  have a1: "ok a1" "f \<notin> issued (ls_alloc st)" "insert f (issued (ls_alloc st)) \<subseteq> issued a1"
    using allocate_fresh[OF assms(2,3)] by auto
  have m2: "grows_by ok issued a1 a2" "lookup p (ls_mapper st) pg = None" "lookup p m2 = (lookup p (ls_mapper st))(pg \<mapsto> (f, fl))"
    using assms(1,4) by (force simp: map_to_doc_def)+
  have a2: "ok a2" "issued a1 \<subseteq> issued a2" using m2(1) a1(1) by (auto simp: grows_by_def)
  show "ok (ls_alloc st')" using a2(1) by (simp add: st'_def)
  show "holds p issued off st' pg fl (load_bytes mem (off + f) 4096)"
    using a1(3) a2(2) m2(3) by (auto simp: holds_def st'_def)
  have "load_bytes mem (off + g) 4096 = load_bytes (ls_mem st) (off + g) 4096" if "g \<in> issued (ls_alloc st)" for g
  proof (rule nth_equalityI)
    fix i assume i: "i < length (load_bytes mem (off + g) 4096)"
    have "apart (off + f) 4096 (off + g) 4096"
      using that a1 issued_aligned[OF assms(2) that] issued_aligned[OF a1(1), of f] by (intro frame_windows_apart) auto
    from apart_out[OF this, of i] assms(5) i show "load_bytes mem (off + g) 4096 ! i = load_bytes (ls_mem st) (off + g) 4096 ! i"
      by simp
  qed simp
  then show "keeps p issued off st st'"
    using a1(3) a2(2) m2(2,3) by (auto simp: keeps_def holds_def st'_def)
qed

lemma load_page_loads:
  assumes "addresses_doc p" "map_to_doc p (grows_by ok issued)" "ok (ls_alloc st)" "length seg < 2 ^ 64"
    and "load_page p allocate off seg v fl pg st = Some (Inr (), st')"
  shows "ok (ls_alloc st')" "keeps p issued off st st'"
    "holds p issued off st' (page_down pg) fl (page_image seg (unat v) (unat pg))"
proof -
  obtain f a1 m2 a2 kv mem where s: "allocate (ls_alloc st) = Some (Some f, a1)"
      "map_to p (ls_mapper st) (page_down pg) f fl a1 = Some (Inr (), m2, a2)" "virt_add p off f = Some kv"
      "copy_segment seg v pg kv (store_bytes (ls_mem st) kv (replicate 4096 0)) = Some mem"
      "st' = st\<lparr>ls_mapper := m2, ls_alloc := a2, ls_mem := mem\<rparr>"
    by (rule load_page_cases[OF assms(1,5)])
  have kv: "kv = off + f" using assms(1) s(3) by (auto simp: addresses_doc_def)
  note img = copy_segment_image[OF s(4) assms(4)]
  note f = fresh_page[OF assms(2,3) s(1,2), of off mem, folded s(5), OF img(2)[unfolded kv]]
  from f img(1) show "ok (ls_alloc st')" "keeps p issued off st st'"
    "holds p issued off st' (page_down pg) fl (page_image seg (unat v) (unat pg))" by (simp_all add: kv)
qed

text \<open>A load that fails half way leaves the earlier pages alone.\<close>

lemma load_page_fails:
  assumes "map_to_doc p (grows_by ok issued)" "ok (ls_alloc st)"
    and "load_page p allocate off seg v fl pg st = Some (Inl e, st')"
  shows "ok (ls_alloc st') \<and> keeps p issued off st st'"
proof -
  obtain fr a1 where a1: "allocate (ls_alloc st) = Some (fr, a1)"
    using assms(3) by (auto simp: load_page_def bind_eq_Some_conv)
  have g1: "grows_by ok issued (ls_alloc st) a1" by (rule allocate_grows[OF a1])
  show ?thesis
  proof (cases fr)
    case None
    then show ?thesis using assms(2,3) a1 g1 by (auto simp: load_page_def keeps_def holds_def grows_by_def)
  next
    case (Some f)
    obtain x where x: "virt_page p pg = Some x" using assms(3) a1 Some by (cases "virt_page p pg") (auto simp: load_page_def)
    obtain r m2 a2 where m2: "map_to p (ls_mapper st) x f fl a1 = Some (r, m2, a2)"
      using assms(3) a1 Some x by (cases "map_to p (ls_mapper st) x f fl a1") (auto simp: load_page_def)
    then obtain y where y: "r = Inl y" "st' = st\<lparr>ls_mapper := m2, ls_alloc := a2\<rparr>"
      using assms(3) a1 Some x by (cases r) (auto simp: load_page_def bind_eq_Some_conv)
    have "grows_by ok issued a1 a2" "lookup p m2 = lookup p (ls_mapper st)"
      using assms(1) m2 y(1) by (force simp: map_to_doc_def)+
    then show ?thesis using g1 assms(2) y(2) by (auto simp: grows_by_def keeps_def holds_def)
  qed
qed

lemma load_pages_fails:
  assumes "addresses_doc p" "map_to_doc p (grows_by ok issued)" "length seg < 2 ^ 64"
  shows "load_pages p allocate off seg v fl e pg st = Some (Inl er, st') \<Longrightarrow> ok (ls_alloc st) \<Longrightarrow>
    ok (ls_alloc st') \<and> keeps p issued off st st'"
proof (induction "unat e - unat pg" arbitrary: pg st rule: less_induct)
  case less
  have lt: "pg < e" using less.prems(1) by (auto simp: load_pages.simps[of _ _ _ _ _ _ e pg] split: if_splits)
  obtain r st1 where s: "load_page p allocate off seg v fl pg st = Some (r, st1)"
    using less.prems(1) lt by (auto simp: load_pages.simps[of _ _ _ _ _ _ e pg] split: option.splits)
  show ?case
  proof (cases r)
    case (Inl er')
    then show ?thesis using load_page_fails[OF assms(2) less.prems(2)] less.prems(1) lt s
      by (auto simp: load_pages.simps[of _ _ _ _ _ _ e pg])
  next
    case (Inr u)
    then obtain pg1 where s1: "load_page p allocate off seg v fl pg st = Some (Inr (), st1)" "add_chk pg 4096 = Some pg1"
        "load_pages p allocate off seg v fl e pg1 st1 = Some (Inl er, st')"
      using less.prems(1) lt s by (auto simp: load_pages.simps[of _ _ _ _ _ _ e pg] split: option.splits)
    note l = load_page_loads[OF assms(1,2) less.prems(2) assms(3) s1(1)]
    have "unat e - unat pg1 < unat e - unat pg" using lt add_chk_unat[OF s1(2)] by (simp add: word_less_nat_alt)
    from less.hyps[OF this s1(3) l(1)] l(2) show ?thesis using keeps_trans by blast
  qed
qed

lemma load_pages_loads:
  assumes "addresses_doc p" "map_to_doc p (grows_by ok issued)" "length seg < 2 ^ 64"
  shows "load_pages p allocate off seg v fl e pg st = Some (Inr (), st') \<Longrightarrow> ok (ls_alloc st) \<Longrightarrow> 4096 dvd unat pg \<Longrightarrow>
    ok (ls_alloc st') \<and> keeps p issued off st st' \<and>
    (\<forall>x. 4096 dvd unat x \<and> unat pg \<le> unat x \<and> unat x < unat e \<longrightarrow>
      holds p issued off st' x fl (page_image seg (unat v) (unat x)))"
proof (induction "unat e - unat pg" arbitrary: pg st rule: less_induct)
  case less
  show ?case
  proof (cases "pg < e")
    case False
    then show ?thesis using less.prems by (auto simp: load_pages.simps[of _ _ _ _ _ _ e pg] keeps_refl word_less_nat_alt)
  next
    case True
    obtain st1 pg1 where s: "load_page p allocate off seg v fl pg st = Some (Inr (), st1)" "add_chk pg 4096 = Some pg1"
        "load_pages p allocate off seg v fl e pg1 st1 = Some (Inr (), st')"
      using less.prems(1) True by (auto simp: load_pages.simps[of _ _ _ _ _ _ e pg] split: option.splits sum.splits)
    note l = load_page_loads[OF assms(1,2) less.prems(2) assms(3) s(1)]
    have pg1: "unat pg1 = unat pg + 4096" using add_chk_unat[OF s(2)] by simp
    have "unat e - unat pg1 < unat e - unat pg" "4096 dvd unat pg1"
      using True pg1 less.prems(3) by (simp_all add: word_less_nat_alt)
    from less.hyps[OF this(1) s(3) l(1) this(2)] have ih: "ok (ls_alloc st')" "keeps p issued off st1 st'"
      "\<forall>x. 4096 dvd unat x \<and> unat pg1 \<le> unat x \<and> unat x < unat e \<longrightarrow> holds p issued off st' x fl (page_image seg (unat v) (unat x))"
      by auto
    have "holds p issued off st' pg fl (page_image seg (unat v) (unat pg))"
      using l(3) ih(2) less.prems(3) by (simp add: keeps_def page_down_aligned)
    moreover have "x = pg \<or> unat pg1 \<le> unat x" if x: "4096 dvd unat x" "unat pg \<le> unat x" for x
    proof -
      obtain i j where "unat x = 4096 * i" "unat pg = 4096 * j" using x(1) less.prems(3) unfolding dvd_def by blast
      then show ?thesis using x(2) pg1 by (cases "i = j") (auto simp: word_unat_eq_iff)
    qed
    ultimately show ?thesis using ih l(2) keeps_trans by blast
  qed
qed

lemma load_segments_loads:
  assumes "addresses_doc p" "map_to_doc p (grows_by ok issued)" "length bs < 2 ^ 64"
  shows "load_segments p allocate off bs phoff entsize is st = Some (Inr (), st') \<Longrightarrow> ok (ls_alloc st) \<Longrightarrow>
    \<forall>i \<in> set is. i < 2 ^ 16 \<Longrightarrow>
    ok (ls_alloc st') \<and> keeps p issued off st st' \<and>
    (\<forall>i \<in> set is. p_type (phdr bs (unat phoff + i * unat entsize)) = PT_LOAD \<longrightarrow>
      segment_pages p issued off bs (phdr bs (unat phoff + i * unat entsize)) st')"
proof (induction "is" arbitrary: st)
  case Nil
  then show ?case by (simp add: keeps_refl)
next
  case (Cons i "is")
  obtain st1 where s: "load_segment p allocate off bs phoff entsize i st = Some (Inr (), st1)"
      "load_segments p allocate off bs phoff entsize is st1 = Some (Inr (), st')"
    using Cons.prems(1) by (auto simp: bind_eq_Some_conv split: sum.splits dest!: not_Inl_unit)
  let ?ph = "phdr bs (unat phoff + i * unat entsize)"
  have "ok (ls_alloc st1) \<and> keeps p issued off st st1 \<and> (p_type ?ph = PT_LOAD \<longrightarrow> segment_pages p issued off bs ?ph st1)"
  proof (cases "p_type ?ph = PT_LOAD")
    case False
    then show ?thesis using load_segment_cases[OF s(1)] Cons.prems(2,3) by (auto simp: keeps_refl)
  next
    case True
    then obtain e where e: "unat (p_offset ?ph) + unat (p_filesz ?ph) \<le> length bs" "unat (p_vaddr ?ph) + unat (p_memsz ?ph) \<le> unat e"
        "load_pages p allocate off (seg_data bs ?ph) (p_vaddr ?ph) (page_flags (p_flags ?ph)) e (page_down (p_vaddr ?ph)) st = Some (Inr (), st1)"
      using load_segment_cases[OF s(1)] Cons.prems(3) by auto
    have "length (seg_data bs ?ph) < 2 ^ 64" using e(1) assms(3) by (simp add: seg_data_def)
    from load_pages_loads[OF assms(1,2) this e(3) Cons.prems(2) page_down_bounds(1)] show ?thesis
      using e(2) by (auto simp: segment_pages_def)
  qed
  with Cons.IH[OF s(2)] Cons.prems(3) show ?case
    using keeps_trans segment_pages_keeps by (auto, blast+)
qed

lemma load_segments_fails:
  assumes "addresses_doc p" "map_to_doc p (grows_by ok issued)" "length bs < 2 ^ 64"
  shows "load_segments p allocate off bs phoff entsize is st = Some (Inl er, st') \<Longrightarrow> ok (ls_alloc st) \<Longrightarrow>
    \<forall>i \<in> set is. i < 2 ^ 16 \<Longrightarrow> ok (ls_alloc st') \<and> keeps p issued off st st'"
proof (induction "is" arbitrary: st)
  case (Cons i "is")
  obtain r st1 where s: "load_segment p allocate off bs phoff entsize i st = Some (r, st1)"
    using Cons.prems(1) by (auto simp: bind_eq_Some_conv)
  show ?case
  proof (cases r)
    case (Inr u)
    have "ok (ls_alloc st1) \<and> keeps p issued off st st1"
      using load_segments_loads[OF assms, of off phoff entsize "[i]" st st1] Cons.prems(2,3) s Inr by simp
    with Cons.IH[of st1] Cons.prems s Inr show ?thesis using keeps_trans by auto
  next
    case (Inl er')
    have "ok (ls_alloc st1) \<and> keeps p issued off st st1"
    proof (cases "st1 = st")
      case False
      then obtain i j v fl e pg where "load_pages p allocate off (slice i j bs) v fl e pg st = Some (Inl er', st1)"
        using s Inl by (auto simp: load_segment_def bind_eq_Some_conv Let_def split: if_splits)
      moreover have "length (slice i j bs) < 2 ^ 64" using assms(3) by (simp add: slice_def)
      ultimately show ?thesis using load_pages_fails[OF assms(1,2)] Cons.prems(2) by blast
    qed (use Cons.prems(2) keeps_refl in auto)
    then show ?thesis using Cons.prems(1) s Inl by auto
  qed
qed simp

end

section \<open>What the user sees\<close>

text \<open>The byte the user reads at a virtual address, with the flags of its page.\<close>

definition user_byte :: "('m, 'f) paging \<Rightarrow> u64 \<Rightarrow> ('m, 'f) load_state \<Rightarrow> u64 \<Rightarrow> (flags \<times> u8) option" where
  "user_byte p off st x =
     (case lookup p (ls_mapper st) (page_down x) of None \<Rightarrow> None
      | Some (f, fl) \<Rightarrow> Some (fl, ls_mem st (off + f + (x - page_down x))))"

lemma holds_user_byte:
  assumes "holds p issued off st (page_down x) fl (page_image seg v (unat (page_down x)))"
  shows "user_byte p off st x = Some (fl, seg_byte seg v (unat x))"
proof -
  obtain f where f: "lookup p (ls_mapper st) (page_down x) = Some (f, fl)"
      "load_bytes (ls_mem st) (off + f) 4096 = page_image seg v (unat (page_down x))"
    using assms by (auto simp: holds_def)
  define i where "i = unat (x - page_down x)"
  have i: "i = unat x - unat (page_down x)" "i < 4096" "unat (page_down x) + i = unat x"
    using page_down_bounds(2,3)[of x] by (auto simp: i_def unat_sub word_le_nat_alt)
  have "ls_mem st (off + f + word_of_nat i) = seg_byte seg v (unat x)"
    using arg_cong[OF f(2), of "\<lambda>bs. bs ! i"] i by (simp add: page_image_def)
  then show ?thesis by (simp add: user_byte_def f(1) i_def)
qed

lemma segment_user_byte:
  assumes "segment_pages p issued off bs ph st" "unat (p_vaddr ph) \<le> unat x" "unat x < unat (p_vaddr ph) + unat (p_memsz ph)"
  shows "user_byte p off st x = Some (page_flags (p_flags ph), seg_byte (seg_data bs ph) (unat (p_vaddr ph)) (unat x))"
proof (rule holds_user_byte)
  have "unat (page_down (p_vaddr ph)) \<le> unat (page_down x)"
    using page_down_bounds(4)[OF page_down_bounds(1)[of "p_vaddr ph"], of x] page_down_bounds(2)[of "p_vaddr ph"] assms(2) by linarith
  with assms page_down_bounds(1,2)[of x]
  show "holds p issued off st (page_down x) (page_flags (p_flags ph)) (page_image (seg_data bs ph) (unat (p_vaddr ph)) (unat (page_down x)))"
    by (simp add: segment_pages_def)
qed

definition e_entry :: "bytes \<Rightarrow> u64" where "e_entry bs = from_le_bytes (slice 24 32 bs)"
definition e_phoff :: "bytes \<Rightarrow> u64" where "e_phoff bs = from_le_bytes (slice 32 40 bs)"
definition e_phentsize :: "bytes \<Rightarrow> u16" where "e_phentsize bs = from_le_bytes (slice 54 56 bs)"
definition e_phnum :: "bytes \<Rightarrow> u16" where "e_phnum bs = from_le_bytes (slice 56 58 bs)"

text \<open>The header checks, in the order of the code.\<close>

definition header_error :: "bytes \<Rightarrow> ElfError option" where
  "header_error bs =
     (if length bs < 64 then Some TooShort
      else if slice 0 4 bs \<noteq> ELFMAG then Some BadMagic
      else if bs ! 4 \<noteq> ELFCLASS64 then Some NotElf64
      else if bs ! 5 \<noteq> ELFDATA2LSB then Some NotLittleEndian
      else if from_le_bytes (slice 18 20 bs) \<noteq> EM_X86_64 then Some NotX86_64
      else if from_le_bytes (slice 16 18 bs) \<noteq> ET_EXEC then Some NotExecutable
      else None)"

definition phdrs :: "bytes \<Rightarrow> Phdr list" where
  "phdrs bs = map (\<lambda>i. phdr bs (unat (e_phoff bs) + i * unat (e_phentsize bs))) [0..<unat (e_phnum bs)]"

lemma load_eq:
  "load p alloc off bs st =
     (case header_error bs of Some e \<Rightarrow> Some (Inl e, st)
      | None \<Rightarrow> do {
          (r, st) \<leftarrow> load_segments p alloc off bs (e_phoff bs) (ucast (e_phentsize bs)) [0..<unat (e_phnum bs)] st;
          Some (case r of Inl e \<Rightarrow> Inl e | Inr _ \<Rightarrow> Inr (e_entry bs), st) })"
  unfolding e_entry_def e_phoff_def e_phentsize_def e_phnum_def
  by (auto simp: load_def header_error_def read_le_def slice_chk_def)

section \<open>Loading succeeds\<close>

text \<open>The pages a segment occupies.\<close>

definition segment_page_list :: "Phdr \<Rightarrow> u64 list" where
  "segment_page_list ph =
     (let s = unat (page_down (p_vaddr ph)); e = unat (p_vaddr ph) + unat (p_memsz ph)
      in pages_from (page_down (p_vaddr ph)) ((e - s + 4095) div 4096))"

lemma load_pages_Cons:
  assumes "vpage < e" "load_page p alloc off seg v fl vpage st = Some (Inr (), st1)" "unat vpage + 4096 < 2 ^ 64"
  shows "load_pages p alloc off seg v fl e vpage st = load_pages p alloc off seg v fl e (vpage + 4096) st1"
  using assms by (subst load_pages.simps) (simp add: add_chk_def)

lemma copy_segment_succeeds:
  assumes "unat pg + 4096 < 2 ^ 64" "unat v + length seg < 2 ^ 64"
  shows "\<exists>m'. copy_segment seg v pg kv m = Some m'"
proof -
  have len: "unat (word_of_nat (length seg) :: u64) = length seg" using assms(2) by (simp add: unat_of_nat)
  have "add_chk pg 4096 = Some (pg + 4096)" "add_chk v (word_of_nat (length seg)) = Some (v + word_of_nat (length seg))"
    using assms by (simp_all add: add_chk_def len)
  moreover have fe: "unat (v + word_of_nat (length seg)) = unat v + length seg"
    using assms(2) by (simp add: unat_word_ariths(1) len)
  have "unat (max v pg - v) \<le> length seg" if "max v pg < min (v + word_of_nat (length seg)) (pg + 4096)"
  proof -
    have "max v pg < v + word_of_nat (length seg)" using that unfolding min_less_iff_conj by blast
    then have "unat (max v pg) < unat v + length seg" unfolding word_less_nat_alt fe .
    then show ?thesis by (simp add: unat_sub)
  qed
  ultimately show ?thesis by (simp add: copy_segment_def Let_def slice_chk_def)
qed

lemma load_page_succeeds:
  assumes "addresses_doc p" "map_to_doc p (boot_grows p)" "map_to_succeeds p" "boot_alloc_ok p (ls_alloc st)"
    and "\<forall>f \<in> set (usable_addrs (ls_alloc st)). virt_add p off f \<noteq> None"
    and "lookup p (ls_mapper st) (page_down pg) = None" "4 \<le> frames_left (ls_alloc st)"
    and "unat pg < 2 ^ 47" "unat v + length seg < 2 ^ 64"
  shows "\<exists>st' f. load_page p (allocate_frame p) off seg v fl pg st = Some (Inr (), st') \<and> boot_alloc_ok p (ls_alloc st') \<and>
    frames_left (ls_alloc st) \<le> frames_left (ls_alloc st') + 4 \<and>
    memory_regions (ls_alloc st') = memory_regions (ls_alloc st) \<and>
    lookup p (ls_mapper st') = (lookup p (ls_mapper st))(page_down pg \<mapsto> (f, fl))"
proof -
  obtain f a1 m' a' where s: "allocate_frame p (ls_alloc st) = Some (Some f, a1)" "f \<in> set (usable_addrs (ls_alloc st))"
    "map_to p (ls_mapper st) (page_down pg) f fl a1 = Some (Inr (), m', a')" "boot_alloc_ok p a'"
    "frames_left (ls_alloc st) \<le> frames_left a' + 4" "memory_regions a' = memory_regions (ls_alloc st)"
    "lookup p m' = (lookup p (ls_mapper st))(page_down pg \<mapsto> (f, fl))"
    using map_step_succeeds[OF assms(2-4,6,7)] by blast
  obtain kv where kv: "virt_add p off f = Some kv" using assms(5) s(2) by auto
  obtain mem where "copy_segment seg v pg kv (store_bytes (ls_mem st) kv (replicate 4096 0)) = Some mem"
    using copy_segment_succeeds[OF _ assms(9)] assms(8) by fastforce
  then show ?thesis using s kv virt_page_low[OF assms(1,8)] by (auto simp: load_page_def)
qed

lemma load_pages_succeeds:
  assumes "addresses_doc p" "map_to_doc p (boot_grows p)" "map_to_succeeds p" "unat v + length seg < 2 ^ 64"
  shows "boot_alloc_ok p (ls_alloc st) \<Longrightarrow>
    \<forall>f \<in> set (usable_addrs (ls_alloc st)). virt_add p off f \<noteq> None \<Longrightarrow>
    4096 dvd unat pg \<Longrightarrow> unat e = unat pg + 4096 * n \<Longrightarrow> unat e < 2 ^ 47 \<Longrightarrow>
    \<forall>x \<in> set (pages_from pg n). lookup p (ls_mapper st) x = None \<Longrightarrow> 4 * n \<le> frames_left (ls_alloc st) \<Longrightarrow>
    \<exists>st'. load_pages p (allocate_frame p) off seg v fl e pg st = Some (Inr (), st') \<and> boot_alloc_ok p (ls_alloc st') \<and>
      frames_left (ls_alloc st) \<le> frames_left (ls_alloc st') + 4 * n \<and>
      memory_regions (ls_alloc st') = memory_regions (ls_alloc st) \<and>
      (\<forall>x. x \<notin> set (pages_from pg n) \<longrightarrow> lookup p (ls_mapper st') x = lookup p (ls_mapper st) x)"
proof (induction n arbitrary: pg st)
  case 0
  then have "\<not> pg < e" by (simp add: word_less_nat_alt)
  then show ?case using 0 by (simp add: load_pages.simps[of _ _ _ _ _ _ e pg])
next
  case (Suc n)
  have split: "pages_from pg (Suc n) = pg # pages_from (pg + 4096) n"
    by (simp add: pages_from_def upt_conv_Cons map_Suc_upt[symmetric] comp_def distrib_left add.assoc del: upt_Suc map_Suc_upt)
  have "lookup p (ls_mapper st) (page_down pg) = None" "unat pg < 2 ^ 47" "4 \<le> frames_left (ls_alloc st)"
    using Suc.prems by (simp_all add: split page_down_aligned)
  from load_page_succeeds[OF assms(1-3) Suc.prems(1,2) this(1,3,2) assms(4), of fl] obtain st1 f where
    s: "load_page p (allocate_frame p) off seg v fl pg st = Some (Inr (), st1)" "boot_alloc_ok p (ls_alloc st1)"
      "frames_left (ls_alloc st) \<le> frames_left (ls_alloc st1) + 4" "memory_regions (ls_alloc st1) = memory_regions (ls_alloc st)"
      "lookup p (ls_mapper st1) = (lookup p (ls_mapper st))(pg \<mapsto> (f, fl))"
    using Suc.prems(3) by (auto simp: page_down_aligned)
  have pg': "unat (pg + 4096) = unat pg + 4096" using Suc.prems(4,5) by (simp add: unat_word_ariths(1))
  have "distinct (pages_from pg (Suc n))"
    by (rule pages_from_props(1)[OF Suc.prems(3)]) (use Suc.prems(4,5) in simp)
  then have fresh: "pg \<notin> set (pages_from (pg + 4096) n)" by (simp add: split)
  have u: "\<forall>f \<in> set (usable_addrs (ls_alloc st1)). virt_add p off f \<noteq> None"
    using Suc.prems(2) s(4) by (simp add: usable_addrs_def)
  have m: "\<forall>x \<in> set (pages_from (pg + 4096) n). lookup p (ls_mapper st1) x = None"
    using Suc.prems(6) fresh by (auto simp: s(5) split)
  have n: "4096 dvd unat (pg + 4096)" "unat e = unat (pg + 4096) + 4096 * n" "4 * n \<le> frames_left (ls_alloc st1)"
    using Suc.prems(3,4,7) s(3) pg' by simp_all
  obtain st' where
    "load_pages p (allocate_frame p) off seg v fl e (pg + 4096) st1 = Some (Inr (), st')" "boot_alloc_ok p (ls_alloc st')"
      "frames_left (ls_alloc st1) \<le> frames_left (ls_alloc st') + 4 * n" "memory_regions (ls_alloc st') = memory_regions (ls_alloc st1)"
      "\<forall>x. x \<notin> set (pages_from (pg + 4096) n) \<longrightarrow> lookup p (ls_mapper st') x = lookup p (ls_mapper st1) x"
    using Suc.IH[OF s(2) u n(1,2) Suc.prems(5) m n(3)] by blast
  moreover have "pg < e" "unat pg + 4096 < 2 ^ 64" using Suc.prems(4,5) by (simp_all add: word_less_nat_alt)
  ultimately show ?case using s load_pages_Cons[OF _ s(1)] by (auto simp: split)
qed

lemma phdr_offset:
  fixes phoff entsize :: u64
  assumes "56 \<le> unat entsize" "unat phoff + Suc i * unat entsize \<le> length bs" "length bs < 2 ^ 63" "i < 2 ^ 16"
  defines "q \<equiv> unat phoff + i * unat entsize"
  shows "mul_chk (word_of_nat i) entsize = Some (word_of_nat i * entsize)"
    "add_chk phoff (word_of_nat i * entsize) = Some (phoff + word_of_nat i * entsize)"
    "unat (phoff + word_of_nat i * entsize) = q"
    "add_chk (phoff + word_of_nat i * entsize) entsize = Some (phoff + word_of_nat i * entsize + entsize)"
    "unat (phoff + word_of_nat i * entsize + entsize) \<le> length bs" "q + 56 \<le> length bs"
proof -
  have i: "unat (word_of_nat i :: u64) = i" using assms(4) by (simp add: unat_of_nat)
  have b: "i * unat entsize < 2 ^ 63" "q + unat entsize \<le> length bs" using assms(2,3) by (simp_all add: q_def)
  have m: "unat (word_of_nat i * entsize) = i * unat entsize" using b(1) by (simp add: unat_word_ariths(2) i)
  have a: "unat (phoff + word_of_nat i * entsize) = q"
    using b(2) assms(3) by (simp add: unat_word_ariths(1) m q_def)
  have c: "unat (phoff + word_of_nat i * entsize + entsize) = q + unat entsize"
    using b(2) assms(3) by (simp add: unat_word_ariths(1)[of "phoff + word_of_nat i * entsize"] a)
  show "mul_chk (word_of_nat i) entsize = Some (word_of_nat i * entsize)" using b(1) by (simp add: mul_chk_def i)
  show "add_chk phoff (word_of_nat i * entsize) = Some (phoff + word_of_nat i * entsize)"
    using b(2) assms(3) by (simp add: add_chk_def m q_def)
  show "add_chk (phoff + word_of_nat i * entsize) entsize = Some (phoff + word_of_nat i * entsize + entsize)"
    using b(2) assms(3) by (simp add: add_chk_def a)
  show "unat (phoff + word_of_nat i * entsize) = q" "unat (phoff + word_of_nat i * entsize + entsize) \<le> length bs" "q + 56 \<le> length bs"
    using a b(2) c assms(1) by simp_all
qed

lemma phdr_reads:
  assumes "q + 56 \<le> length bs"
  shows "read_le 4 bs q = Some (p_type (phdr bs q))" "read_le 4 bs (q + 4) = Some (p_flags (phdr bs q))"
    "read_le 8 bs (q + 8) = Some (p_offset (phdr bs q))" "read_le 8 bs (q + 16) = Some (p_vaddr (phdr bs q))"
    "read_le 8 bs (q + 32) = Some (p_filesz (phdr bs q))" "read_le 8 bs (q + 40) = Some (p_memsz (phdr bs q))"
    "read_le 8 bs (q + 48) = Some (from_le_bytes (slice (q + 48) (q + 56) bs) :: u64)"
  using assms by (simp_all add: read_le_def slice_chk_def phdr_def add.assoc)

lemma page_down_round:
  assumes "4096 dvd unat pg" "unat pg \<le> E" "unat r = E + 4095"
  shows "unat (page_down r) = unat pg + 4096 * ((E - unat pg + 4095) div 4096)"
proof -
  obtain k where k: "unat pg = 4096 * k" using assms(1) by (rule dvdE)
  have "E + 4095 = (E - unat pg + 4095) + k * 4096" using assms(2) k by simp
  then have "(E + 4095) div 4096 = k + (E - unat pg + 4095) div 4096"
    using div_mult_self1[of 4096 "E - unat pg + 4095" k] by simp
  then show ?thesis by (simp add: unat_page_down minus_mod_eq_mult_div assms(3) k)
qed

definition phdr_ok :: "bytes \<Rightarrow> Phdr \<Rightarrow> bool" where
  "phdr_ok bs ph \<longleftrightarrow> unat (p_offset ph) + unat (p_filesz ph) \<le> length bs \<and>
     unat (p_vaddr ph) + unat (p_memsz ph) + 4095 < 2 ^ 47 \<and> unat (p_vaddr ph) + unat (p_filesz ph) < 2 ^ 64"

lemma load_segment_succeeds:
  assumes "addresses_doc p" "map_to_doc p (boot_grows p)" "map_to_succeeds p" "boot_alloc_ok p (ls_alloc st)"
    "\<forall>f \<in> set (usable_addrs (ls_alloc st)). virt_add p off f \<noteq> None"
    "56 \<le> unat entsize" "unat phoff + Suc i * unat entsize \<le> length bs" "length bs < 2 ^ 63" "i < 2 ^ 16"
  defines "ph \<equiv> phdr bs (unat phoff + i * unat entsize)"
  assumes "p_type ph = PT_LOAD" "phdr_ok bs ph" "\<forall>x \<in> set (segment_page_list ph). lookup p (ls_mapper st) x = None"
    "4 * length (segment_page_list ph) \<le> frames_left (ls_alloc st)"
  shows "\<exists>st'. load_segment p (allocate_frame p) off bs phoff entsize i st = Some (Inr (), st') \<and> boot_alloc_ok p (ls_alloc st') \<and>
      frames_left (ls_alloc st) \<le> frames_left (ls_alloc st') + 4 * length (segment_page_list ph) \<and>
      memory_regions (ls_alloc st') = memory_regions (ls_alloc st) \<and>
      (\<forall>x. x \<notin> set (segment_page_list ph) \<longrightarrow> lookup p (ls_mapper st') x = lookup p (ls_mapper st) x)"
proof -
  let ?q = "unat phoff + i * unat entsize"
  note offs = phdr_offset[OF assms(6-9)]
  let ?E = "unat (p_vaddr ph) + unat (p_memsz ph)" and ?pg = "page_down (p_vaddr ph)"
  have wf: "unat (p_offset ph) + unat (p_filesz ph) \<le> length bs" "?E + 4095 < 2 ^ 47" "unat (p_vaddr ph) + unat (p_filesz ph) < 2 ^ 64"
    using assms(12) by (auto simp: phdr_ok_def)
  have adds: "add_chk (p_offset ph) (p_filesz ph) = Some (p_offset ph + p_filesz ph)"
      "unat (p_offset ph + p_filesz ph) = unat (p_offset ph) + unat (p_filesz ph)"
      "add_chk (p_vaddr ph) (p_memsz ph) = Some (p_vaddr ph + p_memsz ph)" "unat (p_vaddr ph + p_memsz ph) = ?E"
      "add_chk (p_vaddr ph + p_memsz ph) 0xFFF = Some (p_vaddr ph + p_memsz ph + 0xFFF)"
      "unat (p_vaddr ph + p_memsz ph + 0xFFF) = ?E + 4095"
    using wf assms(8) by (auto simp: add_chk_def unat_word_ariths(1))
  let ?e = "page_down (p_vaddr ph + p_memsz ph + 0xFFF)" and ?n = "(?E - unat ?pg + 4095) div 4096"
  have pages: "segment_page_list ph = pages_from ?pg ?n" by (simp add: segment_page_list_def Let_def)
  have e: "unat ?e = unat ?pg + 4096 * ?n"
    using page_down_round[of ?pg ?E "p_vaddr ph + p_memsz ph + 0xFFF"] adds(6) page_down_bounds(1,2)[of "p_vaddr ph"] by simp
  have low: "unat ?e < 2 ^ 47" using page_down_bounds(2)[of "p_vaddr ph + p_memsz ph + 0xFFF"] adds(6) wf(2) by simp
  have seg: "unat (p_vaddr ph) + length (seg_data bs ph) < 2 ^ 64" using wf(1,3) by (simp add: seg_data_def)
  have len: "length (pages_from ?pg ?n) = ?n" by (simp add: pages_from_def)
  have run: "load_segment p (allocate_frame p) off bs phoff entsize i st =
      load_pages p (allocate_frame p) off (seg_data bs ph) (p_vaddr ph) (page_flags (p_flags ph)) ?e ?pg st"
    using adds wf(1) assms(11) offs(5)
    by (simp add: load_segment_def offs(1-4) phdr_reads[OF offs(6)] ph_def[symmetric] Let_def seg_data_def not_less page_down_def)
  show ?thesis unfolding run
    using load_pages_succeeds[OF assms(1-3) seg assms(4,5) page_down_bounds(1) e low] assms(13,14)
    unfolding pages len by blast
qed

text \<open>A file that the loader can load on the machine at hand: its tables are in bounds, its
  segments are in the user half and do not share pages, those pages are free, the frames
  suffice and are in the kernel's window.\<close>

definition load_pages_of :: "bytes \<Rightarrow> nat list \<Rightarrow> u64 list" where
  "load_pages_of bs is = concat (map (\<lambda>i. let ph = phdr bs (unat (e_phoff bs) + i * unat (e_phentsize bs))
     in if p_type ph = PT_LOAD then segment_page_list ph else []) is)"

definition loadable :: "('m, BootInfoFrameAllocator) paging \<Rightarrow> u64 \<Rightarrow> bytes \<Rightarrow> ('m, BootInfoFrameAllocator) load_state \<Rightarrow> bool" where
  "loadable p off bs st \<longleftrightarrow>
     header_error bs = None \<and> length bs < 2 ^ 63 \<and> 56 \<le> unat (e_phentsize bs) \<and>
     unat (e_phoff bs) + unat (e_phnum bs) * unat (e_phentsize bs) \<le> length bs \<and>
     (\<forall>ph \<in> set (phdrs bs). p_type ph = PT_LOAD \<longrightarrow> phdr_ok bs ph) \<and>
     (let pages = load_pages_of bs [0..<unat (e_phnum bs)] in
        distinct pages \<and> (\<forall>x \<in> set pages. lookup p (ls_mapper st) x = None) \<and> 4 * length pages \<le> frames_left (ls_alloc st)) \<and>
     (\<forall>f \<in> set (usable_addrs (ls_alloc st)). virt_add p off f \<noteq> None)"

lemma unat_ucast_16: "unat (ucast (w :: u16) :: u64) = unat w"
  by (simp add: unsigned_ucast_eq take_bit_eq_mod) (use unsigned_less[of w, where ?'a = nat] in simp)

lemma load_segments_succeed:
  assumes "addresses_doc p" "map_to_doc p (boot_grows p)" "map_to_succeeds p" "56 \<le> unat (e_phentsize bs)" "length bs < 2 ^ 63"
    "unat (e_phoff bs) + unat (e_phnum bs) * unat (e_phentsize bs) \<le> length bs"
    "\<forall>ph \<in> set (phdrs bs). p_type ph = PT_LOAD \<longrightarrow> phdr_ok bs ph"
  shows "boot_alloc_ok p (ls_alloc st) \<Longrightarrow> \<forall>f \<in> set (usable_addrs (ls_alloc st)). virt_add p off f \<noteq> None \<Longrightarrow>
    set is \<subseteq> {..<unat (e_phnum bs)} \<Longrightarrow> distinct (load_pages_of bs is) \<Longrightarrow>
    \<forall>x \<in> set (load_pages_of bs is). lookup p (ls_mapper st) x = None \<Longrightarrow>
    4 * length (load_pages_of bs is) \<le> frames_left (ls_alloc st) \<Longrightarrow>
    \<exists>st'. load_segments p (allocate_frame p) off bs (e_phoff bs) (ucast (e_phentsize bs)) is st = Some (Inr (), st') \<and>
      boot_alloc_ok p (ls_alloc st') \<and> frames_left (ls_alloc st) \<le> frames_left (ls_alloc st') + 4 * length (load_pages_of bs is) \<and>
      memory_regions (ls_alloc st') = memory_regions (ls_alloc st) \<and>
      (\<forall>x. x \<notin> set (load_pages_of bs is) \<longrightarrow> lookup p (ls_mapper st') x = lookup p (ls_mapper st) x)"
proof (induction "is" arbitrary: st)
  case (Cons i "is")
  let ?ent = "ucast (e_phentsize bs) :: u64"
  let ?ph = "phdr bs (unat (e_phoff bs) + i * unat (e_phentsize bs))"
  have ent: "unat ?ent = unat (e_phentsize bs)" by (rule unat_ucast_16)
  have i: "i < unat (e_phnum bs)" using Cons.prems(3) by simp
  then have "Suc i * unat (e_phentsize bs) \<le> unat (e_phnum bs) * unat (e_phentsize bs)" by (intro mult_le_mono1) simp
  then have bound: "unat (e_phoff bs) + Suc i * unat ?ent \<le> length bs" using assms(6) ent by simp
  have i16: "i < 2 ^ 16" using i unsigned_less[of "e_phnum bs", where ?'a = nat] by simp
  have ph: "?ph \<in> set (phdrs bs)" using i by (auto simp: phdrs_def)
  show ?case
  proof (cases "p_type ?ph = PT_LOAD")
    case False
    note o = phdr_offset[OF assms(4)[folded ent] bound assms(5) i16]
    have "load_segment p (allocate_frame p) off bs (e_phoff bs) ?ent i st = Some (Inr (), st)"
      using False o(5) by (simp add: load_segment_def o(1-4) ent phdr_reads[OF o(6)[unfolded ent]] Let_def)
    then show ?thesis using Cons False by (simp add: load_pages_of_def)
  next
    case True
    have pages: "load_pages_of bs (i # is) = segment_page_list ?ph @ load_pages_of bs is"
      using True by (simp add: load_pages_of_def)
    have unm: "\<forall>x \<in> set (segment_page_list ?ph). lookup p (ls_mapper st) x = None"
      and enough: "4 * length (segment_page_list ?ph) \<le> frames_left (ls_alloc st)"
      using Cons.prems(5,6) by (auto simp: pages)
    obtain st1 where s: "load_segment p (allocate_frame p) off bs (e_phoff bs) ?ent i st = Some (Inr (), st1)"
        "boot_alloc_ok p (ls_alloc st1)"
        "frames_left (ls_alloc st) \<le> frames_left (ls_alloc st1) + 4 * length (segment_page_list ?ph)"
        "memory_regions (ls_alloc st1) = memory_regions (ls_alloc st)"
        "\<forall>x. x \<notin> set (segment_page_list ?ph) \<longrightarrow> lookup p (ls_mapper st1) x = lookup p (ls_mapper st) x"
      using load_segment_succeeds[OF assms(1-3) Cons.prems(1,2) assms(4)[folded ent] bound assms(5) i16, unfolded ent, OF True _ unm enough]
        assms(7) ph True by blast
    have "\<exists>st'. load_segments p (allocate_frame p) off bs (e_phoff bs) ?ent is st1 = Some (Inr (), st') \<and>
        boot_alloc_ok p (ls_alloc st') \<and> frames_left (ls_alloc st1) \<le> frames_left (ls_alloc st') + 4 * length (load_pages_of bs is) \<and>
        memory_regions (ls_alloc st') = memory_regions (ls_alloc st1) \<and>
        (\<forall>x. x \<notin> set (load_pages_of bs is) \<longrightarrow> lookup p (ls_mapper st') x = lookup p (ls_mapper st1) x)"
    proof (rule Cons.IH[OF s(2)])
      show "\<forall>f \<in> set (usable_addrs (ls_alloc st1)). virt_add p off f \<noteq> None"
        using Cons.prems(2) s(4) by (simp add: usable_addrs_def)
      show "\<forall>x \<in> set (load_pages_of bs is). lookup p (ls_mapper st1) x = None"
        using Cons.prems(4,5) s(5) by (auto simp: pages)
    qed (use Cons.prems(3,4,6) s(3) in \<open>auto simp: pages\<close>)
    then show ?thesis using s by (fastforce simp: pages)
  qed
qed (simp add: load_pages_of_def)

lemma load_succeeds:
  assumes "addresses_doc p" "map_to_doc p (boot_grows p)" "map_to_succeeds p" "boot_alloc_ok p (ls_alloc st)" "loadable p off bs st"
  shows "\<exists>st'. load p (allocate_frame p) off bs st = Some (Inr (e_entry bs), st') \<and> boot_alloc_ok p (ls_alloc st') \<and>
    frames_left (ls_alloc st) \<le> frames_left (ls_alloc st') + 4 * length (load_pages_of bs [0..<unat (e_phnum bs)]) \<and>
    memory_regions (ls_alloc st') = memory_regions (ls_alloc st) \<and>
    (\<forall>x. x \<notin> set (load_pages_of bs [0..<unat (e_phnum bs)]) \<longrightarrow> lookup p (ls_mapper st') x = lookup p (ls_mapper st) x)"
  using load_segments_succeed[OF assms(1-3) _ _ _ _ assms(4), of bs off "[0..<unat (e_phnum bs)]"] assms(5)
  by (fastforce simp: loadable_def load_eq Let_def atLeast0LessThan)

lemma load_loads:
  assumes "addresses_doc p" "map_to_doc p (boot_grows p)" "boot_alloc_ok p (ls_alloc st)" "length bs < 2 ^ 64"
    and "load p (allocate_frame p) off bs st = Some (r, st')"
  shows "boot_alloc_ok p (ls_alloc st')" "keeps p issued_frames off st st'"
    "r = Inr entry \<Longrightarrow> entry = e_entry bs"
    "r = Inr entry \<Longrightarrow> ph \<in> set (phdrs bs) \<Longrightarrow> p_type ph = PT_LOAD \<Longrightarrow> segment_pages p issued_frames off bs ph st'"
proof -
  let ?ent = "ucast (e_phentsize bs) :: u64"
  have ent: "unat ?ent = unat (e_phentsize bs)" by (rule unat_ucast_16)
  have i16: "\<forall>i \<in> set [0..<unat (e_phnum bs)]. i < 2 ^ 16"
    using unsigned_less[of "e_phnum bs", where ?'a = nat] by simp
  have "boot_alloc_ok p (ls_alloc st') \<and> keeps p issued_frames off st st' \<and> (\<forall>entry. r = Inr entry \<longrightarrow> entry = e_entry bs \<and>
    (\<forall>ph \<in> set (phdrs bs). p_type ph = PT_LOAD \<longrightarrow> segment_pages p issued_frames off bs ph st'))"
  proof (cases "header_error bs")
    case (Some e)
    then show ?thesis using assms(3,5) keeps_refl by (auto simp: load_eq)
  next
    case None
    then obtain q where q: "load_segments p (allocate_frame p) off bs (e_phoff bs) ?ent [0..<unat (e_phnum bs)] st = Some (q, st')"
        "r = (case q of Inl e \<Rightarrow> Inl e | Inr _ \<Rightarrow> Inr (e_entry bs))"
      using assms(5) by (auto simp: load_eq bind_eq_Some_conv)
    show ?thesis
    proof (cases q)
      case (Inl e)
      then show ?thesis using boot_frames.load_segments_fails[OF assms(1,2,4) _ assms(3) i16] q by auto
    next
      case (Inr u)
      have "load_segments p (allocate_frame p) off bs (e_phoff bs) ?ent [0..<unat (e_phnum bs)] st = Some (Inr (), st')"
        using Inr q(1) by simp
      from boot_frames.load_segments_loads[OF assms(1,2,4) this assms(3) i16, unfolded ent] Inr q(2)
      show ?thesis by (auto simp: phdrs_def)
    qed
  qed
  then show "boot_alloc_ok p (ls_alloc st')" "keeps p issued_frames off st st'" "r = Inr entry \<Longrightarrow> entry = e_entry bs"
    "r = Inr entry \<Longrightarrow> ph \<in> set (phdrs bs) \<Longrightarrow> p_type ph = PT_LOAD \<Longrightarrow> segment_pages p issued_frames off bs ph st'" by auto
qed

text \<open>C23: The loader loads: a loadable file is loaded without panic, error or endless loop, and after any
  successful load the entry point is the file's and every byte of every loadable segment reads
  as the file says, zero beyond the file's part, on a user page that is writable only if the
  segment asks for it and executable only if the segment asks for it; pages that were loaded
  before keep their contents.\<close>

theorem elf_load_correct:
  assumes "addresses_doc p" "map_to_doc p (boot_grows p)" "boot_alloc_ok p (ls_alloc st)" "length bs < 2 ^ 64"
  shows "(map_to_succeeds p \<and> loadable p off bs st \<longrightarrow>
      (\<exists>entry st'. load p (allocate_frame p) off bs st = Some (Inr entry, st'))) \<and>
    (load p (allocate_frame p) off bs st = Some (Inr entry, st') \<longrightarrow>
      entry = e_entry bs \<and> keeps p issued_frames off st st' \<and>
      (\<forall>ph \<in> set (phdrs bs). p_type ph = PT_LOAD \<longrightarrow>
        (\<forall>x. unat (p_vaddr ph) \<le> unat x \<and> unat x < unat (p_vaddr ph) + unat (p_memsz ph) \<longrightarrow>
          user_byte p off st' x = Some (page_flags (p_flags ph), seg_byte (seg_data bs ph) (unat (p_vaddr ph)) (unat x)))))"
  using load_succeeds[OF assms(1,2) _ assms(3), of off bs] load_loads[OF assms, of off] segment_user_byte by blast

section \<open>Two files\<close>

definition elf_header :: "u64 \<Rightarrow> u16 \<Rightarrow> u16 \<Rightarrow> bytes" where
  "elf_header entry entsize num =
     ELFMAG @ [2, 1, 1, 0, 0, 0, 0, 0, 0, 0, 0, 0] @ [2, 0, 62, 0, 1, 0, 0, 0] @ to_le_bytes 8 entry @
     to_le_bytes 8 (64 :: u64) @ replicate 14 0 @ to_le_bytes 2 entsize @ to_le_bytes 2 num @ replicate 6 0"

text \<open>A program that spins, in one read-only executable segment of two bytes.\<close>

definition demo_elf :: bytes where
  "demo_elf = elf_header 0x400000 56 1 @
     [1, 0, 0, 0] @ [5, 0, 0, 0] @ to_le_bytes 8 (120 :: u64) @ to_le_bytes 8 (0x400000 :: u64) @ replicate 8 0 @
     to_le_bytes 8 (2 :: u64) @ to_le_bytes 8 (2 :: u64) @ to_le_bytes 8 (0x1000 :: u64) @ [0xEB, 0xFE]"

text \<open>A file whose table has one entry of no bytes at the end of the file.\<close>

definition short_elf :: bytes where
  "short_elf = elf_header 0 0 1"

lemma elf_header_fields:
  "length (elf_header entry entsize num) = 64" "header_error (elf_header entry entsize num @ rest) = None"
  "e_phoff (elf_header entry entsize num @ rest) = 64" "e_phentsize (elf_header entry entsize num @ rest) = entsize"
  "e_phnum (elf_header entry entsize num @ rest) = num" "e_entry (elf_header entry entsize num @ rest) = entry"
  by (simp_all add: elf_header_def ELFMAG_def header_error_def e_phoff_def e_phentsize_def e_phnum_def e_entry_def slice_append
      nth_append from_le_to_le ELFCLASS64_def ELFDATA2LSB_def EM_X86_64_def ET_EXEC_def)
    (simp_all add: slice_def from_le_to_le, simp add: from_le_bytes_def)

lemma demo_phdr:
  "phdr demo_elf 64 = \<lparr>p_type = 1, p_flags = 5, p_offset = 120, p_vaddr = 0x400000, p_filesz = 2, p_memsz = 2\<rparr>"
  "length demo_elf = 122" "drop 120 demo_elf = [0xEB, 0xFE]"
  by (simp_all add: demo_elf_def phdr_def slice_append elf_header_fields(1))
    (simp add: slice_def from_le_to_le, simp add: from_le_bytes_def)


definition demo_load :: "(u64 \<Rightarrow> (u64 \<times> flags) option, BootInfoFrameAllocator) load_state" where
  "demo_load = \<lparr>ls_mapper = (\<lambda>_. None), ls_alloc = demo_alloc, ls_mem = (\<lambda>_. 0)\<rparr>"

lemma demo_boot:
  "addresses_doc boot_paging" "map_to_doc boot_paging (grows_by ok issued)" "map_to_succeeds boot_paging"
  "boot_alloc_ok boot_paging (ls_alloc demo_load)" "frames_left (ls_alloc demo_load) = 8192"
  "f \<in> set (usable_addrs (ls_alloc demo_load)) \<Longrightarrow> virt_add boot_paging 0x10000000000 f \<noteq> None"
  "lookup boot_paging (ls_mapper demo_load) x = None"
proof -
  show ok: "boot_alloc_ok boot_paging (ls_alloc demo_load)" using demo_alloc_ok by (simp add: demo_load_def boot_paging_def)
  show "addresses_doc boot_paging" "map_to_doc boot_paging (grows_by ok issued)" "map_to_succeeds boot_paging"
      "lookup boot_paging (ls_mapper demo_load) x = None"
    using demo_paging_doc(1) demo_map_to_doc
    by (simp_all add: boot_paging_def demo_load_def) (simp_all add: map_to_succeeds_def demo_paging_def)
  show "frames_left (ls_alloc demo_load) = 8192"
    by (simp add: demo_load_def frames_left_def usable_addrs_def demo_alloc_def BootInfoFrameAllocator_init_def step_by_4096_def pages_from_def)
  show "virt_add boot_paging 0x10000000000 f \<noteq> None" if f: "f \<in> set (usable_addrs (ls_alloc demo_load))"
  proof -
    have "regions_ok (memory_regions demo_alloc)" using demo_alloc_ok unfolding boot_alloc_ok_def by blast
    then have "unat f < 0x3000000"
      using usable_addrs_props(2)[of demo_alloc f] f by (auto simp: demo_load_def demo_alloc_def BootInfoFrameAllocator_init_def)
    then show ?thesis by (simp add: boot_paging_def demo_paging_def)
  qed
qed

theorem elf_load_correct_witness:
  "\<exists>st'. load boot_paging (allocate_frame boot_paging) 0x10000000000 demo_elf demo_load = Some (Inr 0x400000, st') \<and>
     user_byte boot_paging 0x10000000000 st' 0x400001 = Some ({PRESENT, USER_ACCESSIBLE}, 0xFE)"
proof -
  let ?off = "0x10000000000 :: u64"
  have hdr: "header_error demo_elf = None" "e_phoff demo_elf = 64" "e_phentsize demo_elf = 56" "e_phnum demo_elf = 1"
    "e_entry demo_elf = 0x400000"
    by (simp_all add: demo_elf_def elf_header_fields)
  have "loadable boot_paging ?off demo_elf demo_load"
    using demo_boot(5-7)
    by (simp add: loadable_def hdr demo_phdr phdrs_def load_pages_of_def phdr_ok_def segment_page_list_def pages_from_def
        page_down_def PT_LOAD_def)
  with elf_load_correct[OF demo_boot(1,2,4), of demo_elf ?off] obtain entry st' where
    l: "load boot_paging (allocate_frame boot_paging) ?off demo_elf demo_load = Some (Inr entry, st')"
    using demo_boot(3) demo_phdr(2) by fastforce
  with elf_load_correct[OF demo_boot(1,2,4), of demo_elf ?off entry st'] have entry: "entry = 0x400000"
    and bytes: "user_byte boot_paging ?off st' 0x400001 = Some (page_flags 5, seg_byte [0xEB, 0xFE] 0x400000 0x400001)"
    by (simp_all add: hdr phdrs_def demo_phdr PT_LOAD_def seg_data_def slice_def)
  have "page_flags 5 = {PRESENT, USER_ACCESSIBLE}" by (simp add: page_flags_def PF_W_def PF_X_def)
  with l entry bytes show ?thesis by (simp add: seg_byte_def)
qed

end
