(* ===== verification/User_Mode.thy ===== *)
theory User_Mode
  imports Syscall Elf_Loader
begin

unbundle bit_operations_syntax

text \<open>
  The user program (\<open>kernel/src/user.rs\<close>): its memory is set up from the embedded file or, when
  that cannot be loaded, from a program of 28 bytes, and a stack page. The memory the user then
  sees is characterised byte by byte, and the small program is run on it.
\<close>

section \<open>The code\<close>

definition USER_PROGRAM :: bytes where
  "USER_PROGRAM =
     [0x48, 0x31, 0xC0,
      0x0F, 0x05,
      0x48, 0xC7, 0xC0, 0x09, 0x00, 0x00, 0x00,
      0x0F, 0x05,
      0x48, 0xC7, 0xC0, 0x0B, 0x00, 0x00, 0x00,
      0x48, 0x31, 0xFF,
      0x0F, 0x05,
      0xEB, 0xFE]"

text \<open>Allocating, mapping and filling a page, which \<open>setup\<close> does once or twice; every failure is an
  \<open>expect\<close>.\<close>

definition place_page :: "('m, 'f) paging \<Rightarrow> ('f \<Rightarrow> (u64 option \<times> 'f) panics) \<Rightarrow> u64 \<Rightarrow> u64 \<Rightarrow> flags \<Rightarrow> bytes list \<Rightarrow>
    ('m, 'f) load_state \<Rightarrow> ('m, 'f) load_state panics" where
  "place_page p alloc phys_offset virt fl writes st = do {
     (frame, a) \<leftarrow> alloc (ls_alloc st);
     frame \<leftarrow> frame;
     page \<leftarrow> virt_page p virt;
     (r, m, a) \<leftarrow> map_to p (ls_mapper st) page frame fl a;
     case r of
       Inl _ \<Rightarrow> None
     | Inr _ \<Rightarrow> do {
         kv \<leftarrow> virt_add p phys_offset frame;
         Some (st\<lparr>ls_mapper := m, ls_alloc := a, ls_mem := fold (\<lambda>bs mem. store_bytes mem kv bs) writes (ls_mem st)\<rparr>) } }"

definition user_setup :: "('m, 'f) paging \<Rightarrow> ('f \<Rightarrow> (u64 option \<times> 'f) panics) \<Rightarrow> u64 \<Rightarrow> bytes \<Rightarrow>
    ('m, 'f) load_state \<Rightarrow> (u64 \<times> ('m, 'f) load_state) panics" where
  "user_setup p alloc phys_offset elf_program st = do {
     (r, st) \<leftarrow> load p alloc phys_offset elf_program st;
     (entry, st) \<leftarrow>
       (case r of
          Inr ep \<Rightarrow> Some (ep, st)
        | Inl e \<Rightarrow> do {
            st \<leftarrow> place_page p alloc phys_offset USER_CODE_VIRT {PRESENT, WRITABLE, USER_ACCESSIBLE}
                    [replicate 4096 0xCC, USER_PROGRAM] st;
            Some (USER_CODE_VIRT, st) });
     st \<leftarrow> place_page p alloc phys_offset (USER_STACK_TOP - 4096) {PRESENT, WRITABLE, USER_ACCESSIBLE, NO_EXECUTE}
             [replicate 4096 0] st;
     Some (entry, st) }"

section \<open>Placing a page\<close>

lemma load_bytes_overwrite:
  assumes "length b \<le> length a" "length a \<le> 2 ^ 63"
  shows "load_bytes (store_bytes (store_bytes m kv a) kv b) kv (length a) = b @ drop (length b) a"
proof (rule nth_equalityI)
  fix i assume i: "i < length (load_bytes (store_bytes (store_bytes m kv a) kv b) kv (length a))"
  then show "load_bytes (store_bytes (store_bytes m kv a) kv b) kv (length a) ! i = (b @ drop (length b) a) ! i"
    using store_bytes_at[of 0 b i "store_bytes m kv a" kv] store_bytes_at[of 0 a i m kv] assms
    by (auto simp: nth_append)
qed (use assms in simp)

lemma place_page_places:
  assumes "addresses_doc p" "map_to_doc p (boot_grows p)" "boot_alloc_ok p (ls_alloc st)"
    and "place_page p (allocate_frame p) off virt fl writes st = Some st'"
    and "\<And>m kv. load_bytes (fold (\<lambda>bs mem. store_bytes mem kv bs) writes m) kv 4096 = bs"
    and "\<forall>w \<in> set writes. length w \<le> 4096"
  shows "boot_alloc_ok p (ls_alloc st')" "keeps p issued_frames off st st'" "holds p issued_frames off st' (page_down virt) fl bs"
proof -
  obtain fr a1 where 1: "allocate_frame p (ls_alloc st) = Some (fr, a1)"
    using assms(4) by (cases "allocate_frame p (ls_alloc st)") (auto simp: place_page_def)
  obtain f where 2: "fr = Some f" using assms(4) 1 by (cases fr) (auto simp: place_page_def)
  obtain pg where 3: "virt_page p virt = Some pg" using assms(4) 1 2 by (cases "virt_page p virt") (auto simp: place_page_def)
  obtain r m2 a2 where 4: "map_to p (ls_mapper st) pg f fl a1 = Some (r, m2, a2)"
    using assms(4) 1 2 3 by (cases "map_to p (ls_mapper st) pg f fl a1") (auto simp: place_page_def)
  have 5: "r = Inr ()" using assms(4) 1 2 3 4 by (cases r) (auto simp: place_page_def)
  obtain kv where 6: "virt_add p off f = Some kv" using assms(4) 1 2 3 4 5 by (cases "virt_add p off f") (auto simp: place_page_def)
  have pg: "pg = page_down virt" and kv: "kv = off + f" using assms(1) 3 6 by (auto simp: addresses_doc_def)
  let ?mem = "fold (\<lambda>bs mem. store_bytes mem (off + f) bs) writes (ls_mem st)"
  have st': "st' = st\<lparr>ls_mapper := m2, ls_alloc := a2, ls_mem := ?mem\<rparr>"
    using assms(4) 1 2 3 4 5 6 by (simp add: place_page_def kv)
  have "fold (\<lambda>bs mem. store_bytes mem kv bs) ws mem x = mem x"
    if "\<not> in_range kv 4096 x" "\<forall>w \<in> set ws. length w \<le> 4096" for ws mem x
    using that by (induction ws arbitrary: mem) (auto simp: store_bytes_out in_range_def)
  then have out: "\<not> in_range (off + f) 4096 x \<Longrightarrow> ?mem x = ls_mem st x" for x
    using assms(6) by (simp add: kv)
  show "boot_alloc_ok p (ls_alloc st')" "keeps p issued_frames off st st'" "holds p issued_frames off st' (page_down virt) fl bs"
    using boot_frames.fresh_page[OF assms(2,3) 1[unfolded 2] 4[unfolded 5 pg], of off ?mem, folded st', OF out] assms(5)
    by simp_all
qed

lemma holds_byte:
  assumes "holds p issued off st pg fl bs" "4096 dvd unat pg" "unat pg \<le> unat x" "unat x < unat pg + 4096"
  shows "user_byte p off st x = Some (fl, bs ! (unat x - unat pg))"
proof -
  obtain j where j: "unat pg = 4096 * j" using assms(2) by (rule dvdE)
  have "unat x - unat x mod 4096 = unat pg"
    using assms(3,4) unfolding j by (metis (no_types) minus_mod_eq_mult_div div_nat_eqI mult.commute mult_Suc_right add.commute)
  then have down: "page_down x = pg" by (simp add: word_unat_eq_iff unat_page_down)
  have "unat (x - pg) = unat x - unat pg" using assms(3) by (simp add: unat_sub word_le_nat_alt)
  then have eq: "x - pg = word_of_nat (unat x - unat pg)" by (rule unat_eq_word_of_nat)
  obtain f where f: "lookup p (ls_mapper st) pg = Some (f, fl)" "load_bytes (ls_mem st) (off + f) 4096 = bs"
    using assms(1) by (auto simp: holds_def)
  have "ls_mem st (off + f + word_of_nat (unat x - unat pg)) = bs ! (unat x - unat pg)"
    using arg_cong[OF f(2), of "\<lambda>l. l ! (unat x - unat pg)"] assms(3,4) by simp
  then show ?thesis by (simp add: user_byte_def down f(1) eq)
qed

lemma place_page_succeeds:
  assumes "addresses_doc p" "map_to_doc p (boot_grows p)" "map_to_succeeds p" "boot_alloc_ok p (ls_alloc st)"
    and "\<forall>f \<in> set (usable_addrs (ls_alloc st)). virt_add p off f \<noteq> None"
    and "lookup p (ls_mapper st) (page_down virt) = None" "4 \<le> frames_left (ls_alloc st)" "unat virt < 2 ^ 47"
  shows "\<exists>st' f. place_page p (allocate_frame p) off virt fl writes st = Some st' \<and> boot_alloc_ok p (ls_alloc st') \<and>
    frames_left (ls_alloc st) \<le> frames_left (ls_alloc st') + 4 \<and>
    memory_regions (ls_alloc st') = memory_regions (ls_alloc st) \<and>
    lookup p (ls_mapper st') = (lookup p (ls_mapper st))(page_down virt \<mapsto> (f, fl))"
proof -
  obtain f a1 m' a' where s: "allocate_frame p (ls_alloc st) = Some (Some f, a1)" "f \<in> set (usable_addrs (ls_alloc st))"
    "map_to p (ls_mapper st) (page_down virt) f fl a1 = Some (Inr (), m', a')" "boot_alloc_ok p a'"
    "frames_left (ls_alloc st) \<le> frames_left a' + 4" "memory_regions a' = memory_regions (ls_alloc st)"
    "lookup p m' = (lookup p (ls_mapper st))(page_down virt \<mapsto> (f, fl))"
    using map_step_succeeds[OF assms(2-4,6,7)] by blast
  moreover obtain kv where "virt_add p off f = Some kv" using assms(5) s(2) by auto
  ultimately show ?thesis using virt_page_low[OF assms(1,8)] by (auto simp: place_page_def)
qed

section \<open>The memory of the user program\<close>

definition code_page :: bytes where
  "code_page = USER_PROGRAM @ replicate 4068 0xCC"

definition stack_page :: u64 where
  "stack_page = USER_STACK_TOP - 4096"

lemma page_constants:
  "page_down USER_CODE_VIRT = USER_CODE_VIRT" "page_down (USER_STACK_TOP - 4096) = stack_page" "unat stack_page = 0x4FFFFFFFF000"
  "unat USER_CODE_VIRT = 0x400000000000" "unat (USER_STACK_TOP - 4096) < 2 ^ 47" "unat USER_CODE_VIRT < 2 ^ 47"
  by (simp_all add: page_down_def USER_CODE_VIRT_def USER_STACK_TOP_def stack_page_def)

lemma code_writes:
  "load_bytes (fold (\<lambda>bs mem. store_bytes mem kv bs) [replicate 4096 0xCC, USER_PROGRAM] m) kv 4096 = code_page"
  using load_bytes_overwrite[of USER_PROGRAM "replicate 4096 0xCC" m kv] by (simp add: code_page_def USER_PROGRAM_def)

lemma stack_writes: "load_bytes (fold (\<lambda>bs mem. store_bytes mem kv bs) [replicate 4096 0] m) kv 4096 = replicate 4096 0"
  using load_store_same[of "replicate 4096 0" 4096 m kv] by simp

text \<open>What \<open>setup\<close> leaves behind: the pages of the file, or the code page of the small program, and
  the stack page.\<close>

definition user_image :: "('m, 'f) paging \<Rightarrow> ('f \<Rightarrow> u64 set) \<Rightarrow> u64 \<Rightarrow> bytes \<Rightarrow> (ElfError + u64) \<Rightarrow> ('m, 'f) load_state \<Rightarrow> bool" where
  "user_image p issued off elf r st \<longleftrightarrow>
     (case r of
        Inr _ \<Rightarrow> (\<forall>ph \<in> set (phdrs elf). p_type ph = PT_LOAD \<longrightarrow> segment_pages p issued off elf ph st)
      | Inl _ \<Rightarrow> holds p issued off st USER_CODE_VIRT {PRESENT, WRITABLE, USER_ACCESSIBLE} code_page) \<and>
     holds p issued off st stack_page {PRESENT, WRITABLE, USER_ACCESSIBLE, NO_EXECUTE} (replicate 4096 0)"

lemma user_setup_image:
  assumes "addresses_doc p" "map_to_doc p (boot_grows p)" "boot_alloc_ok p (ls_alloc st)" "length elf < 2 ^ 64"
    and "user_setup p (allocate_frame p) off elf st = Some (entry, st')"
  obtains r st1 where "load p (allocate_frame p) off elf st = Some (r, st1)" "keeps p issued_frames off st st'"
    "entry = (case r of Inr _ \<Rightarrow> e_entry elf | Inl _ \<Rightarrow> USER_CODE_VIRT)" "user_image p issued_frames off elf r st'"
proof -
  obtain r st1 where l: "load p (allocate_frame p) off elf st = Some (r, st1)"
    using assms(5) by (auto simp: user_setup_def bind_eq_Some_conv)
  note ll = load_loads[OF assms(1-4) l]
  have "\<exists>st2. place_page p (allocate_frame p) off (USER_STACK_TOP - 4096) {PRESENT, WRITABLE, USER_ACCESSIBLE, NO_EXECUTE}
      [replicate 4096 0] st2 = Some st' \<and> boot_alloc_ok p (ls_alloc st2) \<and> keeps p issued_frames off st st2 \<and>
    entry = (case r of Inr _ \<Rightarrow> e_entry elf | Inl _ \<Rightarrow> USER_CODE_VIRT) \<and>
    (case r of
       Inr _ \<Rightarrow> (\<forall>ph \<in> set (phdrs elf). p_type ph = PT_LOAD \<longrightarrow> segment_pages p issued_frames off elf ph st2)
     | Inl _ \<Rightarrow> holds p issued_frames off st2 USER_CODE_VIRT {PRESENT, WRITABLE, USER_ACCESSIBLE} code_page)"
  proof (cases r)
    case (Inr ep)
    then show ?thesis using assms(5) l ll by (intro exI[of _ st1]) (auto simp: user_setup_def bind_eq_Some_conv)
  next
    case (Inl e)
    then obtain st2 where st2: "place_page p (allocate_frame p) off USER_CODE_VIRT {PRESENT, WRITABLE, USER_ACCESSIBLE}
          [replicate 4096 0xCC, USER_PROGRAM] st1 = Some st2" "entry = USER_CODE_VIRT"
        "place_page p (allocate_frame p) off (USER_STACK_TOP - 4096) {PRESENT, WRITABLE, USER_ACCESSIBLE, NO_EXECUTE}
          [replicate 4096 0] st2 = Some st'"
      using assms(5) l by (auto simp: user_setup_def bind_eq_Some_conv)
    have small: "\<forall>w \<in> set [replicate 4096 0xCC, USER_PROGRAM]. length w \<le> 4096" by (simp add: USER_PROGRAM_def)
    note pl = place_page_places[OF assms(1,2) ll(1) st2(1) code_writes small]
    show ?thesis
      using pl(1,3) st2(2,3) keeps_trans[OF ll(2) pl(2)] Inl by (intro exI[of _ st2]) (simp add: page_constants)
  qed
  then obtain st2 where st2: "place_page p (allocate_frame p) off (USER_STACK_TOP - 4096)
      {PRESENT, WRITABLE, USER_ACCESSIBLE, NO_EXECUTE} [replicate 4096 0] st2 = Some st'" "boot_alloc_ok p (ls_alloc st2)"
    "keeps p issued_frames off st st2" "entry = (case r of Inr _ \<Rightarrow> e_entry elf | Inl _ \<Rightarrow> USER_CODE_VIRT)"
    "case r of
       Inr _ \<Rightarrow> (\<forall>ph \<in> set (phdrs elf). p_type ph = PT_LOAD \<longrightarrow> segment_pages p issued_frames off elf ph st2)
     | Inl _ \<Rightarrow> holds p issued_frames off st2 USER_CODE_VIRT {PRESENT, WRITABLE, USER_ACCESSIBLE} code_page"
    by blast
  have small: "\<forall>w \<in> set [replicate 4096 (0 :: u8)]. length w \<le> 4096" by simp
  note pl = place_page_places[OF assms(1,2) st2(2,1) stack_writes small]
  have "user_image p issued_frames off elf r st'"
    using pl(3) st2(5) segment_pages_keeps[OF _ pl(2)] pl(2)[unfolded keeps_def]
    by (auto simp: user_image_def page_constants split: sum.splits)
  then show thesis using that[OF l keeps_trans[OF st2(3) pl(2)] st2(4)] by blast
qed

text \<open>Conditions for \<open>setup\<close> to succeed: the file is loadable or its header is bad, the pages needed
  are free and distinct, and there are frames for them.\<close>

definition user_room :: "('m, BootInfoFrameAllocator) paging \<Rightarrow> u64 \<Rightarrow> bytes \<Rightarrow> ('m, BootInfoFrameAllocator) load_state \<Rightarrow> bool" where
  "user_room p off elf st \<longleftrightarrow> lookup p (ls_mapper st) stack_page = None \<and>
     (\<forall>f \<in> set (usable_addrs (ls_alloc st)). virt_add p off f \<noteq> None) \<and>
     (if header_error elf = None
      then loadable p off elf st \<and>
        (let pages = load_pages_of elf [0..<unat (e_phnum elf)]
         in stack_page \<notin> set pages \<and> 4 * length pages + 4 \<le> frames_left (ls_alloc st))
      else lookup p (ls_mapper st) USER_CODE_VIRT = None \<and> 8 \<le> frames_left (ls_alloc st))"

lemma stack_placed:
  assumes "addresses_doc p" "map_to_doc p (boot_grows p)" "map_to_succeeds p" "boot_alloc_ok p (ls_alloc st)"
    and "\<forall>f \<in> set (usable_addrs (ls_alloc st)). virt_add p off f \<noteq> None"
    and "lookup p (ls_mapper st) stack_page = None" "4 \<le> frames_left (ls_alloc st)"
  obtains st' where "place_page p (allocate_frame p) off (USER_STACK_TOP - 4096) {PRESENT, WRITABLE, USER_ACCESSIBLE, NO_EXECUTE}
    [replicate 4096 0] st = Some st'"
  using place_page_succeeds[OF assms(1-5), of "USER_STACK_TOP - 4096"] assms(6,7) page_constants(2,5) by metis

lemma user_setup_succeeds:
  assumes "addresses_doc p" "map_to_doc p (boot_grows p)" "map_to_succeeds p" "boot_alloc_ok p (ls_alloc st)" "user_room p off elf st"
  shows "\<exists>entry st'. user_setup p (allocate_frame p) off elf st = Some (entry, st')"
proof (cases "header_error elf")
  case None
  then obtain st1 where s: "load p (allocate_frame p) off elf st = Some (Inr (e_entry elf), st1)" "boot_alloc_ok p (ls_alloc st1)"
      "4 \<le> frames_left (ls_alloc st1)" "memory_regions (ls_alloc st1) = memory_regions (ls_alloc st)"
      "lookup p (ls_mapper st1) stack_page = None"
    using load_succeeds[OF assms(1-4), of off elf] assms(5) by (fastforce simp: user_room_def Let_def)
  have "\<forall>f \<in> set (usable_addrs (ls_alloc st1)). virt_add p off f \<noteq> None"
    using assms(5) s(4) by (simp add: user_room_def usable_addrs_def)
  then show ?thesis by (rule stack_placed[OF assms(1-3) s(2) _ s(5,3)]) (simp add: user_setup_def s(1))
next
  case (Some e)
  then have s: "load p (allocate_frame p) off elf st = Some (Inl e, st)" by (simp add: load_eq)
  have r: "lookup p (ls_mapper st) USER_CODE_VIRT = None" "8 \<le> frames_left (ls_alloc st)" "lookup p (ls_mapper st) stack_page = None"
      "\<forall>f \<in> set (usable_addrs (ls_alloc st)). virt_add p off f \<noteq> None"
    using assms(5) Some by (simp_all add: user_room_def)
  obtain st1 f where s1: "place_page p (allocate_frame p) off USER_CODE_VIRT {PRESENT, WRITABLE, USER_ACCESSIBLE}
        [replicate 4096 0xCC, USER_PROGRAM] st = Some st1" "boot_alloc_ok p (ls_alloc st1)"
      "frames_left (ls_alloc st) \<le> frames_left (ls_alloc st1) + 4" "memory_regions (ls_alloc st1) = memory_regions (ls_alloc st)"
      "lookup p (ls_mapper st1) = (lookup p (ls_mapper st))(USER_CODE_VIRT \<mapsto> (f, {PRESENT, WRITABLE, USER_ACCESSIBLE}))"
    using place_page_succeeds[OF assms(1-4) r(4), of USER_CODE_VIRT] r(1,2) by (fastforce simp: page_constants)
  have free: "lookup p (ls_mapper st1) stack_page = None" using r(3) s1(5) page_constants(3,4) by auto
  have room: "\<forall>f \<in> set (usable_addrs (ls_alloc st1)). virt_add p off f \<noteq> None" "4 \<le> frames_left (ls_alloc st1)"
    using r(2,4) s1(3,4) by (simp_all add: usable_addrs_def)
  obtain st' where "place_page p (allocate_frame p) off (USER_STACK_TOP - 4096) {PRESENT, WRITABLE, USER_ACCESSIBLE, NO_EXECUTE}
      [replicate 4096 0] st1 = Some st'"
    by (rule stack_placed[OF assms(1-3) s1(2) room(1) free room(2)])
  then show ?thesis by (simp add: user_setup_def s s1(1))
qed

text \<open>C37: The user's memory is as intended: with room for it \<open>setup\<close> succeeds, and whenever it does, the pages
  that were in use keep their contents, the stack page reads as zeros and cannot be executed, and
  the entry point is that of the file with every byte of its segments in place, or, when the file
  was refused, the address of the small program, padded with breakpoints.\<close>

theorem user_memory_correct:
  assumes "addresses_doc p" "map_to_doc p (boot_grows p)" "boot_alloc_ok p (ls_alloc st)" "length elf < 2 ^ 64"
  shows "(map_to_succeeds p \<and> user_room p off elf st \<longrightarrow>
      (\<exists>entry st'. user_setup p (allocate_frame p) off elf st = Some (entry, st'))) \<and>
    (user_setup p (allocate_frame p) off elf st = Some (entry, st') \<longrightarrow>
      keeps p issued_frames off st st' \<and>
      (\<forall>x. unat USER_STACK_TOP - 4096 \<le> unat x \<and> unat x < unat USER_STACK_TOP \<longrightarrow>
        user_byte p off st' x = Some ({PRESENT, WRITABLE, USER_ACCESSIBLE, NO_EXECUTE}, 0)) \<and>
      ((\<exists>st1. load p (allocate_frame p) off elf st = Some (Inr entry, st1)) \<and> entry = e_entry elf \<and>
        (\<forall>ph \<in> set (phdrs elf). p_type ph = PT_LOAD \<longrightarrow>
          (\<forall>x. unat (p_vaddr ph) \<le> unat x \<and> unat x < unat (p_vaddr ph) + unat (p_memsz ph) \<longrightarrow>
            user_byte p off st' x = Some (page_flags (p_flags ph), seg_byte (seg_data elf ph) (unat (p_vaddr ph)) (unat x)))) \<or>
       (\<exists>e st1. load p (allocate_frame p) off elf st = Some (Inl e, st1)) \<and> entry = USER_CODE_VIRT \<and>
        (\<forall>i < 4096. user_byte p off st' (USER_CODE_VIRT + word_of_nat i) =
          Some ({PRESENT, WRITABLE, USER_ACCESSIBLE}, (USER_PROGRAM @ replicate 4068 0xCC) ! i))))"
proof (intro conjI impI)
  assume "map_to_succeeds p \<and> user_room p off elf st"
  then show "\<exists>entry st'. user_setup p (allocate_frame p) off elf st = Some (entry, st')"
    using user_setup_succeeds[OF assms(1,2) _ assms(3)] by blast
next
  assume "user_setup p (allocate_frame p) off elf st = Some (entry, st')"
  then obtain r st1 where r: "load p (allocate_frame p) off elf st = Some (r, st1)" "keeps p issued_frames off st st'"
    "entry = (case r of Inr _ \<Rightarrow> e_entry elf | Inl _ \<Rightarrow> USER_CODE_VIRT)" "user_image p issued_frames off elf r st'"
    by (rule user_setup_image[OF assms])
  show "keeps p issued_frames off st st'" by (rule r(2))
  show "\<forall>x. unat USER_STACK_TOP - 4096 \<le> unat x \<and> unat x < unat USER_STACK_TOP \<longrightarrow>
        user_byte p off st' x = Some ({PRESENT, WRITABLE, USER_ACCESSIBLE, NO_EXECUTE}, 0)"
    using holds_byte[of p issued_frames off st' stack_page] r(4) by (auto simp: user_image_def page_constants USER_STACK_TOP_def)
  show "(\<exists>st1. load p (allocate_frame p) off elf st = Some (Inr entry, st1)) \<and> entry = e_entry elf \<and>
        (\<forall>ph \<in> set (phdrs elf). p_type ph = PT_LOAD \<longrightarrow>
          (\<forall>x. unat (p_vaddr ph) \<le> unat x \<and> unat x < unat (p_vaddr ph) + unat (p_memsz ph) \<longrightarrow>
            user_byte p off st' x = Some (page_flags (p_flags ph), seg_byte (seg_data elf ph) (unat (p_vaddr ph)) (unat x)))) \<or>
       (\<exists>e st1. load p (allocate_frame p) off elf st = Some (Inl e, st1)) \<and> entry = USER_CODE_VIRT \<and>
        (\<forall>i < 4096. user_byte p off st' (USER_CODE_VIRT + word_of_nat i) =
          Some ({PRESENT, WRITABLE, USER_ACCESSIBLE}, (USER_PROGRAM @ replicate 4068 0xCC) ! i))"
  proof (cases r)
    case (Inr ep)
    then have "entry = e_entry elf" "ep = e_entry elf"
      using r(3) load_loads(3)[OF assms r(1)] by auto
    moreover have "\<forall>ph \<in> set (phdrs elf). p_type ph = PT_LOAD \<longrightarrow> segment_pages p issued_frames off elf ph st'"
      using r(4) Inr by (simp add: user_image_def)
    ultimately show ?thesis using r(1) Inr segment_user_byte by blast
  next
    case (Inl e)
    have "unat (USER_CODE_VIRT + word_of_nat i) = unat USER_CODE_VIRT + i" if "i < 4096" for i
      using that by (simp add: unat_word_ariths(1) page_constants unat_of_nat)
    then show ?thesis
      using r Inl holds_byte[of p issued_frames off st' USER_CODE_VIRT "{PRESENT, WRITABLE, USER_ACCESSIBLE}" code_page]
      by (auto simp: user_image_def page_constants code_page_def)
  qed
qed

lemma demo_room: "user_room boot_paging 0x10000000000 [] demo_load"
  using demo_boot(5-7) by (simp add: user_room_def header_error_def)

theorem user_memory_correct_witness:
  "\<exists>st'. user_setup boot_paging (allocate_frame boot_paging) 0x10000000000 [] demo_load = Some (USER_CODE_VIRT, st') \<and>
     user_byte boot_paging 0x10000000000 st' (USER_CODE_VIRT + 3) = Some ({PRESENT, WRITABLE, USER_ACCESSIBLE}, 0x0F)"
proof -
  let ?off = "0x10000000000 :: u64"
  note c = user_memory_correct[OF demo_boot(1,2,4), of "[]" ?off]
  obtain entry st' where s: "user_setup boot_paging (allocate_frame boot_paging) ?off [] demo_load = Some (entry, st')"
    using c[THEN conjunct1] demo_boot(3) demo_room by auto
  have "load boot_paging (allocate_frame boot_paging) ?off [] demo_load = Some (Inl TooShort, demo_load)"
    by (simp add: load_def)
  with c[of entry st'] s have "entry = USER_CODE_VIRT" and
    b: "\<forall>i < 4096. user_byte boot_paging ?off st' (USER_CODE_VIRT + word_of_nat i) =
      Some ({PRESENT, WRITABLE, USER_ACCESSIBLE}, (USER_PROGRAM @ replicate 4068 0xCC) ! i)" by simp_all
  with s b[rule_format, of 3] show ?thesis by (simp add: USER_PROGRAM_def)
qed

section \<open>Running the small program\<close>

text \<open>The instructions of the program, decoded from the bytes at the instruction pointer.\<close>

datatype user_instr = XorRaxRax | XorRdiRdi | MovRaxImm u32 | SyscallInstr | JmpShort u8

definition decode :: "bytes \<Rightarrow> (user_instr \<times> nat) option" where
  "decode bs =
     (if take 3 bs = [0x48, 0x31, 0xC0] then Some (XorRaxRax, 3)
      else if take 3 bs = [0x48, 0x31, 0xFF] then Some (XorRdiRdi, 3)
      else if take 2 bs = [0x0F, 0x05] then Some (SyscallInstr, 2)
      else if take 3 bs = [0x48, 0xC7, 0xC0] then Some (MovRaxImm (from_le_bytes (slice 3 7 bs)), 7)
      else if take 1 bs = [0xEB] then Some (JmpShort (bs ! 1), 2)
      else None)"

text \<open>The registers the program uses. A byte can be executed if its page is present, accessible to
  the user and not marked otherwise.\<close>

record user =
  u_rax :: u64
  u_rdi :: u64
  u_rsi :: u64
  u_rdx :: u64
  u_rip :: u64

definition fetch :: "('m, 'f) paging \<Rightarrow> u64 \<Rightarrow> ('m, 'f) load_state \<Rightarrow> u64 \<Rightarrow> u8 option" where
  "fetch p off st x =
     (case user_byte p off st x of None \<Rightarrow> None
      | Some (fl, b) \<Rightarrow> if PRESENT \<in> fl \<and> USER_ACCESSIBLE \<in> fl \<and> NO_EXECUTE \<notin> fl then Some b else None)"

text \<open>One instruction, given what the dispatcher finds when it is called: the locks and the time.\<close>

type_synonym call_env = "bool \<times> u64 \<times> ScbaStats option"

fun user_step :: "(u64 \<Rightarrow> u8 option) \<Rightarrow> call_env \<Rightarrow> user \<times> kernel \<Rightarrow> (user \<times> kernel) option" where
  "user_step get (locked, ticks, sched) (u, k) = do {
     bs \<leftarrow> those (map (\<lambda>i. get (u_rip u + word_of_nat i)) [0..<7]);
     (ins, n) \<leftarrow> decode bs;
     let u = u\<lparr>u_rip := u_rip u + word_of_nat n\<rparr> in
     case ins of
       XorRaxRax \<Rightarrow> Some (u\<lparr>u_rax := 0\<rparr>, k)
     | XorRdiRdi \<Rightarrow> Some (u\<lparr>u_rdi := 0\<rparr>, k)
     | MovRaxImm v \<Rightarrow> Some (u\<lparr>u_rax := scast v\<rparr>, k)
     | JmpShort d \<Rightarrow> Some (u\<lparr>u_rip := u_rip u + scast d\<rparr>, k)
     | SyscallInstr \<Rightarrow> do {
         (ret, k) \<leftarrow> syscall_dispatch locked ticks sched (u_rax u) (u_rdi u) (u_rsi u) (u_rdx u) k;
         Some (u\<lparr>u_rax := ret\<rparr>, k) } }"

fun user_run :: "(u64 \<Rightarrow> u8 option) \<Rightarrow> call_env list \<Rightarrow> user \<times> kernel \<Rightarrow> (user \<times> kernel) option" where
  "user_run get [] s = Some s"
| "user_run get (env # envs) s = do { s \<leftarrow> user_step get env s; user_run get envs s }"

text \<open>A code page as the instruction fetch sees it.\<close>

definition program_at :: "(u64 \<Rightarrow> u8 option) \<Rightarrow> u64 \<Rightarrow> bytes \<Rightarrow> bool" where
  "program_at get base prog \<longleftrightarrow> (\<forall>i < length prog. get (base + word_of_nat i) = Some (prog ! i))"

lemma fetch_seven:
  assumes "program_at get base prog" "o1 + 7 \<le> length prog"
  shows "those (map (\<lambda>i. get (base + word_of_nat o1 + word_of_nat i)) [0..<7]) = Some (slice o1 (o1 + 7) prog)"
proof -
  have "get (base + word_of_nat o1 + word_of_nat i) = Some (slice o1 (o1 + 7) prog ! i)" if "i < 7" for i
  proof -
    have "get (base + word_of_nat (o1 + i)) = Some (prog ! (o1 + i))"
      using assms(1)[unfolded program_at_def, rule_format, of "o1 + i"] assms(2) that by simp
    then show ?thesis using that assms(2) by (simp add: add.assoc slice_def)
  qed
  then have "map (\<lambda>i. get (base + word_of_nat o1 + word_of_nat i)) [0..<7] = map Some (slice o1 (o1 + 7) prog)"
    using assms(2) by (intro nth_equalityI) (simp_all add: slice_def)
  moreover have "those (map Some xs) = Some xs" for xs :: bytes by (induction xs) simp_all
  ultimately show ?thesis by simp
qed

lemma decode_code_page:
  "decode (slice 0 7 code_page) = Some (XorRaxRax, 3)" "decode (slice 3 10 code_page) = Some (SyscallInstr, 2)"
  "decode (slice 5 12 code_page) = Some (MovRaxImm 9, 7)" "decode (slice 12 19 code_page) = Some (SyscallInstr, 2)"
  "decode (slice 14 21 code_page) = Some (MovRaxImm 11, 7)" "decode (slice 21 28 code_page) = Some (XorRdiRdi, 3)"
  "decode (slice 24 31 code_page) = Some (SyscallInstr, 2)" "decode (slice 26 33 code_page) = Some (JmpShort 0xFE, 2)"
  by (simp_all add: code_page_def USER_PROGRAM_def slice_def) (simp_all add: decode_def slice_def from_le_bytes_def)

abbreviation at_offset :: "u64 \<Rightarrow> nat \<Rightarrow> user \<Rightarrow> user" where
  "at_offset base i u \<equiv> u\<lparr>u_rip := base + word_of_nat i\<rparr>"

lemma user_steps:
  assumes "program_at get base code_page"
  shows "user_step get env (at_offset base 0 u, k) = Some (at_offset base 3 (u\<lparr>u_rax := 0\<rparr>), k)"
    "user_step get env (at_offset base 5 u, k) = Some (at_offset base 12 (u\<lparr>u_rax := 9\<rparr>), k)"
    "user_step get env (at_offset base 14 u, k) = Some (at_offset base 21 (u\<lparr>u_rax := 11\<rparr>), k)"
    "user_step get env (at_offset base 21 u, k) = Some (at_offset base 24 (u\<lparr>u_rdi := 0\<rparr>), k)"
    "user_step get env (at_offset base 26 u, k) = Some (at_offset base 26 u, k)"
    "i \<in> {3, 12, 24} \<Longrightarrow> user_step get (locked, ticks, sched) (at_offset base i u, k) =
      map_option (\<lambda>(ret, k). (at_offset base (i + 2) (u\<lparr>u_rax := ret\<rparr>), k))
        (syscall_dispatch locked ticks sched (u_rax u) (u_rdi u) (u_rsi u) (u_rdx u) k)"
proof -
  have len: "length code_page = 4096" by (simp add: code_page_def USER_PROGRAM_def)
  have step: "user_step get (locked, ticks, sched) (at_offset base i u, k) =
      do { (ins, n) \<leftarrow> decode (slice i (i + 7) code_page);
           let u = at_offset base (i + n) u in
           case ins of
             XorRaxRax \<Rightarrow> Some (u\<lparr>u_rax := 0\<rparr>, k)
           | XorRdiRdi \<Rightarrow> Some (u\<lparr>u_rdi := 0\<rparr>, k)
           | MovRaxImm v \<Rightarrow> Some (u\<lparr>u_rax := scast v\<rparr>, k)
           | JmpShort d \<Rightarrow> Some (u\<lparr>u_rip := u_rip u + scast d\<rparr>, k)
           | SyscallInstr \<Rightarrow> do {
               (ret, k) \<leftarrow> syscall_dispatch locked ticks sched (u_rax u) (u_rdi u) (u_rsi u) (u_rdx u) k;
               Some (u\<lparr>u_rax := ret\<rparr>, k) } }"
    if "i + 7 \<le> 4096" for locked ticks sched i u k
    using fetch_seven[OF assms, of i] that by (simp add: len Let_def add.assoc cong: user_instr.case_cong)
  show "i \<in> {3, 12, 24} \<Longrightarrow> user_step get (locked, ticks, sched) (at_offset base i u, k) =
      map_option (\<lambda>(ret, k). (at_offset base (i + 2) (u\<lparr>u_rax := ret\<rparr>), k))
        (syscall_dispatch locked ticks sched (u_rax u) (u_rdi u) (u_rsi u) (u_rdx u) k)" for i locked ticks sched
    using step[of 3 locked ticks sched u k] step[of 12 locked ticks sched u k] step[of 24 locked ticks sched u k]
    by (cases "syscall_dispatch locked ticks sched (u_rax u) (u_rdi u) (u_rsi u) (u_rdx u) k")
      (auto simp: decode_code_page Let_def simp del: user_step.simps)
  obtain locked ticks sched where env: "env = (locked, ticks, sched)" by (cases env)
  show "user_step get env (at_offset base 0 u, k) = Some (at_offset base 3 (u\<lparr>u_rax := 0\<rparr>), k)"
    "user_step get env (at_offset base 5 u, k) = Some (at_offset base 12 (u\<lparr>u_rax := 9\<rparr>), k)"
    "user_step get env (at_offset base 14 u, k) = Some (at_offset base 21 (u\<lparr>u_rax := 11\<rparr>), k)"
    "user_step get env (at_offset base 21 u, k) = Some (at_offset base 24 (u\<lparr>u_rdi := 0\<rparr>), k)"
    "user_step get env (at_offset base 26 u, k) = Some (at_offset base 26 u, k)"
    unfolding env using step[of 0] step[of 5] step[of 14] step[of 21] step[of 26]
    by (simp_all add: decode_code_page Let_def del: user_step.simps)
qed

fun call_events :: "call_env \<Rightarrow> u64 \<Rightarrow> u64 \<Rightarrow> event list" where
  "call_events (locked, ticks, sched) nr arg = (if locked then [] else syscall_events ticks nr arg)"

lemma call_step:
  assumes "program_at get base code_page" "i \<in> {3, 12, 24}" "refines key (meal k) evs" "length evs + 2 < 2 ^ 64"
  shows "\<exists>ret k'. user_step get env (at_offset base i u, k) = Some (at_offset base (i + 2) (u\<lparr>u_rax := ret\<rparr>), k') \<and>
    sint ret = syscall_answer (snd (snd env)) (u_rax u) \<and>
    refines key (meal k') (evs @ call_events env (u_rax u) (u_rdi u)) \<and> syscall_count k' = syscall_count k + 1 \<and>
    last_syscall_nr k' = u_rax u \<and> user_exited k' = (u_rax u = 11 \<or> user_exited k)"
proof -
  obtain locked ticks sched where env: "env = (locked, ticks, sched)" by (cases env)
  show ?thesis
    using dispatch_logs[OF assms(3,4), of locked ticks sched "u_rax u" "u_rdi u" "u_rsi u" "u_rdx u"] user_steps(6)[OF assms(1,2)]
    by (auto simp: env simp del: user_step.simps)
qed

lemma length_call_events: "length (call_events env nr arg) \<le> 2"
  by (cases env) (simp add: syscall_events_def)

lemma program_runs:
  assumes "program_at get base code_page" "refines key (meal k) evs" "length evs + 6 < 2 ^ 64"
  shows "\<exists>u' k'. user_run get [e0, e1, e2, e3, e4, e5, e6] (at_offset base 0 u, k) = Some (u', k') \<and> u_rax u' = 0 \<and>
    syscall_count k' = syscall_count k + 3 \<and> last_syscall_nr k' = 11 \<and> user_exited k' \<and>
    refines key (meal k') (evs @ call_events e1 0 (u_rdi u) @ call_events e3 9 (u_rdi u) @ call_events e6 11 0) \<and>
    (\<forall>env. user_step get env (u', k') = Some (u', k'))"
proof -
  note steps = user_steps(1-5)[OF assms(1)]
  obtain r1 k1 where 1: "user_step get e1 (at_offset base 3 (u\<lparr>u_rax := 0\<rparr>), k) = Some (at_offset base 5 (u\<lparr>u_rax := r1\<rparr>), k1)"
      "refines key (meal k1) (evs @ call_events e1 0 (u_rdi u))" "syscall_count k1 = syscall_count k + 1"
    using call_step[OF assms(1) _ assms(2), of 3 e1 "u\<lparr>u_rax := 0\<rparr>"] assms(3) by auto
  obtain r2 k2 where 2: "user_step get e3 (at_offset base 12 (u\<lparr>u_rax := 9\<rparr>), k1) = Some (at_offset base 14 (u\<lparr>u_rax := r2\<rparr>), k2)"
      "refines key (meal k2) ((evs @ call_events e1 0 (u_rdi u)) @ call_events e3 9 (u_rdi u))" "syscall_count k2 = syscall_count k1 + 1"
    using call_step[OF assms(1) _ 1(2), of 12 e3 "u\<lparr>u_rax := 9\<rparr>"] assms(3) length_call_events[of e1 0 "u_rdi u"] by auto
  obtain r3 k3 where 3: "user_step get e6 (at_offset base 24 (u\<lparr>u_rax := 11, u_rdi := 0\<rparr>), k2) =
        Some (at_offset base 26 (u\<lparr>u_rdi := 0, u_rax := r3\<rparr>), k3)" "sint r3 = 0"
      "refines key (meal k3) (((evs @ call_events e1 0 (u_rdi u)) @ call_events e3 9 (u_rdi u)) @ call_events e6 11 0)"
      "syscall_count k3 = syscall_count k2 + 1" "last_syscall_nr k3 = 11" "user_exited k3"
    using call_step[OF assms(1) _ 2(2), of 24 e6 "u\<lparr>u_rax := 11, u_rdi := 0\<rparr>"] assms(3)
      length_call_events[of e1 0 "u_rdi u"] length_call_events[of e3 9 "u_rdi u"] by (auto simp: syscall_answer_def)
  have "user_run get [e0, e1, e2, e3, e4, e5, e6] (at_offset base 0 u, k) = Some (at_offset base 26 (u\<lparr>u_rdi := 0, u_rax := r3\<rparr>), k3)"
    using steps(1)[of e0 u k] 1(1) steps(2)[of e2 "u\<lparr>u_rax := r1\<rparr>" k1] 2(1) steps(3)[of e4 "u\<lparr>u_rax := r2\<rparr>" k2]
      steps(4)[of e5 "u\<lparr>u_rax := 11\<rparr>" k2] 3(1) by (simp del: user_step.simps)
  then show ?thesis
    using 1(3) 2(3) 3(2-6) steps(5) by (intro exI[of _ "at_offset base 26 (u\<lparr>u_rdi := 0, u_rax := r3\<rparr>)"] exI[of _ k3])
      (simp add: signed_eq_0_iff del: user_step.simps)
qed

lemma small_program_present:
  assumes "addresses_doc p" "map_to_doc p (boot_grows p)" "boot_alloc_ok p (ls_alloc st)" "length elf < 2 ^ 64"
    and "load p (allocate_frame p) off elf st = Some (Inl e, st1)"
    and "user_setup p (allocate_frame p) off elf st = Some (entry, st')"
  shows "entry = USER_CODE_VIRT" "program_at (fetch p off st') USER_CODE_VIRT code_page"
proof -
  obtain r st2 where r: "load p (allocate_frame p) off elf st = Some (r, st2)"
    "entry = (case r of Inr _ \<Rightarrow> e_entry elf | Inl _ \<Rightarrow> USER_CODE_VIRT)" "user_image p issued_frames off elf r st'"
    by (rule user_setup_image[OF assms(1-4,6)])
  then show "entry = USER_CODE_VIRT" using assms(5) by auto
  have page: "holds p issued_frames off st' USER_CODE_VIRT {PRESENT, WRITABLE, USER_ACCESSIBLE} code_page"
    using r assms(5) by (auto simp: user_image_def)
  have "unat (USER_CODE_VIRT + word_of_nat i) = unat USER_CODE_VIRT + i" if "i < 4096" for i
    using that by (simp add: unat_word_ariths(1) page_constants unat_of_nat)
  moreover have "length code_page = 4096" by (simp add: code_page_def USER_PROGRAM_def)
  ultimately show "program_at (fetch p off st') USER_CODE_VIRT code_page"
    using holds_byte[OF page] by (simp add: program_at_def fetch_def page_constants)
qed

text \<open>The small program does what it was written for: when the embedded file is refused, the memory that
  \<open>setup\<close> prepares lets the user execute from the returned entry point, seven instructions make the
  calls 0, 9 and 11 and no others, the exit is noted, the audit log shows the calls, and from then on the
  program spins in place for ever.\<close>

theorem small_program_runs:
  assumes "addresses_doc p" "map_to_doc p (boot_grows p)" "boot_alloc_ok p (ls_alloc st)" "length elf < 2 ^ 64"
    and "load p (allocate_frame p) off elf st = Some (Inl e, st1)"
    and "user_setup p (allocate_frame p) off elf st = Some (entry, st')"
    and "refines key (meal k) evs" "length evs + 6 < 2 ^ 64"
  shows "\<exists>u' k'. user_run (fetch p off st') [e0, e1, e2, e3, e4, e5, e6] (u\<lparr>u_rip := entry\<rparr>, k) = Some (u', k') \<and>
    syscall_count k' = syscall_count k + 3 \<and> last_syscall_nr k' = 11 \<and> user_exited k' \<and> u_rax u' = 0 \<and>
    refines key (meal k') (evs @ call_events e1 0 (u_rdi u) @ call_events e3 9 (u_rdi u) @ call_events e6 11 0) \<and>
    (\<forall>env. user_step (fetch p off st') env (u', k') = Some (u', k'))"
  using program_runs[OF small_program_present(2)[OF assms(1-6)] assms(7,8), of e0 e1 e2 e3 e4 e5 e6 u]
  by (auto simp: small_program_present(1)[OF assms(1-6)] simp del: user_step.simps user_run.simps)

theorem small_program_runs_witness:
  "\<exists>m st' u' k'. MealLog_new K_AUDIT = Some m \<and>
     user_setup boot_paging (allocate_frame boot_paging) 0x10000000000 [] demo_load = Some (USER_CODE_VIRT, st') \<and>
     user_run (fetch boot_paging 0x10000000000 st') (replicate 7 (False, 0, None))
       (\<lparr>u_rax = 0, u_rdi = 0, u_rsi = 0, u_rdx = 0, u_rip = USER_CODE_VIRT\<rparr>, kernel_at_boot m) = Some (u', k') \<and>
     syscall_count k' = 3 \<and> user_exited k' \<and> MealLog_verify_chain (meal k') = Some (4, True)"
proof -
  let ?off = "0x10000000000 :: u64" and ?env = "(False, 0, None) :: call_env"
  obtain entry st' where s: "user_setup boot_paging (allocate_frame boot_paging) ?off [] demo_load = Some (entry, st')"
    using user_setup_succeeds[OF demo_boot(1-4) demo_room] by blast
  have l: "load boot_paging (allocate_frame boot_paging) ?off [] demo_load = Some (Inl TooShort, demo_load)"
    by (simp add: load_def)
  have entry: "entry = USER_CODE_VIRT" using s l by (auto simp: user_setup_def bind_eq_Some_conv)
  obtain m where m: "MealLog_new K_AUDIT = Some m" "refines K_AUDIT m []" using refines_new[of K_AUDIT] by auto
  have k: "refines K_AUDIT (meal (kernel_at_boot m)) []" using m by (simp add: kernel_at_boot_def)
  have seven: "replicate 7 ?env = [?env, ?env, ?env, ?env, ?env, ?env, ?env]" by (simp add: eval_nat_numeral)
  from small_program_runs[OF demo_boot(1,2,4) _ l s k, of ?env ?env ?env ?env ?env ?env ?env
      "\<lparr>u_rax = 0, u_rdi = 0, u_rsi = 0, u_rdx = 0, u_rip = 0\<rparr>"] m(1) s
  show ?thesis
    unfolding seven entry
    by (auto simp: kernel_at_boot_def syscall_events_def dest!: refines_verifies simp: CAPACITY_def
        simp del: user_step.simps user_run.simps)
qed

end
