(* ===== verification/Smp.thy ===== *)
theory Smp
  imports Byte_Memory
begin

unbundle bit_operations_syntax

text \<open>
  Starting the other processors (\<open>kernel/src/smp.rs\<close>): the search for the ACPI tables and the list
  of processors in them, the local interrupt controller, the start-up code and its control block,
  and the loop that starts one processor after the other.
\<close>

section \<open>Per-core data\<close>

definition MAX_CORES :: nat where "MAX_CORES = 8"

record CoreLocals =
  core_id :: u32
  scba_budget_max :: u64
  scba_consumed :: u64
  scba_fences :: u64
  total_switches :: u64
  is_online :: bool

definition CoreLocals_new :: "u32 \<Rightarrow> CoreLocals" where
  "CoreLocals_new i = \<lparr>core_id = i, scba_budget_max = 64, scba_consumed = 0, scba_fences = 0, total_switches = 0, is_online = False\<rparr>"

definition CORE_LOCALS :: "CoreLocals list" where
  "CORE_LOCALS = map CoreLocals_new [0, 1, 2, 3, 4, 5, 6, 7]"

section \<open>The ACPI tables\<close>

definition read16 :: "mem \<Rightarrow> u64 \<Rightarrow> u16" where "read16 m a = from_le_bytes (load_bytes m a 2)"
definition read32 :: "mem \<Rightarrow> u64 \<Rightarrow> u32" where "read32 m a = from_le_bytes (load_bytes m a 4)"

text \<open>The inner loop of \<open>find_rsdp\<close>.\<close>

function scan_rsdp :: "mem \<Rightarrow> u64 \<Rightarrow> u64 \<Rightarrow> u64 \<Rightarrow> u64 option panics" where
  "scan_rsdp m phys_offset stop addr =
     (if addr < stop then do {
        v \<leftarrow> add_chk phys_offset addr;
        if load_bytes m v 8 = ascii ''RSD PTR '' then Some (Some addr)
        else do { addr' \<leftarrow> add_chk addr 16; scan_rsdp m phys_offset stop addr' } }
      else Some None)"
  by pat_completeness auto
termination
  by (relation "measure (\<lambda>(m, off, stop, addr). unat stop - unat addr)") (auto dest!: add_chk_unat simp: word_less_nat_alt)

declare scan_rsdp.simps [simp del]

definition find_rsdp :: "mem \<Rightarrow> u64 \<Rightarrow> u64 option panics" where
  "find_rsdp m phys_offset = do {
     p \<leftarrow> add_chk phys_offset 0x40E;
     let ebda_phys = push_bit 4 (ucast (read16 m p)) in do {
     ebda_end \<leftarrow> add_chk ebda_phys 0x400;
     r \<leftarrow> scan_rsdp m phys_offset ebda_end ebda_phys;
     case r of Some a \<Rightarrow> Some (Some a) | None \<Rightarrow> scan_rsdp m phys_offset 0x00100000 0x000E0000 } }"

text \<open>The loop over the root table.\<close>

fun find_madt :: "mem \<Rightarrow> u64 \<Rightarrow> u64 \<Rightarrow> nat list \<Rightarrow> u64 option panics" where
  "find_madt m phys_offset rsdt_virt [] = Some None"
| "find_madt m phys_offset rsdt_virt (i # is) = do {
     a \<leftarrow> add_chk rsdt_virt 36;
     a \<leftarrow> add_chk a (word_of_nat i * 4);
     let table_phys = ucast (read32 m a) in
     if table_phys = 0 then find_madt m phys_offset rsdt_virt is
     else do {
       v \<leftarrow> add_chk phys_offset table_phys;
       if load_bytes m v 4 = ascii ''APIC'' then Some (Some table_phys) else find_madt m phys_offset rsdt_virt is } }"

text \<open>The loop over the entries of the MADT.\<close>

function madt_entries :: "mem \<Rightarrow> u64 \<Rightarrow> u64 \<Rightarrow> u64 \<Rightarrow> u8 list \<Rightarrow> u8 list panics" where
  "madt_entries m madt_virt madt_len offset ids = do {
     lim \<leftarrow> add_chk offset 2;
     if lim < madt_len then do {
       entry_virt \<leftarrow> add_chk madt_virt offset;
       len_at \<leftarrow> add_chk entry_virt 1;
       let entry_type = m entry_virt; entry_len = ucast (m len_at) in
       if entry_len = 0 then Some ids
       else do {
         ids \<leftarrow>
           (if entry_type = 0 then do {
              id_at \<leftarrow> add_chk entry_virt 3;
              flags_at \<leftarrow> add_chk entry_virt 4;
              Some (if read32 m flags_at AND 1 \<noteq> 0 then ids @ [m id_at] else ids) }
            else Some ids);
         offset' \<leftarrow> add_chk offset entry_len;
         madt_entries m madt_virt madt_len offset' ids } }
     else Some ids }"
  by pat_completeness auto
termination
  by (relation "measure (\<lambda>(m, v, len, off, ids). unat len - unat off)")
    (auto dest!: add_chk_unat simp: word_less_nat_alt unat_gt_0 intro!: diff_less_mono2)

declare madt_entries.simps [simp del]

definition parse_madt :: "mem \<Rightarrow> u64 \<Rightarrow> u64 option \<Rightarrow> u8 list panics" where
  "parse_madt m phys_offset rsdp_addr = do {
     rsdp \<leftarrow> (case rsdp_addr of Some p \<Rightarrow> Some (Some p) | None \<Rightarrow> find_rsdp m phys_offset);
     case rsdp of
       None \<Rightarrow> Some []
     | Some rsdp_phys \<Rightarrow> do {
         rsdp_virt \<leftarrow> add_chk phys_offset rsdp_phys;
         p \<leftarrow> add_chk rsdp_virt 16;
         rsdt_virt \<leftarrow> add_chk phys_offset (ucast (read32 m p));
         p \<leftarrow> add_chk rsdt_virt 4;
         let n_entries = (unat (read32 m p) - 36) div 4 in do {
         madt \<leftarrow> find_madt m phys_offset rsdt_virt [0..<min n_entries 32];
         case madt of
           None \<Rightarrow> Some []
         | Some madt_phys \<Rightarrow> do {
             madt_virt \<leftarrow> add_chk phys_offset madt_phys;
             p \<leftarrow> add_chk madt_virt 4;
             madt_entries m madt_virt (ucast (read32 m p)) 44 [] } } } }"

section \<open>The local interrupt controller\<close>

definition LAPIC_PHYS :: u64 where "LAPIC_PHYS = 0xFEE00000"
definition LAPIC_ID :: u64 where "LAPIC_ID = 0x020"
definition LAPIC_ICR_LO :: u64 where "LAPIC_ICR_LO = 0x300"
definition LAPIC_ICR_HI :: u64 where "LAPIC_ICR_HI = 0x310"

text \<open>The controller is a device: reading or writing one of its registers may change its state.\<close>

record 'd device =
  dev_read :: "'d \<Rightarrow> u64 \<Rightarrow> u32 \<times> 'd"
  dev_write :: "'d \<Rightarrow> u64 \<Rightarrow> u32 \<Rightarrow> 'd"

definition lapic_read :: "'d device \<Rightarrow> u64 \<Rightarrow> u64 \<Rightarrow> 'd \<Rightarrow> (u32 \<times> 'd) panics" where
  "lapic_read dev base reg d = do { a \<leftarrow> add_chk base reg; Some (dev_read dev d a) }"

definition lapic_write :: "'d device \<Rightarrow> u64 \<Rightarrow> u64 \<Rightarrow> u32 \<Rightarrow> 'd \<Rightarrow> 'd panics" where
  "lapic_write dev base reg val d = do { a \<leftarrow> add_chk base reg; Some (dev_write dev d a val) }"

text \<open>The waiting loop of \<open>send_sipi\<close>, which occurs three times: at most \<open>n\<close> more rounds while the
  delivery status bit is set.\<close>

fun await_delivery :: "'d device \<Rightarrow> u64 \<Rightarrow> nat \<Rightarrow> 'd \<Rightarrow> 'd panics" where
  "await_delivery dev base n d = do {
     (v, d) \<leftarrow> lapic_read dev base LAPIC_ICR_LO d;
     if v AND 0x1000 \<noteq> 0 then (case n of 0 \<Rightarrow> Some d | Suc n \<Rightarrow> await_delivery dev base n d) else Some d }"

definition send_sipi :: "'d device \<Rightarrow> u64 \<Rightarrow> u8 \<Rightarrow> u8 \<Rightarrow> 'd \<Rightarrow> 'd panics" where
  "send_sipi dev base apic_id sipi_vec d =
     (let dest = push_bit 24 (ucast apic_id);
          sipi = \<lambda>d. do {
            d \<leftarrow> lapic_write dev base 0x280 0 d;
            d \<leftarrow> lapic_write dev base LAPIC_ICR_HI dest d;
            d \<leftarrow> lapic_write dev base LAPIC_ICR_LO (0x00004600 OR ucast sipi_vec) d;
            await_delivery dev base 1000 d }
      in do {
        d \<leftarrow> lapic_write dev base 0x280 0 d;
        d \<leftarrow> lapic_write dev base LAPIC_ICR_HI dest d;
        d \<leftarrow> lapic_write dev base LAPIC_ICR_LO 0x0000C500 d;
        d \<leftarrow> await_delivery dev base 1000 d;
        d \<leftarrow> lapic_write dev base LAPIC_ICR_HI dest d;
        d \<leftarrow> lapic_write dev base LAPIC_ICR_LO 0x00008500 d;
        d \<leftarrow> await_delivery dev base 1000 d;
        d \<leftarrow> sipi d;
        sipi d })"

section \<open>The start-up code\<close>

definition AP_TRAMPOLINE_BIN :: bytes where
  "AP_TRAMPOLINE_BIN = concat
     [[0xEB, 0x3E, 0x1F, 0x00, 0x08, 0x00, 0x05, 0x00],
      [0x00, 0x00, 0x00, 0x00, 0x00, 0x00, 0x00, 0x00],
      [0xFF, 0xFF, 0x00, 0x00, 0x00, 0x9A, 0xCF, 0x00],
      [0xFF, 0xFF, 0x00, 0x00, 0x00, 0x92, 0xCF, 0x00],
      [0xFF, 0xFF, 0x00, 0x00, 0x00, 0x9A, 0xAF, 0x00],
      [0x90, 0x90, 0x90, 0x90, 0x90, 0x90, 0x90, 0x90],
      [0x90, 0x90, 0x90, 0x90, 0x90, 0x90, 0x90, 0x90],
      [0x90, 0x90, 0x90, 0x90, 0x90, 0x90, 0x90, 0x90],
      [0x8C, 0xC8, 0x8E, 0xD8, 0x0F, 0x01, 0x16, 0x02],
      [0x00, 0x0F, 0x20, 0xC0, 0x0C, 0x01, 0x0F, 0x22],
      [0xC0, 0x66, 0xEA, 0x80, 0x00, 0x05, 0x00, 0x08],
      [0x00, 0x90, 0x90, 0x90, 0x90, 0x90, 0x90, 0x90],
      [0x90, 0x90, 0x90, 0x90, 0x90, 0x90, 0x90, 0x90],
      [0x90, 0x90, 0x90, 0x90, 0x90, 0x90, 0x90, 0x90],
      [0x90, 0x90, 0x90, 0x90, 0x90, 0x90, 0x90, 0x90],
      [0x90, 0x90, 0x90, 0x90, 0x90, 0x90, 0x90, 0x90],
      [0xB8, 0x10, 0x00, 0x00, 0x00, 0x8E, 0xD8, 0x8E],
      [0xC0, 0x8E, 0xD0, 0x0F, 0x20, 0xE0, 0x0F, 0xBA],
      [0xE8, 0x05, 0x0F, 0x22, 0xE0, 0xA1, 0xE8, 0x0F],
      [0x05, 0x00, 0x0F, 0x22, 0xD8, 0xB9, 0x80, 0x00],
      [0x00, 0xC0, 0x0F, 0x32, 0x0F, 0xBA, 0xE8, 0x08],
      [0x0F, 0x30, 0x0F, 0x20, 0xC0, 0x0D, 0x00, 0x00],
      [0x00, 0x80, 0x0F, 0x22, 0xC0, 0xEA, 0xC0, 0x00],
      [0x05, 0x00, 0x18, 0x00, 0x90, 0x90, 0x90, 0x90],
      [0x48, 0x8B, 0x24, 0x25, 0xF0, 0x0F, 0x05, 0x00],
      [0x48, 0x8B, 0x3C, 0x25, 0xE0, 0x0F, 0x05, 0x00],
      [0x48, 0x8B, 0x04, 0x25, 0xF8, 0x0F, 0x05, 0x00],
      [0xFF, 0xD0, 0xF4, 0xEB, 0xFD]]"

text \<open>\<open>install_trampoline\<close>; the first result is the outcome of its check of the copied code.\<close>

definition install_trampoline :: "u64 \<Rightarrow> u64 \<Rightarrow> u64 \<Rightarrow> u32 \<Rightarrow> u64 \<Rightarrow> mem \<Rightarrow> (bool \<times> mem) panics" where
  "install_trampoline ap_main_addr phys_offset cr3 core stack_top m = do {
     base \<leftarrow> add_chk phys_offset 0x50000;
     if \<not> length AP_TRAMPOLINE_BIN \<le> 0xFE0 then None
     else let m = store_bytes m base AP_TRAMPOLINE_BIN in do {
       a1 \<leftarrow> add_chk base 1;
       a2 \<leftarrow> add_chk base 2;
       a3 \<leftarrow> add_chk base 3;
       let verified = (m base = 0xFA \<and> m a1 = 0x31 \<and> m a2 = 0xC0 \<and> m a3 = 0x8E) in do {
       a \<leftarrow> add_chk base 0xFE0;
       let m = store64 m a (ucast core) in do {
       a \<leftarrow> add_chk base 0xFE8;
       let m = store64 m a cr3 in do {
       a \<leftarrow> add_chk base 0xFF0;
       let m = store64 m a stack_top in do {
       a \<leftarrow> add_chk base 0xFF8;
       Some (verified, store64 m a ap_main_addr) } } } } } }"

section \<open>Starting the processors\<close>

record 'd smp =
  smp_mem :: mem
  smp_dev :: 'd
  smp_locals :: "CoreLocals list"
  aps_online :: u32

definition set_online :: "nat \<Rightarrow> CoreLocals list \<Rightarrow> CoreLocals list" where
  "set_online i ls = ls[i := (ls ! i)\<lparr>is_online := True\<rparr>]"

text \<open>What \<open>ap_main\<close> does before it halts, run by the started processor.\<close>

definition ap_main :: "u64 \<Rightarrow> 'd smp \<Rightarrow> 'd smp" where
  "ap_main core s =
     (if unat core < MAX_CORES
      then s\<lparr>smp_locals := set_online (unat core) (smp_locals s), aps_online := aps_online s + 1\<rparr> else s)"

text \<open>The waiting loop of \<open>init\<close>. The processor runs on its own; \<open>arrival\<close> is the round in which it
  comes to \<open>ap_main\<close>, if it does.\<close>

function wait_online :: "nat option \<Rightarrow> nat \<Rightarrow> nat \<Rightarrow> 'd smp \<Rightarrow> 'd smp" where
  "wait_online arrival core ms s =
     (let s = (if arrival = Some ms then ap_main (word_of_nat core) s else s) in
      if is_online (smp_locals s ! core) then s
      else if 200 \<le> Suc ms then s
      else wait_online arrival core (Suc ms) s)"
  by pat_completeness auto
termination
  by (relation "measure (\<lambda>(a, c, ms, s). 200 - ms)") auto

declare wait_online.simps [simp del]

text \<open>What is fixed by the linker and by the machine: the address of \<open>ap_main\<close>, the per-core stacks
  of 16 KiB, and the behaviour of the processors.\<close>

record smp_env =
  ap_main_addr :: u64
  ap_stack :: "nat \<Rightarrow> u64"
  arrivals :: "nat \<Rightarrow> nat option"

definition start_ap :: "smp_env \<Rightarrow> 'd device \<Rightarrow> u64 \<Rightarrow> u64 \<Rightarrow> u64 \<Rightarrow> u8 \<Rightarrow> 'd smp \<Rightarrow> 'd smp panics" where
  "start_ap env dev phys_offset cr3 lapic_virt apic_id s =
     (let core = unat apic_id in
      if MAX_CORES \<le> core then Some s
      else let stack_top = ap_stack env core + 16384 in do {
        magic \<leftarrow> add_chk phys_offset 0x0FFE;
        let m = (smp_mem s)(magic := 0) in do {
        magic \<leftarrow> add_chk phys_offset 0x50FFE;
        let m = m(magic := 0) in do {
        (_, m) \<leftarrow> install_trampoline (ap_main_addr env) phys_offset cr3 (word_of_nat core) stack_top m;
        d \<leftarrow> send_sipi dev lapic_virt apic_id 0x50 (smp_dev s);
        Some (wait_online (arrivals env core) core 0 (s\<lparr>smp_mem := m, smp_dev := d\<rparr>)) } } })"

fun start_aps :: "smp_env \<Rightarrow> 'd device \<Rightarrow> u64 \<Rightarrow> u64 \<Rightarrow> u64 \<Rightarrow> u8 list \<Rightarrow> 'd smp \<Rightarrow> 'd smp panics" where
  "start_aps env dev phys_offset cr3 lapic_virt [] s = Some s"
| "start_aps env dev phys_offset cr3 lapic_virt (i # is) s = do {
     s \<leftarrow> start_ap env dev phys_offset cr3 lapic_virt i s;
     start_aps env dev phys_offset cr3 lapic_virt is s }"

text \<open>\<open>init\<close>; the first result is the number it reports.\<close>

definition smp_init :: "smp_env \<Rightarrow> 'd device \<Rightarrow> u64 \<Rightarrow> u64 \<Rightarrow> u64 option \<Rightarrow> 'd smp \<Rightarrow> (u32 \<times> 'd smp) panics" where
  "smp_init env dev phys_offset cr3 rsdp_addr s =
     (let s = s\<lparr>smp_locals := set_online 0 (smp_locals s)\<rparr> in do {
        apic_ids \<leftarrow> parse_madt (smp_mem s) phys_offset rsdp_addr;
        if length apic_ids \<le> 1 then Some (1, s)
        else do {
          lapic_virt \<leftarrow> add_chk phys_offset LAPIC_PHYS;
          (raw, d) \<leftarrow> lapic_read dev lapic_virt LAPIC_ID (smp_dev s);
          let bsp_id = ucast (drop_bit 24 raw) in do {
          s \<leftarrow> start_aps env dev phys_offset cr3 lapic_virt (filter (\<lambda>i. i \<noteq> bsp_id) apic_ids) (s\<lparr>smp_dev := d\<rparr>);
          total \<leftarrow> add_chk 1 (aps_online s);
          Some (total, s) } } })"

text \<open>\<open>print_summary\<close>: the cores it lists.\<close>

definition online_cores :: "CoreLocals list \<Rightarrow> nat list" where
  "online_cores ls = filter (\<lambda>i. is_online (ls ! i)) [0..<MAX_CORES]"

section \<open>The processors are found\<close>

text \<open>An entry of the MADT is its type and its body; the processor it announces if it is an enabled
  local interrupt controller.\<close>

type_synonym madt_entry = "u8 \<times> bytes"

fun entry_bytes :: "madt_entry \<Rightarrow> bytes" where
  "entry_bytes (t, body) = t # word_of_nat (length body + 2) # body"

lemma entry_bytes_not_Nil [simp]: "entry_bytes x \<noteq> []"
  by (cases x) simp

fun entry_ok :: "madt_entry \<Rightarrow> bool" where
  "entry_ok (t, body) \<longleftrightarrow> length body + 2 < 256 \<and> (t = 0 \<longrightarrow> 6 \<le> length body)"

fun entry_cpu :: "madt_entry \<Rightarrow> u8 list" where
  "entry_cpu (t, body) = (if t = 0 \<and> (from_le_bytes (slice 2 6 body) :: u32) AND 1 \<noteq> 0 then [body ! 1] else [])"

definition madt_bytes :: "bytes \<Rightarrow> madt_entry list \<Rightarrow> bytes" where
  "madt_bytes rest es =
     (let body = concat (map entry_bytes es) in ascii ''APIC'' @ to_le_bytes 4 (word_of_nat (44 + length body) :: u32) @ rest @ body)"

lemma add_chk_room: "unat a + k < 2 ^ 64 \<Longrightarrow> add_chk (a :: u64) (word_of_nat k) = Some (a + word_of_nat k)"
  by (simp add: add_chk_def unat_of_nat)

lemma unat_room: "unat a + k < 2 ^ 64 \<Longrightarrow> unat (a + word_of_nat k :: u64) = unat a + k"
  by (simp add: unat_word_ariths(1) unat_of_nat)

lemma ucast_byte: "n < 256 \<Longrightarrow> ucast (word_of_nat n :: u8) = (word_of_nat n :: u64)"
  by (simp add: word_unat_eq_iff unsigned_ucast_eq take_bit_eq_mod unat_of_nat)

lemma small_word_not_0: "0 < n \<Longrightarrow> n < 2 ^ 64 \<Longrightarrow> (word_of_nat n :: u64) \<noteq> 0"
  by (simp add: word_unat_eq_iff unat_of_nat)

lemma entry_step:
  assumes "entry_ok (t, body)" "load_bytes m (madt_virt + off) (length body + 2) = entry_bytes (t, body)"
    and "unat madt_virt + unat off + 8 < 2 ^ 64" "unat off + 2 < unat len" "unat off + 256 < 2 ^ 64"
  shows "madt_entries m madt_virt len off ids =
    madt_entries m madt_virt len (off + word_of_nat (length body + 2)) (ids @ entry_cpu (t, body))"
proof -
  define e where "e = madt_virt + off"
  have ue: "unat e = unat madt_virt + unat off" using assms(3) by (simp add: e_def unat_word_ariths(1))
  have e: "add_chk madt_virt off = Some e" using assms(3) by (simp add: add_chk_def e_def)
  have at: "add_chk e 1 = Some (e + 1)" "add_chk e 3 = Some (e + 3)" "add_chk e 4 = Some (e + 4)"
    using add_chk_room[of e 1] add_chk_room[of e 3] add_chk_room[of e 4] ue assms(3) by simp_all
  have lim: "add_chk off 2 = Some (off + 2)" "off + 2 < len"
    using add_chk_room[of off 2] unat_room[of off 2] assms(4,5) by (simp_all add: word_less_nat_alt)
  have byte: "m (e + word_of_nat i) = entry_bytes (t, body) ! i" if "i < length body + 2" for i
    using arg_cong[OF assms(2), of "\<lambda>l. l ! i"] that by (simp add: e_def)
  have len: "ucast (word_of_nat (length body + 2) :: u8) = (word_of_nat (length body + 2) :: u64)"
    by (rule ucast_byte) (use assms(1) in simp)
  have nz: "(word_of_nat (length body + 2) :: u64) \<noteq> 0"
    by (rule small_word_not_0) (use assms(1) in simp_all)
  have off': "add_chk off (word_of_nat (length body + 2)) = Some (off + word_of_nat (length body + 2))"
    using add_chk_room[of off "length body + 2"] assms(1,5) by simp
  have cpu: "(if t = 0 then Some (if read32 m (e + 4) AND 1 \<noteq> 0 then ids @ [m (e + 3)] else ids) else Some ids) =
      Some (ids @ entry_cpu (t, body))"
  proof (cases "t = 0")
    case True
    then have "6 \<le> length body" using assms(1) by simp
    moreover from this have "load_bytes m (e + 4) 4 = slice 2 6 body"
      using load_bytes_slice[of 4 4 "length body + 2" m e] assms(2) by (simp add: e_def slice_def)
    ultimately show ?thesis using byte[of 3] True by (simp add: read32_def)
  qed simp
  have b: "m e = t" "m (e + 1) = word_of_nat (length body + 2)" using byte[of 0] byte[of 1] by simp_all
  show ?thesis
    by (subst madt_entries.simps)
      (simp only: lim e at b len nz off' cpu Let_def bind.bind_lunit if_True if_False simp_thms)
qed

lemma madt_entries_eq:
  assumes "list_all entry_ok es" "load_bytes m (madt_virt + off) (length (concat (map entry_bytes es))) = concat (map entry_bytes es)"
    and "unat len = unat off + length (concat (map entry_bytes es))" "unat len < 2 ^ 32" "unat madt_virt + unat len + 8 < 2 ^ 64"
  shows "madt_entries m madt_virt len off ids = Some (ids @ concat (map entry_cpu es))"
  using assms
proof (induction es arbitrary: off ids)
  case Nil
  then have "\<not> off + 2 < len" "add_chk off 2 = Some (off + 2)"
    using add_chk_room[of off 2] unat_room[of off 2] by (simp_all add: word_less_nat_alt)
  then show ?case by (simp add: madt_entries.simps[of _ _ len])
next
  case (Cons x es)
  obtain t body where x: "x = (t, body)" by (cases x)
  let ?n = "length body + 2" and ?r = "concat (map entry_bytes es)"
  have len: "unat len = unat off + ?n + length ?r" using Cons.prems(3) by (simp add: x)
  have "load_bytes m (madt_virt + off) ?n @ load_bytes m (madt_virt + off + word_of_nat ?n) (length ?r) = entry_bytes x @ ?r"
    using Cons.prems(2) load_bytes_split[of m "madt_virt + off" ?n "length ?r"] by (simp add: x add.assoc)
  moreover have "length (load_bytes m (madt_virt + off) ?n) = length (entry_bytes x)" by (simp add: x)
  ultimately have mem: "load_bytes m (madt_virt + off) ?n = entry_bytes x"
      "load_bytes m (madt_virt + (off + word_of_nat ?n)) (length ?r) = ?r"
    unfolding add.assoc[symmetric] by (auto dest: append_eq_append_conv[THEN iffD1, rotated])
  have u: "unat (off + word_of_nat ?n) = unat off + ?n" by (rule unat_room) (use len Cons.prems(4) in simp)
  show ?case
  proof (cases "unat off + 2 < unat len")
    case True
    have "madt_entries m madt_virt len off ids = madt_entries m madt_virt len (off + word_of_nat ?n) (ids @ entry_cpu x)"
      unfolding x by (rule entry_step) (use Cons.prems mem(1) True len in \<open>simp_all add: x\<close>)
    also have "\<dots> = Some ((ids @ entry_cpu x) @ concat (map entry_cpu es))"
      by (rule Cons.IH[OF _ mem(2)]) (use Cons.prems(1,4,5) u len in simp_all)
    finally show ?thesis by simp
  next
    case False
    then have "body = []" "?r = []" using len by simp_all
    then have "t \<noteq> 0" "es = []" using Cons.prems(1) by (simp_all add: x) (cases es; force)
    moreover have "\<not> off + 2 < len" "add_chk off 2 = Some (off + 2)"
      using False add_chk_room[of off 2] unat_room[of off 2] Cons.prems(3,4) by (simp_all add: word_less_nat_alt)
    ultimately show ?thesis by (simp add: madt_entries.simps[of _ _ len] x)
  qed
qed

text \<open>The tables as the firmware leaves them: the root table at the address in the root pointer lists
  the tables, the first MADT is among the first 32, and it has the given entries.\<close>

definition acpi_at :: "mem \<Rightarrow> u64 \<Rightarrow> u64 \<Rightarrow> u32 list \<Rightarrow> u32 \<Rightarrow> u32 list \<Rightarrow> bytes \<Rightarrow> madt_entry list \<Rightarrow> bool" where
  "acpi_at m off rsdp pre madt post rest es \<longleftrightarrow>
     (let rsdt = off + ucast (read32 m (off + rsdp + 16)); tables = pre @ madt # post in
        unat (read32 m (rsdt + 4)) = 36 + 4 * length tables \<and>
        (\<forall>i < length tables. read32 m (rsdt + 36 + word_of_nat i * 4) = tables ! i)) \<and>
     length pre < 32 \<and> (\<forall>t \<in> set pre. t = 0 \<or> load_bytes m (off + ucast t) 4 \<noteq> ascii ''APIC'') \<and>
     madt \<noteq> 0 \<and> length rest = 36 \<and> list_all entry_ok es \<and> length (madt_bytes rest es) < 2 ^ 32 \<and>
     load_bytes m (off + ucast madt) (length (madt_bytes rest es)) = madt_bytes rest es"

lemma unat_ucast_32: "unat (ucast (w :: u32) :: u64) = unat w" "unat w < 2 ^ 32"
proof -
  show l: "unat w < 2 ^ 32" using unsigned_less[of w, where ?'a = nat] by simp
  then show "unat (ucast w :: u64) = unat w" by (simp add: unsigned_ucast_eq take_bit_eq_mod)
qed

lemma ucast_32_eq_0: "(ucast (w :: u32) :: u64) = 0 \<longleftrightarrow> w = 0"
  using unat_ucast_32(1)[of w] by (simp add: word_unat_eq_iff)

lemma find_madt_step:
  assumes "unat off + 2 ^ 34 < 2 ^ 64" "unat rsdt + 2 ^ 33 < 2 ^ 64" "i < 32" "read32 m (rsdt + 36 + word_of_nat i * 4) = t"
  shows "find_madt m off rsdt (i # is) =
    (if t \<noteq> 0 \<and> load_bytes m (off + ucast t) 4 = ascii ''APIC'' then Some (Some (ucast t)) else find_madt m off rsdt is)"
proof -
  have "unat (rsdt + 36) = unat rsdt + 36" using unat_room[of rsdt 36] assms(2) by simp
  moreover have "unat (word_of_nat i * 4 :: u64) = i * 4" using assms(3) by (simp add: unat_word_ariths(2) unat_of_nat)
  ultimately have a: "add_chk rsdt 36 = Some (rsdt + 36)" "add_chk (rsdt + 36) (word_of_nat i * 4) = Some (rsdt + 36 + word_of_nat i * 4)"
    using assms(2,3) by (simp_all add: add_chk_def)
  have v: "add_chk off (ucast t) = Some (off + ucast t)"
    using assms(1) unat_ucast_32[of t] by (simp add: add_chk_def)
  show ?thesis by (simp add: a v assms(4) Let_def ucast_32_eq_0)
qed

lemma find_madt_eq:
  assumes "unat off + 2 ^ 34 < 2 ^ 64" "unat rsdt + 2 ^ 33 < 2 ^ 64"
    and "madt \<noteq> 0" "load_bytes m (off + ucast madt) 4 = ascii ''APIC''" "n \<le> 32"
  shows "\<forall>i < Suc (length pre). read32 m (rsdt + 36 + word_of_nat (k + i) * 4) = (pre @ [madt]) ! i \<Longrightarrow>
    \<forall>t \<in> set pre. t = 0 \<or> load_bytes m (off + ucast t) 4 \<noteq> ascii ''APIC'' \<Longrightarrow> k + length pre < n \<Longrightarrow>
    find_madt m off rsdt [k..<n] = Some (Some (ucast madt))"
proof (induction pre arbitrary: k)
  case Nil
  then have "read32 m (rsdt + 36 + word_of_nat k * 4) = madt" "[k..<n] = k # [Suc k..<n]" "k < 32"
    using assms(5) by (simp_all add: upt_conv_Cons)
  then show ?case using find_madt_step[OF assms(1,2)] assms(3,4) by simp
next
  case (Cons t pre)
  have t: "read32 m (rsdt + 36 + word_of_nat k * 4) = t" using Cons.prems(1)[rule_format, of 0] by simp
  have "\<forall>i < Suc (length pre). read32 m (rsdt + 36 + word_of_nat (Suc k + i) * 4) = (pre @ [madt]) ! i"
  proof (intro allI impI)
    fix i assume "i < Suc (length pre)"
    then show "read32 m (rsdt + 36 + word_of_nat (Suc k + i) * 4) = (pre @ [madt]) ! i"
      using Cons.prems(1)[rule_format, of "Suc i"] by simp
  qed
  then have "find_madt m off rsdt [Suc k..<n] = Some (Some (ucast madt))" using Cons.IH[of "Suc k"] Cons.prems(2,3) by simp
  moreover have "[k..<n] = k # [Suc k..<n]" "k < 32" using Cons.prems(3) assms(5) by (simp_all add: upt_conv_Cons)
  ultimately show ?case using find_madt_step[OF assms(1,2) _ t] Cons.prems(2) by auto
qed

lemma parse_madt_eq:
  assumes "acpi_at m off rsdp pre madt post rest es" "unat off + unat rsdp + 2 ^ 34 < 2 ^ 64"
  shows "parse_madt m off (Some rsdp) = Some (concat (map entry_cpu es))"
proof -
  let ?rsdt = "off + ucast (read32 m (off + rsdp + 16)) :: u64" and ?madt = "off + ucast madt :: u64"
  let ?len = "44 + length (concat (map entry_bytes es))"
  have ar: "unat off + 2 ^ 34 < 2 ^ 64" "unat (off + rsdp) = unat off + unat rsdp" using assms(2) by (simp_all add: unat_word_ariths(1))
  have v: "unat (off + ucast w) = unat off + unat w" "unat w < 2 ^ 32" for w :: u32
    using ar(1) unat_ucast_32[of w] by (simp_all add: unat_word_ariths(1))
  have chk: "add_chk off rsdp = Some (off + rsdp)" "add_chk (off + rsdp) 16 = Some (off + rsdp + 16)"
      "add_chk off (ucast w) = Some (off + ucast w)" "add_chk (off + ucast w) 4 = Some (off + ucast w + 4)" for w :: u32
    using assms(2) v[of w] unat_ucast_32(1)[of w] ar by (simp_all add: add_chk_def)
  have tables: "unat (read32 m (?rsdt + 4)) = 36 + 4 * length (pre @ madt # post)"
      "\<forall>i < length (pre @ madt # post). read32 m (?rsdt + 36 + word_of_nat i * 4) = (pre @ madt # post) ! i"
      "length pre < 32" "\<forall>t \<in> set pre. t = 0 \<or> load_bytes m (off + ucast t) 4 \<noteq> ascii ''APIC''" "madt \<noteq> 0"
      "list_all entry_ok es" "length rest = 36"
    using assms(1) by (simp_all add: acpi_at_def Let_def)
  have "length (madt_bytes rest es) = ?len" using tables(7) by (simp add: madt_bytes_def Let_def)
  then have raw: "load_bytes m ?madt ?len = madt_bytes rest es" and short: "?len < 2 ^ 32"
    using assms(1) by (simp_all add: acpi_at_def)
  have sig: "load_bytes m ?madt 4 = ascii ''APIC''"
    using load_bytes_slice[of 0 4 ?len m ?madt] raw by (simp add: madt_bytes_def slice_append Let_def slice_def)
  have len: "read32 m (?madt + 4) = word_of_nat ?len"
    using load_bytes_slice[of 4 4 ?len m ?madt] raw
    by (simp add: read32_def madt_bytes_def slice_append Let_def from_le_to_le slice_def del: of_nat_add)
  have body: "load_bytes m (?madt + 44) (length (concat (map entry_bytes es))) = concat (map entry_bytes es)"
    using load_bytes_slice[of 44 "length (concat (map entry_bytes es))" ?len m ?madt] raw tables(7)
    by (simp add: madt_bytes_def slice_append Let_def slice_def)
  have "find_madt m off ?rsdt [0..<min (length (pre @ madt # post)) 32] = Some (Some (ucast madt))"
  proof (rule find_madt_eq[OF ar(1) _ tables(5) sig])
    show "\<forall>i < Suc (length pre). read32 m (?rsdt + 36 + word_of_nat (0 + i) * 4) = (pre @ [madt]) ! i"
    proof (intro allI impI)
      fix i assume "i < Suc (length pre)"
      then show "read32 m (?rsdt + 36 + word_of_nat (0 + i) * 4) = (pre @ [madt]) ! i"
        using tables(2)[rule_format, of i] by (simp add: nth_append)
    qed
  qed (use tables(3,4) v[of "read32 m (off + rsdp + 16)"] ar(1) in simp_all)
  moreover have "(unat (read32 m (?rsdt + 4)) - 36) div 4 = length (pre @ madt # post)" using tables(1) by simp
  moreover have "madt_entries m ?madt (ucast (word_of_nat ?len :: u32)) 44 [] = Some ([] @ concat (map entry_cpu es))"
    by (rule madt_entries_eq[OF tables(6) body])
      (use short unat_ucast_32(1)[of "word_of_nat ?len"] v[of madt] ar(1) in \<open>simp_all add: unat_of_nat del: of_nat_add\<close>)
  ultimately show ?thesis
    by (simp add: parse_madt_def chk Let_def len del: of_nat_add length_append length_Cons upt_Suc)
qed

text \<open>The processors are found: from well-formed tables \<open>parse_madt\<close> returns, without panic and whatever
  else is in memory, the identifiers of exactly the enabled processors, in the order of the table.\<close>

theorem processors_found:
  assumes "acpi_at m off rsdp pre madt post rest es" "unat off + unat rsdp + 2 ^ 34 < 2 ^ 64"
  shows "parse_madt m off (Some rsdp) = Some (concat (map entry_cpu es))"
  using parse_madt_eq[OF assms] .

text \<open>A machine with two enabled processors, one disabled and one other entry.\<close>

definition demo_cpus :: "madt_entry list" where
  "demo_cpus = [(0, [0, 0, 1, 0, 0, 0]), (1, [0, 0, 0, 0]), (0, [2, 2, 0, 0, 0, 0]), (0, [1, 1, 1, 0, 0, 0])]"

definition demo_tables :: mem where
  "demo_tables = store_bytes (store_bytes (store_bytes (\<lambda>_. 0) 0x1010 (to_le_bytes 4 (0x2000 :: u32)))
     0x2000 (replicate 4 0 @ to_le_bytes 4 (40 :: u32) @ replicate 28 0 @ to_le_bytes 4 (0x4000 :: u32)))
     0x4000 (madt_bytes (replicate 36 0) demo_cpus)"

lemma demo_acpi: "acpi_at demo_tables 0 0x1000 [] 0x4000 [] (replicate 36 0) demo_cpus"
proof -
  let ?rsdt = "replicate 4 0 @ to_le_bytes 4 (40 :: u32) @ replicate 28 0 @ to_le_bytes 4 (0x4000 :: u32)"
  let ?madt = "madt_bytes (replicate 36 0) demo_cpus"
  have len: "length ?madt = 74" "length ?rsdt = 40" by (simp_all add: madt_bytes_def demo_cpus_def)
  have madt: "load_bytes demo_tables 0x4000 74 = ?madt"
    unfolding demo_tables_def by (rule load_store_same) (simp_all add: len)
  have "load_bytes demo_tables 0x2000 40 = ?rsdt"
    unfolding demo_tables_def by (subst load_store_apart) (simp_all add: len apart_def load_store_same)
  then have rsdt: "read32 demo_tables 0x2004 = 40" "read32 demo_tables 0x2024 = 0x4000"
    using load_bytes_slice[of 4 4 40 demo_tables "0x2000"] load_bytes_slice[of 36 4 40 demo_tables "0x2000"]
    by (simp_all add: read32_def slice_append slice_def from_le_to_le)
  have "load_bytes demo_tables 0x1010 4 = to_le_bytes 4 (0x2000 :: u32)"
    unfolding demo_tables_def by (subst load_store_apart, simp add: len apart_def, subst load_store_apart) (simp_all add: len apart_def load_store_same)
  then have "read32 demo_tables 0x1010 = 0x2000" by (simp add: read32_def from_le_to_le)
  then show ?thesis
    using madt rsdt by (simp add: acpi_at_def len) (simp add: demo_cpus_def)
qed

theorem processors_found_witness: "parse_madt demo_tables 0 (Some 0x1000) = Some [0, 1]"
  using processors_found[OF demo_acpi] by (simp add: demo_cpus_def slice_def from_le_bytes_def)

section \<open>The start-up page\<close>

definition install_at :: "u64 \<Rightarrow> u64 \<Rightarrow> u64 \<Rightarrow> u32 \<Rightarrow> u64 \<Rightarrow> mem \<Rightarrow> mem" where
  "install_at fn base cr3 core stack_top m =
     store64 (store64 (store64 (store64 (store_bytes m base AP_TRAMPOLINE_BIN) (base + 0xFE0) (ucast core)) (base + 0xFE8) cr3)
       (base + 0xFF0) stack_top) (base + 0xFF8) fn"

lemma length_trampoline: "length AP_TRAMPOLINE_BIN = 221"
  by (simp add: AP_TRAMPOLINE_BIN_def)

lemma install_eq:
  assumes "unat off + 0x51000 < 2 ^ 64"
  shows "install_trampoline fn off cr3 core stack_top m = Some (False, install_at fn (off + 0x50000) cr3 core stack_top m)"
proof -
  have b: "unat (off + 0x50000) = unat off + 0x50000" using unat_room[of off "0x50000"] assms by simp
  have "store_bytes m (off + 0x50000) AP_TRAMPOLINE_BIN (off + 0x50000) = 0xEB"
    using store_bytes_in[of 0 AP_TRAMPOLINE_BIN m "off + 0x50000"] by (simp add: AP_TRAMPOLINE_BIN_def)
  then show ?thesis
    using assms b by (simp add: install_trampoline_def add_chk_def length_trampoline Let_def install_at_def)
qed

end
