(* ===== verification/Smp_Start.thy ===== *)
theory Smp_Start
  imports Smp
begin

unbundle bit_operations_syntax

text \<open>
  The start-up loop of \<open>smp::init\<close>: it always ends, and the processors it counts and marks are
  exactly those that came to \<open>ap_main\<close> in time.
\<close>

section \<open>Commands to the interrupt controller return\<close>

lemma lapic_room:
  assumes "unat base + 0x400 < 2 ^ 64" "unat reg < 0x400"
  shows "lapic_write dev base reg v d = Some (dev_write dev d (base + reg) v)"
    "lapic_read dev base reg d = Some (dev_read dev d (base + reg))"
  using assms by (simp_all add: lapic_write_def lapic_read_def add_chk_def)

lemma await_delivery_returns:
  assumes "unat base + 0x400 < 2 ^ 64"
  shows "\<exists>d'. await_delivery dev base n d = Some d'"
proof (induction n arbitrary: d)
  case 0
  show ?case using lapic_room(2)[OF assms, of LAPIC_ICR_LO dev d] by (auto simp: LAPIC_ICR_LO_def split: prod.split)
next
  case (Suc n)
  show ?case
    using Suc lapic_room(2)[OF assms, of LAPIC_ICR_LO dev d] by (auto simp: LAPIC_ICR_LO_def split: prod.split)
qed

declare await_delivery.simps [simp del]

lemma send_sipi_returns:
  assumes "unat base + 0x400 < 2 ^ 64"
  shows "\<exists>d'. send_sipi dev base apic_id vec d = Some d'"
proof -
  have w: "\<exists>d'. lapic_write dev base LAPIC_ICR_HI v d = Some d'" "\<exists>d'. lapic_write dev base LAPIC_ICR_LO v d = Some d'"
    "\<exists>d'. lapic_write dev base 0x280 v d = Some d'" for v d
    using lapic_room(1)[OF assms, of _ dev v d] by (simp_all add: LAPIC_ICR_HI_def LAPIC_ICR_LO_def)
  have bind: "\<exists>d'. Option.bind x f = Some d'" if "\<exists>d'. x = Some d'" "\<And>d. \<exists>d'. f d = Some d'"
    for x :: "'a option" and f :: "'a \<Rightarrow> 'a option"
    using that by auto
  show ?thesis
    unfolding send_sipi_def Let_def by (intro bind w await_delivery_returns[OF assms])
qed

section \<open>Waiting for a processor\<close>

definition arrives :: "nat option \<Rightarrow> bool" where
  "arrives a = (case a of Some k \<Rightarrow> k < 200 | None \<Rightarrow> False)"

lemma is_online_set: "i < length ls \<Longrightarrow> is_online (set_online i ls ! j) \<longleftrightarrow> i = j \<or> is_online (ls ! j)"
  by (cases "i = j") (simp_all add: set_online_def)

lemma length_set_online [simp]: "length (set_online i ls) = length ls"
  by (simp add: set_online_def)

lemma wait_online_from:
  assumes "core < 8" "length (smp_locals s) = 8" "\<not> is_online (smp_locals s ! core)" "ms < 200"
  shows "wait_online a core ms s =
    (case a of Some k \<Rightarrow> if ms \<le> k \<and> k < 200 then ap_main (word_of_nat core) s else s | None \<Rightarrow> s)"
  using assms
proof (induction "200 - ms" arbitrary: ms rule: less_induct)
  case less
  have c: "unat (word_of_nat core :: u64) = core" using less.prems(1) by (simp add: unat_of_nat)
  show ?case
  proof (cases "a = Some ms")
    case True
    have "is_online (smp_locals (ap_main (word_of_nat core) s) ! core)"
      using less.prems c by (simp add: ap_main_def MAX_CORES_def is_online_set)
    then show ?thesis using True less.prems(4) by (subst wait_online.simps) (simp add: Let_def)
  next
    case False
    then have step: "wait_online a core ms s = (if 200 \<le> Suc ms then s else wait_online a core (Suc ms) s)"
      using less.prems(3) by (subst wait_online.simps) (simp add: Let_def)
    show ?thesis
    proof (cases "200 \<le> Suc ms")
      case True
      then show ?thesis using step False by (auto split: option.split)
    next
      case not_last: False
      then have "wait_online a core (Suc ms) s =
          (case a of Some k \<Rightarrow> if Suc ms \<le> k \<and> k < 200 then ap_main (word_of_nat core) s else s | None \<Rightarrow> s)"
        using less.hyps[of "Suc ms"] less.prems by simp
      then show ?thesis using step False not_last by (auto split: option.split)
    qed
  qed
qed

lemma wait_online_eq:
  assumes "core < 8" "length (smp_locals s) = 8" "\<not> is_online (smp_locals s ! core)"
  shows "wait_online a core 0 s = (if arrives a then ap_main (word_of_nat core) s else s)"
  using wait_online_from[OF assms, of 0 a] by (simp add: arrives_def split: option.split)

section \<open>Starting one and all\<close>

text \<open>The memory in which a processor is started.\<close>

definition start_mem :: "smp_env \<Rightarrow> u64 \<Rightarrow> u64 \<Rightarrow> nat \<Rightarrow> mem \<Rightarrow> mem" where
  "start_mem env off cr3 core m =
     install_at (ap_main_addr env) (off + 0x50000) cr3 (word_of_nat core) (ap_stack env core + 16384)
       (m(off + 0x0FFE := 0, off + 0x50FFE := 0))"

lemma start_ap_eq:
  assumes "unat off + 0x51000 < 2 ^ 64" "unat lapic + 0x400 < 2 ^ 64" "unat i < 8" "length (smp_locals s) = 8"
    and "\<not> is_online (smp_locals s ! unat i)"
  shows "\<exists>d. start_ap env dev off cr3 lapic i s =
    Some (let s' = s\<lparr>smp_mem := start_mem env off cr3 (unat i) (smp_mem s), smp_dev := d\<rparr>
          in if arrives (arrivals env (unat i)) then ap_main (word_of_nat (unat i)) s' else s')"
proof -
  obtain d where d: "send_sipi dev lapic i 0x50 (smp_dev s) = Some d" using send_sipi_returns[OF assms(2), of dev i "0x50" "smp_dev s"] by blast
  have chk: "add_chk off 0x0FFE = Some (off + 0x0FFE)" "add_chk off 0x50FFE = Some (off + 0x50FFE)"
    using assms(1) by (simp_all add: add_chk_def)
  let ?s = "s\<lparr>smp_mem := start_mem env off cr3 (unat i) (smp_mem s), smp_dev := d\<rparr>"
  have "start_ap env dev off cr3 lapic i s = Some (wait_online (arrivals env (unat i)) (unat i) 0 ?s)"
    using assms(3) by (simp add: start_ap_def MAX_CORES_def chk install_eq[OF assms(1)] d start_mem_def Let_def)
  moreover have "wait_online (arrivals env (unat i)) (unat i) 0 ?s =
      (if arrives (arrivals env (unat i)) then ap_main (word_of_nat (unat i)) ?s else ?s)"
    by (rule wait_online_eq) (use assms(3-5) in simp_all)
  ultimately show ?thesis by (intro exI[of _ d]) (simp add: Let_def)
qed

definition came_up :: "smp_env \<Rightarrow> u8 list \<Rightarrow> u8 list" where
  "came_up env ids = filter (\<lambda>i. unat i < 8 \<and> arrives (arrivals env (unat i))) ids"

lemma start_aps_eq:
  assumes "unat off + 0x51000 < 2 ^ 64" "unat lapic + 0x400 < 2 ^ 64"
  shows "distinct ids \<Longrightarrow> length (smp_locals s) = 8 \<Longrightarrow>
    \<forall>i \<in> set ids. unat i < 8 \<longrightarrow> \<not> is_online (smp_locals s ! unat i) \<Longrightarrow> 
    \<exists>s'. start_aps env dev off cr3 lapic ids s = Some s' \<and> length (smp_locals s') = 8 \<and>
      aps_online s' = aps_online s + word_of_nat (length (came_up env ids)) \<and>
      (\<forall>j < 8. is_online (smp_locals s' ! j) \<longleftrightarrow> is_online (smp_locals s ! j) \<or> j \<in> unat ` set (came_up env ids))"
proof (induction ids arbitrary: s)
  case (Cons i ids)
  show ?case
  proof (cases "unat i < 8")
    case False
    then show ?thesis using Cons by (simp add: start_ap_def MAX_CORES_def came_up_def)
  next
    case True
    let ?up = "arrives (arrivals env (unat i))"
    obtain d where d: "start_ap env dev off cr3 lapic i s =
        Some (let s' = s\<lparr>smp_mem := start_mem env off cr3 (unat i) (smp_mem s), smp_dev := d\<rparr>
              in if ?up then ap_main (word_of_nat (unat i)) s' else s')"
      using start_ap_eq[OF assms True Cons.prems(2), of env dev cr3] Cons.prems(3) True by auto
    have u: "unat (ucast i :: u64) = unat i" using True by (simp add: unsigned_ucast_eq take_bit_eq_mod)
    define s1 where "s1 = (let s' = s\<lparr>smp_mem := start_mem env off cr3 (unat i) (smp_mem s), smp_dev := d\<rparr>
              in if ?up then ap_main (word_of_nat (unat i)) s' else s')"
    have s1: "length (smp_locals s1) = 8" "aps_online s1 = aps_online s + (if ?up then 1 else 0)"
        "\<And>j. is_online (smp_locals s1 ! j) \<longleftrightarrow> is_online (smp_locals s ! j) \<or> ?up \<and> j = unat i"
      using Cons.prems(2) True u by (auto simp: s1_def Let_def ap_main_def MAX_CORES_def is_online_set)
    have "\<forall>k \<in> set ids. unat k < 8 \<longrightarrow> \<not> is_online (smp_locals s1 ! unat k)"
    proof (intro ballI impI)
      fix k assume k: "k \<in> set ids" "unat k < 8"
      then have "unat k \<noteq> unat i" using Cons.prems(1) by (auto simp flip: word_unat_eq_iff)
      with k show "\<not> is_online (smp_locals s1 ! unat k)" using Cons.prems(3) s1(3) by simp
    qed
    with Cons.IH[of s1] Cons.prems(1) s1(1) obtain s' where s': "start_aps env dev off cr3 lapic ids s1 = Some s'"
        "length (smp_locals s') = 8" "aps_online s' = aps_online s1 + word_of_nat (length (came_up env ids))"
        "\<forall>j < 8. is_online (smp_locals s' ! j) \<longleftrightarrow> is_online (smp_locals s1 ! j) \<or> j \<in> unat ` set (came_up env ids)"
      by auto
    have "start_aps env dev off cr3 lapic (i # ids) s = Some s'" using d s'(1) by (simp add: s1_def)
    then show ?thesis using s'(2-4) s1(2,3) True by (auto simp: came_up_def)
  qed
qed (simp add: came_up_def)

section \<open>The whole start-up\<close>

text \<open>Before the start-up: no processor is marked and none counted.\<close>

definition smp_at_boot :: "mem \<Rightarrow> 'd \<Rightarrow> 'd smp" where
  "smp_at_boot m d = \<lparr>smp_mem = m, smp_dev = d, smp_locals = CORE_LOCALS, aps_online = 0\<rparr>"

lemma core_locals: "length CORE_LOCALS = 8" "j < 8 \<Longrightarrow> \<not> is_online (CORE_LOCALS ! j)"
proof -
  show "length CORE_LOCALS = 8" by (simp add: CORE_LOCALS_def)
  have "list_all (\<lambda>c. \<not> is_online c) CORE_LOCALS" by (simp add: CORE_LOCALS_def CoreLocals_new_def)
  then show "j < 8 \<Longrightarrow> \<not> is_online (CORE_LOCALS ! j)"
    using \<open>length CORE_LOCALS = 8\<close> by (simp add: list_all_length)
qed

text \<open>The processors that \<open>init\<close> starts, if there is more than one.\<close>

definition others :: "u8 list \<Rightarrow> u8 list" where
  "others ids = (if length ids \<le> 1 then [] else filter (\<lambda>i. i \<noteq> 0) ids)"

lemma smp_init_returns:
  assumes "parse_madt m off rsdp = Some ids" "distinct ids" "unat off + 2 ^ 33 < 2 ^ 64"
    and "length ids \<le> 1 \<or> drop_bit 24 (fst (dev_read dev d (off + LAPIC_PHYS + LAPIC_ID))) = 0"
  shows "\<exists>s. smp_init env dev off cr3 rsdp (smp_at_boot m d) = Some (word_of_nat (1 + length (came_up env (others ids))), s) \<and>
    length (smp_locals s) = 8 \<and> (\<forall>j < 8. is_online (smp_locals s ! j) \<longleftrightarrow> j = 0 \<or> j \<in> unat ` set (came_up env (others ids)))"
proof -
  let ?s0 = "(smp_at_boot m d)\<lparr>smp_locals := set_online 0 (smp_locals (smp_at_boot m d))\<rparr>"
  have s0: "length (smp_locals ?s0) = 8" "\<forall>j < 8. is_online (smp_locals ?s0 ! j) \<longleftrightarrow> j = 0"
    using core_locals by (simp_all add: smp_at_boot_def is_online_set)
  show ?thesis
  proof (cases "length ids \<le> 1")
    case True
    then show ?thesis using assms(1) s0 by (simp add: smp_init_def smp_at_boot_def others_def came_up_def)
  next
    case False
    let ?l = "off + LAPIC_PHYS"
    obtain raw d1 where raw: "dev_read dev d (?l + LAPIC_ID) = (raw, d1)" by fastforce
    have bsp: "drop_bit 24 raw = 0" using assms(4) False raw by simp
    have l: "add_chk off LAPIC_PHYS = Some ?l" "unat ?l + 0x400 < 2 ^ 64" "unat off + 0x51000 < 2 ^ 64"
      using assms(3) by (simp_all add: add_chk_def LAPIC_PHYS_def unat_word_ariths(1))
    have rd: "lapic_read dev ?l LAPIC_ID d = Some (raw, d1)" using lapic_room(2)[OF l(2), of LAPIC_ID dev d] raw by (simp add: LAPIC_ID_def)
    have ids: "filter (\<lambda>i. i \<noteq> 0) ids = others ids" "distinct (others ids)" "0 \<notin> set (others ids)"
      using False assms(2) by (simp_all add: others_def)
    have off_line: "\<forall>i \<in> set (others ids). unat i < 8 \<longrightarrow> \<not> is_online (smp_locals (?s0\<lparr>smp_dev := d1\<rparr>) ! unat i)"
    proof (intro ballI impI)
      fix i assume "i \<in> set (others ids)" "unat i < 8"
      moreover from this have "unat i \<noteq> 0" using ids(3) by (metis unat_eq_zero)
      ultimately show "\<not> is_online (smp_locals (?s0\<lparr>smp_dev := d1\<rparr>) ! unat i)" using s0(2) by simp
    qed
    have l8: "length (smp_locals (?s0\<lparr>smp_dev := d1\<rparr>)) = 8" using s0(1) by simp
    obtain s where s: "start_aps env dev off cr3 ?l (others ids) (?s0\<lparr>smp_dev := d1\<rparr>) = Some s" "length (smp_locals s) = 8"
        "aps_online s = aps_online ?s0 + word_of_nat (length (came_up env (others ids)))"
        "\<forall>j < 8. is_online (smp_locals s ! j) \<longleftrightarrow> is_online (smp_locals ?s0 ! j) \<or> j \<in> unat ` set (came_up env (others ids))"
      using start_aps_eq[OF l(3,2) ids(2) l8 off_line, of env dev cr3] by auto
    have "length (came_up env (others ids)) \<le> card (UNIV :: u8 set)"
      using ids(2) by (metis came_up_def card_mono distinct_card distinct_filter finite_class.finite_UNIV subset_UNIV)
    then have "length (came_up env (others ids)) \<le> 256" by (simp add: card_word)
    then have "add_chk 1 (aps_online s) = Some (word_of_nat (1 + length (came_up env (others ids))))"
      using s(3) by (simp add: add_chk_def smp_at_boot_def unat_of_nat)
    then have "smp_init env dev off cr3 rsdp (smp_at_boot m d) = Some (word_of_nat (1 + length (came_up env (others ids))), s)"
      using False assms(1) l(1) rd bsp s(1) ids(1) by (simp add: smp_init_def smp_at_boot_def Let_def)
    then show ?thesis using s(2,4) s0(2) by auto
  qed
qed


text \<open>A controller that has identifier 0 and ignores commands.\<close>

definition idle_lapic :: "unit device" where
  "idle_lapic = \<lparr>dev_read = (\<lambda>d a. (0, d)), dev_write = (\<lambda>d a v. d)\<rparr>"


end
