(* ===== verification/Framebuffer.thy ===== *)
theory Framebuffer
  imports Axiom_Prelude
begin

unbundle bit_operations_syntax

text \<open>
  The frame buffer (\<open>kernel/src/framebuffer.rs\<close>): filling the screen with one colour.
\<close>

datatype PixelFormat = Rgb | Bgr | OtherFormat

definition grey :: "u8 \<Rightarrow> u8 \<Rightarrow> u8 \<Rightarrow> u8 panics" where
  "grey r g b = do {
     s \<leftarrow> add_chk (ucast r :: u16) (ucast g);
     s \<leftarrow> add_chk s (ucast b);
     Some (ucast (s div 3)) }"

text \<open>The body of the loop; a pixel of fewer than three bytes has no place for the colour.\<close>

definition fill_pixel :: "PixelFormat \<Rightarrow> u8 \<Rightarrow> u8 \<Rightarrow> u8 \<Rightarrow> bytes \<Rightarrow> bytes panics" where
  "fill_pixel fmt r g b chunk =
     (case fmt of
        Rgb \<Rightarrow> if length chunk < 3 then None else Some (chunk[0 := r, 1 := g, 2 := b])
      | Bgr \<Rightarrow> if length chunk < 3 then None else Some (chunk[0 := b, 1 := g, 2 := r])
      | OtherFormat \<Rightarrow> do { intensity \<leftarrow> grey r g b; Some (replicate (length chunk) intensity) })"

text \<open>\<open>fill_screen\<close>: \<open>chunks_exact_mut\<close> refuses the size zero and leaves an incomplete last chunk alone.\<close>

function fill_screen :: "PixelFormat \<Rightarrow> nat \<Rightarrow> u8 \<Rightarrow> u8 \<Rightarrow> u8 \<Rightarrow> bytes \<Rightarrow> bytes panics" where
  "fill_screen fmt n r g b buf =
     (if n = 0 then None
      else if length buf < n then Some buf
      else do {
        chunk \<leftarrow> fill_pixel fmt r g b (take n buf);
        rest \<leftarrow> fill_screen fmt n r g b (drop n buf);
        Some (chunk @ rest) })"
  by pat_completeness auto
termination
  by (relation "measure (\<lambda>(fmt, n, r, g, b, buf). length buf)") auto

declare fill_screen.simps [simp del]

text \<open>What a byte of a pixel becomes.\<close>

definition mean :: "u8 \<Rightarrow> u8 \<Rightarrow> u8 \<Rightarrow> u8" where
  "mean r g b = word_of_nat ((unat r + unat g + unat b) div 3)"

definition colour :: "PixelFormat \<Rightarrow> u8 \<Rightarrow> u8 \<Rightarrow> u8 \<Rightarrow> nat \<Rightarrow> u8 \<Rightarrow> u8" where
  "colour fmt r g b i old =
     (case fmt of
        Rgb \<Rightarrow> if i = 0 then r else if i = 1 then g else if i = 2 then b else old
      | Bgr \<Rightarrow> if i = 0 then b else if i = 1 then g else if i = 2 then r else old
      | OtherFormat \<Rightarrow> mean r g b)"

lemma grey_eq: "grey r g b = Some (mean r g b)"
proof -
  have u: "unat (ucast x :: u16) = unat x" "unat x < 256" for x :: u8
    using unsigned_less[of x, where ?'a = nat] by (simp_all add: unsigned_ucast_eq take_bit_eq_mod)
  define s where "s = (ucast r + ucast g + ucast b :: u16)"
  have rg: "unat (ucast r + ucast g :: u16) = unat r + unat g"
    using u[of r] u[of g] by (simp add: unat_word_ariths(1))
  then have s: "unat s = unat r + unat g + unat b"
    using u[of r] u[of g] u[of b] by (simp add: s_def unat_word_ariths(1)[of "ucast r + ucast g"])
  have "grey r g b = Some (ucast (s div 3))"
    using u[of r] u[of g] u[of b] rg by (simp add: grey_def add_chk_def s_def)
  also have "ucast (s div 3) = (word_of_nat (unat (s div 3)) :: u8)" by simp
  also have "unat (s div 3) = (unat r + unat g + unat b) div 3" using s by (simp add: unat_div)
  finally show ?thesis by (simp add: mean_def)
qed

lemma fill_pixel_eq:
  assumes "fmt = OtherFormat \<or> 3 \<le> length chunk"
  shows "fill_pixel fmt r g b chunk = Some (map (\<lambda>i. colour fmt r g b i (chunk ! i)) [0..<length chunk])"
proof -
  have three: "chunk[0 := x, 1 := y, 2 := z] =
      map (\<lambda>i. if i = 0 then x else if i = 1 then y else if i = 2 then z else chunk ! i) [0..<length chunk]" if "3 \<le> length chunk" for x y z
    using that by (intro nth_equalityI) (auto simp: nth_list_update)
  show ?thesis
  proof (cases fmt)
    case Rgb
    then show ?thesis using assms three[of r g b] unfolding colour_def fill_pixel_def by simp
  next
    case Bgr
    then show ?thesis using assms three[of b g r] unfolding colour_def fill_pixel_def by simp
  next
    case OtherFormat
    then show ?thesis by (simp add: fill_pixel_def grey_eq colour_def map_replicate_const)
  qed
qed

lemma fill_screen_result:
  assumes "0 < n" "fmt = OtherFormat \<or> 3 \<le> n"
  shows "\<exists>out. fill_screen fmt n r g b buf = Some out \<and> length out = length buf \<and>
    (\<forall>k < length buf. out ! k = (if k < length buf div n * n then colour fmt r g b (k mod n) (buf ! k) else buf ! k))"
  using assms
proof (induction fmt n r g b buf rule: fill_screen.induct)
  case (1 fmt n r g b buf)
  show ?case
  proof (cases "length buf < n")
    case True
    then show ?thesis using 1(2) by (simp add: fill_screen.simps[of _ _ _ _ _ buf])
  next
    case False
    let ?c = "map (\<lambda>i. colour fmt r g b i (buf ! i)) [0..<n]"
    have c: "fill_pixel fmt r g b (take n buf) = Some ?c"
      using fill_pixel_eq[of fmt "take n buf" r g b] False 1(3) by (auto simp: min_def)
    obtain out where out: "fill_screen fmt n r g b (drop n buf) = Some out" "length out = length buf - n"
        "\<forall>k < length buf - n. out ! k = (if k < (length buf - n) div n * n then colour fmt r g b (k mod n) (buf ! (n + k)) else buf ! (n + k))"
      using 1(1)[OF _ False c] 1(2,3) False by auto
    have d: "length buf div n * n = (length buf - n) div n * n + n" using False 1(2) by (simp add: le_div_geq)
    have "fill_screen fmt n r g b buf = Some (?c @ out)"
      using False 1(2) c out(1) by (simp add: fill_screen.simps[of _ _ _ _ _ buf])
    moreover have "(?c @ out) ! k = (if k < length buf div n * n then colour fmt r g b (k mod n) (buf ! k) else buf ! k)"
      if "k < length buf" for k
    proof (cases "k < n")
      case True
      then show ?thesis using d by (simp add: nth_append)
    next
      case ge: False
      then have "k - n < (length buf - n) div n * n \<longleftrightarrow> k < length buf div n * n" "(k - n) mod n = k mod n"
        using d by (auto simp: le_mod_geq)
      then show ?thesis using out(3)[rule_format, of "k - n"] ge that by (simp add: nth_append)
    qed
    ultimately show ?thesis using out(2) False by auto
  qed
qed

text \<open>Filling the screen colours every complete pixel in its format and touches nothing else: the result has
  the size of the buffer, the bytes of a pixel beyond its colour and the bytes after the last
  complete pixel keep their values. With colour channels it needs three bytes for a pixel.\<close>

theorem fill_screen_fills:
  assumes "0 < n" "fmt = OtherFormat \<or> 3 \<le> n"
  shows "\<exists>out. fill_screen fmt n r g b buf = Some out \<and> length out = length buf \<and>
    (\<forall>k < length buf. out ! k = (if k < length buf div n * n then colour fmt r g b (k mod n) (buf ! k) else buf ! k))"
  using fill_screen_result[OF assms] .

theorem fill_screen_fills_witness: "\<exists>out. fill_screen Bgr 4 26 22 71 (replicate 10 9) = Some out \<and> out ! 4 = 71 \<and> out ! 7 = 9 \<and> out ! 9 = 9"
proof -
  obtain out where "fill_screen Bgr 4 26 22 71 (replicate 10 9) = Some out"
      "\<forall>k < 10. out ! k = (if k < 8 then colour Bgr 26 22 71 (k mod 4) 9 else 9)"
    using fill_screen_fills[of 4 Bgr 26 22 71 "replicate 10 9"] by auto
  then show ?thesis by (simp add: colour_def)
qed

lemma fill_screen_panics:
  "fill_screen fmt 0 r g b buf = None"
  "0 < n \<Longrightarrow> n < 3 \<Longrightarrow> n \<le> length buf \<Longrightarrow> fmt \<noteq> OtherFormat \<Longrightarrow> fill_screen fmt n r g b buf = None"
  by (cases fmt; simp add: fill_screen.simps[of _ _ _ _ _ buf] fill_pixel_def)+

end
