(* ===== verification/Boot.thy ===== *)
theory Boot
  imports Demos Net User_Mode Smp_Start Framebuffer
begin

unbundle bit_operations_syntax

text \<open>
  The boot sequence (\<open>kernel_main\<close> in \<open>kernel/src/main.rs\<close>), which calls the components one after the
  other, with the last demonstration (\<open>net::run_demo\<close>) and the task state segment
  (\<open>kernel/src/gdt.rs\<close>). The components have their lemmas; here they are put together: on a machine
  with enough memory the kernel boots into the user program, and the audit log tells the story.
\<close>

section \<open>The network demonstration\<close>

definition demo_frame :: bytes where
  "demo_frame =
     (let frame = replicate 42 0;
          frame = copy_at 0 (replicate 6 0xFF) frame;
          frame = copy_at 6 [0x52, 0x54, 0x00, 0x12, 0x34, 0x56] frame;
          frame = copy_at 12 (to_be_bytes 2 (0x0800 :: u16)) frame;
          frame = frame[14 := 0x45];
          frame = frame[15 := 0x00];
          frame = copy_at 16 (to_be_bytes 2 (28 :: u16)) frame;
          frame = frame[22 := 64];
          frame = frame[23 := 17];
          frame = copy_at 26 [10, 0, 2, 15] frame;
          frame = copy_at 30 [10, 0, 2, 2] frame;
          frame = copy_at 34 (to_be_bytes 2 (1234 :: u16)) frame;
          frame = copy_at 36 (to_be_bytes 2 (53 :: u16)) frame;
          frame = copy_at 38 (to_be_bytes 2 (8 :: u16)) frame
      in frame)"

definition net_run_demo :: "(nat \<Rightarrow> u64) \<Rightarrow> MealLog \<Rightarrow> ((string \<times> bool \<times> bytes) \<times> MealLog) panics" where
  "net_run_demo tick m =
     (let result = process_frame demo_frame in do {
        m \<leftarrow> klog tick DriverLoaded (driver_id virtio_net_driver_spec) 0 0 m;
        (_, ok) \<leftarrow> register_nic_with_ztdf;
        frame \<leftarrow> transmit_eipc_udp [10, 0, 2, 15] [10, 0, 2, 2] 49152 5000 [0x48, 0x70, 0x0d, 0x95, 0xf5, 0x68, 0x30, 0x91];
        Some ((result, ok, frame), m) })"

section \<open>The task state segment\<close>

record TaskStateSegment =
  ist0 :: u64
  rsp0 :: u64

text \<open>The stacks of the double-fault handler (20 KiB) and of the switch from ring 3 (32 KiB) grow down
  from the end.\<close>

definition TSS :: "('m, 'f) paging \<Rightarrow> u64 \<Rightarrow> u64 \<Rightarrow> TaskStateSegment panics" where
  "TSS p df_stack priv_stack = do {
     i \<leftarrow> virt_add p df_stack (4096 * 5);
     r \<leftarrow> virt_add p priv_stack (4096 * 8);
     Some \<lparr>ist0 = i, rsp0 = r\<rparr> }"

section \<open>The boot sequence\<close>

text \<open>What the boot loader passes, and the machine: the crates, the interrupt controller and the other
  processors, the clock, the addresses the linker and the heap chose, the page table register, the
  state of the scheduler when it is asked, and the embedded file.\<close>

record BootInfo =
  framebuffer :: "(PixelFormat \<times> nat \<times> bytes) option"
  physical_memory_offset :: "u64 option"
  rsdp_addr :: "u64 option"
  boot_regions :: "MemoryRegion list"

record ('m, 'g, 'd) platform =
  paging_crate :: "('m, BootInfoFrameAllocator) paging"
  segments_crate :: "'g gdt_crate"
  lapic :: "'d device"
  processors :: smp_env
  tick_at :: "nat \<Rightarrow> u64"
  sched_stats :: "ScbaStats option"
  vmz_buffer :: u64
  df_stack :: u64
  priv_stack :: u64
  stub_addr :: u64
  stub_stack :: u64
  page_table :: u64
  elf_file :: bytes

record ('m, 'd) booted =
  screen :: "bytes option"
  task_state :: TaskStateSegment
  selectors :: Selectors
  heap :: "u64 \<times> u64"
  cores :: u32
  smp_state :: "'d smp"
  tcd_result :: tcd_demo
  eipc_result :: eipc_demo
  vmz_result :: vmz_demo
  lattice_result :: lattice_demo
  ztdf_result :: "(DriverResult option \<times> u32) list"
  net_result :: "string \<times> bool \<times> bytes"
  user_entry :: u64
  user_memory :: "('m, BootInfoFrameAllocator) load_state"
  kernel_rsp :: u64
  audit :: "nat \<times> bool"
  audit_rows :: "row list"
  audit_log :: MealLog
  lattice_state :: SecurityLattice
  processor :: machine

definition kernel_main :: "('m, 'g, 'd) platform \<Rightarrow> BootInfo \<Rightarrow> 'm \<Rightarrow> mem \<Rightarrow> 'd \<Rightarrow> machine \<Rightarrow> ('m, 'd) booted panics" where
  "kernel_main pl bi mapper mem dev cpu =
     (let p = paging_crate pl; tick = tick_at pl in do {
     scr \<leftarrow> (case framebuffer bi of
              Some (fmt, bpp, buf) \<Rightarrow> map_option Some (fill_screen fmt bpp 26 22 71 buf) | None \<Rightarrow> Some None);
     off \<leftarrow> physical_memory_offset bi;
     t \<leftarrow> TSS p (df_stack pl) (priv_stack pl);
     (_, sel) \<leftarrow> GDT (segments_crate pl);
     log \<leftarrow> MealLog_new K_AUDIT;
     (_, log) \<leftarrow> (case IDT 3 of Some breakpoint \<Rightarrow> breakpoint_handler log | _ \<Rightarrow> None);
     _ \<leftarrow> virt_page p off;
     let alloc = BootInfoFrameAllocator_init (boot_regions bi) in do {
     (r, mapper, alloc) \<leftarrow> init_heap p (allocate_frame p) mapper alloc;
     hp \<leftarrow> (case r of Inl _ \<Rightarrow> None | Inr h \<Rightarrow> Some h);
     page \<leftarrow> virt_page p 0x50000;
     frame \<leftarrow> phys_frame p 0x50000;
     (_, mapper, alloc) \<leftarrow> map_to p mapper page frame {PRESENT, WRITABLE} alloc;
     (n, smp) \<leftarrow> smp_init (processors pl) (lapic pl) off (page_table pl) (rsdp_addr bi) (smp_at_boot mem dev);
     log \<leftarrow> klog tick LogInitialised 0 0 0 log;
     (tcd, log) \<leftarrow> demonstrate tick log;
     ((eipc, ch), log) \<leftarrow> eipc_run_demo tick EipcChannel_new log;
     ((vmz, mem), log) \<leftarrow> vmz_run_demo tick (vmz_buffer pl) (smp_mem smp) log;
     ((lat, lattice), log) \<leftarrow> lattice_run_demo tick SecurityLattice_default_blp log;
     (ztdf, log) \<leftarrow> ztdf_run_demo tick log;
     (regs, krsp) \<leftarrow> syscall_init (stub_addr pl) (stub_stack pl) (msr cpu);
     (entry, um) \<leftarrow> user_setup p (allocate_frame p) off (elf_file pl) \<lparr>ls_mapper = mapper, ls_alloc = alloc, ls_mem = mem\<rparr>;
     let fences = (case sched_stats pl of Some s \<Rightarrow> total_fences s | None \<Rightarrow> 0) in do {
     log \<leftarrow> klog tick ScbaFenceFired 0 fences 0 log;
     log \<leftarrow> klog tick BootComplete 0 0 0 log;
     verdict \<leftarrow> MealLog_verify_chain log;
     rows \<leftarrow> MealLog_print_all log;
     (net, log) \<leftarrow> net_run_demo tick log;
     Some \<lparr>screen = scr, task_state = t, selectors = sel, heap = hp, cores = n, smp_state = smp, tcd_result = tcd,
       eipc_result = eipc, vmz_result = vmz, lattice_result = lat, ztdf_result = ztdf, net_result = net,
       user_entry = entry, user_memory = um, kernel_rsp = krsp, audit = verdict, audit_rows = rows, audit_log = log,
       lattice_state = lattice, processor = enter sel entry (cpu\<lparr>msr := regs\<rparr>)\<rparr> } } })"

section \<open>The network demonstration succeeds\<close>

lemma copy_at_nothing: "copy_at n [] xs = xs"
  by (simp add: copy_at_def)

lemma demo_frame_eq: "transmit_eipc_udp [10, 0, 2, 15] [10, 0, 2, 2] 1234 53 [] = Some demo_frame"
  by (simp add: demo_frame_def transmit_eipc_udp_def Let_def QEMU_MAC_def list_update_copy_at copy_at_fill copy_at_Cons replicate_small
      copy_at_nothing)

lemma net_run_demo_logs:
  obtains frame where "transmit_eipc_udp [10, 0, 2, 15] [10, 0, 2, 2] 49152 5000 [0x48, 0x70, 0x0d, 0x95, 0xf5, 0x68, 0x30, 0x91] = Some frame"
    "logs tick (net_run_demo tick) (''UDP datagram'', True, frame) [(DriverLoaded, 10, 0, 0)]"
proof -
  obtain frame where f: "transmit_eipc_udp [10, 0, 2, 15] [10, 0, 2, 2] 49152 5000 [0x48, 0x70, 0x0d, 0x95, 0xf5, 0x68, 0x30, 0x91] = Some frame"
    by (simp add: transmit_eq)
  have "process_frame demo_frame = ''UDP datagram''"
    using transmitted_datagram[of "[10, 0, 2, 15]" "[10, 0, 2, 2]" "[]" 1234 53] demo_frame_eq by auto
  moreover have "driver_id virtio_net_driver_spec = 10" by (simp add: virtio_net_driver_spec_def)
  ultimately have "net_run_demo tick = (\<lambda>m. do { m \<leftarrow> klog tick DriverLoaded 10 0 0 m; Some ((''UDP datagram'', True, frame), m) })"
    by (simp add: net_run_demo_def fun_eq_iff nic_registration f)
  then show ?thesis using that[OF f] logs_klog by metis
qed

section \<open>The memory\<close>

text \<open>The pages of the user program, and what the boot needs of the memory: the pages it maps are free
  and differ, there are frames for them and for the page tables, and the file, if it is one, is in
  order.\<close>

definition user_pages :: "bytes \<Rightarrow> u64 list" where
  "user_pages elf = stack_page # (if header_error elf = None then load_pages_of elf [0..<unat (e_phnum elf)] else [USER_CODE_VIRT])"

definition boot_room :: "('m, BootInfoFrameAllocator) paging \<Rightarrow> u64 \<Rightarrow> bytes \<Rightarrow> 'm \<Rightarrow> BootInfoFrameAllocator \<Rightarrow> bool" where
  "boot_room p off elf m a \<longleftrightarrow>
     (let pages = 0x50000 # user_pages elf in
       distinct pages \<and> set pages \<inter> set heap_pages = {} \<and> (\<forall>x \<in> set heap_pages \<union> set pages. lookup p m x = None) \<and>
       8192 + 4 * length pages \<le> frames_left a) \<and>
     (\<forall>f \<in> set (usable_addrs a). unat off + unat f < 2 ^ 47) \<and>
     (header_error elf = None \<longrightarrow> length elf < 2 ^ 63 \<and> 56 \<le> unat (e_phentsize elf) \<and>
       unat (e_phoff elf) + unat (e_phnum elf) * unat (e_phentsize elf) \<le> length elf \<and>
       (\<forall>ph \<in> set (phdrs elf). p_type ph = PT_LOAD \<longrightarrow> phdr_ok elf ph))"

lemma memory_ready:
  assumes "addresses_doc p" "map_to_doc p (boot_grows p)" "map_to_succeeds p" "boot_alloc_ok p a" "boot_room p off elf m a"
  obtains m1 a1 m2 a2 where "init_heap p (allocate_frame p) m a = Some (Inr (HEAP_START, HEAP_SIZE), m1, a1)"
    "map_to p m1 0x50000 0x50000 {PRESENT, WRITABLE} a1 = Some (Inr (), m2, a2)"
    "boot_alloc_ok p a2" "\<And>mem. user_room p off elf \<lparr>ls_mapper = m2, ls_alloc = a2, ls_mem = mem\<rparr>"
proof -
  let ?pages = "0x50000 # user_pages elf"
  have r: "distinct ?pages" "set ?pages \<inter> set heap_pages = {}" "\<forall>x \<in> set heap_pages. lookup p m x = None"
      "\<forall>x \<in> set ?pages. lookup p m x = None" "8192 + 4 * length ?pages \<le> frames_left a"
    using assms(5) by (auto simp: boot_room_def Let_def)
  obtain m1 a1 where h: "init_heap p (allocate_frame p) m a = Some (Inr (HEAP_START, HEAP_SIZE), m1, a1)" "boot_alloc_ok p a1"
      "frames_left a \<le> frames_left a1 + 8192" "memory_regions a1 = memory_regions a"
      "\<forall>x. x \<notin> set heap_pages \<longrightarrow> lookup p m1 x = lookup p m x"
    using init_heap_succeeds[OF assms(1-4) r(3)] r(5) by auto
  have free1: "\<forall>x \<in> set ?pages. lookup p m1 x = None" using h(5) r(2,4) by auto
  have left1: "4 * length ?pages \<le> frames_left a1" using h(3) r(5) by linarith
  have "lookup p m1 0x50000 = None \<and> 3 \<le> frames_left a1" using free1 left1 by simp
  with assms(3) obtain m2 a2 where t: "map_to p m1 0x50000 0x50000 {PRESENT, WRITABLE} a1 = Some (Inr (), m2, a2)"
      "frames_left a1 \<le> frames_left a2 + 3" "memory_regions a2 = memory_regions a1"
    unfolding map_to_succeeds_def by blast
  have l2: "lookup p m2 = (lookup p m1)(0x50000 \<mapsto> (0x50000, {PRESENT, WRITABLE}))"
    using assms(2) t(1) by (fastforce simp: map_to_doc_def)
  have a2: "boot_alloc_ok p a2" using h(2) t(3) by (simp add: boot_alloc_ok_def)
  have free2: "\<forall>x \<in> set (user_pages elf). lookup p m2 x = None" using free1 r(1) by (auto simp: l2)
  have left2: "4 * length (user_pages elf) \<le> frames_left a2" using left1 t(2) by simp
  have "usable_addrs a2 = usable_addrs a" by (simp add: usable_addrs_def t(3) h(4))
  then have va: "\<forall>f \<in> set (usable_addrs a2). virt_add p off f \<noteq> None"
    using assms(5) virt_add_low[OF assms(1)] by (fastforce simp: boot_room_def)
  have "user_room p off elf \<lparr>ls_mapper = m2, ls_alloc = a2, ls_mem = mem\<rparr>" for mem
    using free2 left2 va r(1) assms(5)
    by (auto simp: user_room_def loadable_def user_pages_def boot_room_def Let_def split: if_splits)
  then show thesis using that h(1) t(1) a2 by blast
qed

lemma user_ready:
  assumes "addresses_doc p" "map_to_doc p (boot_grows p)" "map_to_succeeds p" "boot_alloc_ok p a" "boot_room p off elf m a" "length elf < 2 ^ 64"
  obtains m1 a1 m2 a2 where "init_heap p (allocate_frame p) m a = Some (Inr (HEAP_START, HEAP_SIZE), m1, a1)"
    "map_to p m1 0x50000 0x50000 {PRESENT, WRITABLE} a1 = Some (Inr (), m2, a2)"
    "\<And>mem. \<exists>entry um. user_setup p (allocate_frame p) off elf \<lparr>ls_mapper = m2, ls_alloc = a2, ls_mem = mem\<rparr> = Some (entry, um) \<and>
       entry \<in> {e_entry elf, USER_CODE_VIRT} \<and>
       (header_error elf \<noteq> None \<longrightarrow> entry = USER_CODE_VIRT \<and> program_at (fetch p off um) USER_CODE_VIRT code_page)"
proof -
  obtain m1 a1 m2 a2 where m: "init_heap p (allocate_frame p) m a = Some (Inr (HEAP_START, HEAP_SIZE), m1, a1)"
    "map_to p m1 0x50000 0x50000 {PRESENT, WRITABLE} a1 = Some (Inr (), m2, a2)"
    "boot_alloc_ok p a2" "\<And>mem. user_room p off elf \<lparr>ls_mapper = m2, ls_alloc = a2, ls_mem = mem\<rparr>"
    by (rule memory_ready[OF assms(1-5)]) blast
  have "\<exists>entry um. user_setup p (allocate_frame p) off elf \<lparr>ls_mapper = m2, ls_alloc = a2, ls_mem = mem\<rparr> = Some (entry, um) \<and>
      entry \<in> {e_entry elf, USER_CODE_VIRT} \<and>
      (header_error elf \<noteq> None \<longrightarrow> entry = USER_CODE_VIRT \<and> program_at (fetch p off um) USER_CODE_VIRT code_page)" for mem
  proof -
    let ?ls = "\<lparr>ls_mapper = m2, ls_alloc = a2, ls_mem = mem\<rparr>"
    have a2: "boot_alloc_ok p (ls_alloc ?ls)" using m(3) by simp
    obtain entry um where u: "user_setup p (allocate_frame p) off elf ?ls = Some (entry, um)"
      using user_setup_succeeds[OF assms(1-3) a2 m(4)] by blast
    have entry: "entry \<in> {e_entry elf, USER_CODE_VIRT}"
      by (rule user_setup_image[OF assms(1,2) a2 assms(6) u]) (auto split: sum.splits)
    have "entry = USER_CODE_VIRT \<and> program_at (fetch p off um) USER_CODE_VIRT code_page" if bad: "header_error elf \<noteq> None"
    proof -
      obtain e where "header_error elf = Some e" using bad by blast
      then have "load p (allocate_frame p) off elf ?ls = Some (Inl e, ?ls)" by (simp add: load_eq)
      from small_program_present[OF assms(1,2) a2 assms(6) this u] show ?thesis by simp
    qed
    with u entry show ?thesis by blast
  qed
  then show thesis using that m(1,2) by blast
qed

section \<open>The kernel boots\<close>

definition boot_fences :: "ScbaStats option \<Rightarrow> u64" where
  "boot_fences st = (case st of Some s \<Rightarrow> total_fences s | None \<Rightarrow> 0)"

definition demo_entries :: "u64 \<Rightarrow> entry list" where
  "demo_entries addr = (LogInitialised, 0, 0, 0) # tcd_entries @ eipc_entries @ [(MemoryZeroed, 0, addr, 64)] @
     [(LatticeReconfigured, 0, 5, 0)] @ ztdf_entries"

definition boot_entries :: "u64 \<Rightarrow> ScbaStats option \<Rightarrow> entry list" where
  "boot_entries addr st = demo_entries addr @ [(ScbaFenceFired, 0, boot_fences st, 0), (BootComplete, 0, 0, 0)]"

lemma length_boot_entries: "length (demo_entries addr) = 17" "length (boot_entries addr st) = 19"
  by (simp_all add: boot_entries_def demo_entries_def tcd_entries_def eipc_entries_def ztdf_entries_def)

text \<open>The part of the boot between the first entry of the log and the configuration of system calls.\<close>

lemma demos_run:
  assumes "boot_log tick [] l0"
  obtains l1 l2 l3 l4 l5 l6 ch where "klog tick LogInitialised 0 0 0 l0 = Some l1" "demonstrate tick l1 = Some (tcd_outcome, l2)"
    "eipc_run_demo tick EipcChannel_new l2 = Some ((eipc_outcome, ch), l3)"
    "vmz_run_demo tick addr mem l3 = Some ((vmz_outcome, \<lambda>x. if in_range addr 64 x then 0 else mem x), l4)"
    "lattice_run_demo tick SecurityLattice_default_blp l4 = Some ((lattice_outcome, add_ts_sci SecurityLattice_default_blp), l5)"
    "ztdf_run_demo tick l5 = Some (ztdf_outcome, l6)" "boot_log tick (demo_entries addr) l6"
proof -
  have l: "length tcd_entries = 2" "length eipc_entries = 6" "length ztdf_entries = 6"
    by (simp_all add: tcd_entries_def eipc_entries_def ztdf_entries_def)
  obtain ch where ch: "logs tick (eipc_run_demo tick EipcChannel_new) (eipc_outcome, ch) eipc_entries"
    using eipc_demo_log by blast
  obtain l1 where 1: "klog tick LogInitialised 0 0 0 l0 = Some l1" "boot_log tick [(LogInitialised, 0, 0, 0)] l1"
    using klog_boot[OF assms, of LogInitialised 0 0 0] by auto
  obtain l2 where 2: "demonstrate tick l1 = Some (tcd_outcome, l2)" "boot_log tick ((LogInitialised, 0, 0, 0) # tcd_entries) l2"
    using logsD[OF demonstrate_logs 1(2)] by (auto simp: l)
  obtain l3 where 3: "eipc_run_demo tick EipcChannel_new l2 = Some ((eipc_outcome, ch), l3)"
      "boot_log tick ((LogInitialised, 0, 0, 0) # tcd_entries @ eipc_entries) l3"
    using logsD[OF ch 2(2)] by (auto simp: l)
  obtain l4 where 4: "vmz_run_demo tick addr mem l3 = Some ((vmz_outcome, \<lambda>x. if in_range addr 64 x then 0 else mem x), l4)"
      "boot_log tick ((LogInitialised, 0, 0, 0) # tcd_entries @ eipc_entries @ [(MemoryZeroed, 0, addr, 64)]) l4"
    using logsD[OF vmz_run_demo_logs 3(2)] by (auto simp: l)
  obtain l5 where 5: "lattice_run_demo tick SecurityLattice_default_blp l4 =
        Some ((lattice_outcome, add_ts_sci SecurityLattice_default_blp), l5)"
      "boot_log tick ((LogInitialised, 0, 0, 0) # tcd_entries @ eipc_entries @ [(MemoryZeroed, 0, addr, 64)] @
        [(LatticeReconfigured, 0, 5, 0)]) l5"
    using logsD[OF lattice_run_demo_logs 4(2)] by (auto simp: l)
  obtain l6 where 6: "ztdf_run_demo tick l5 = Some (ztdf_outcome, l6)" "boot_log tick (demo_entries addr) l6"
    using logsD[OF ztdf_run_demo_logs 5(2)] by (auto simp: l demo_entries_def)
  show thesis by (rule that[OF 1(1) 2(1) 3(1) 4(1) 5(1) 6])
qed

text \<open>The end of the boot: the last entries, the audit, and the network.\<close>

lemma audit_runs:
  assumes "boot_log tick (demo_entries addr) l6"
  obtains l7 l8 l9 frame where "klog tick ScbaFenceFired 0 (boot_fences st) 0 l6 = Some l7" "klog tick BootComplete 0 0 0 l7 = Some l8"
    "MealLog_verify_chain l8 = Some (19, True)"
    "MealLog_print_all l8 = Some (map print_row (history K_AUDIT (stamp tick 0 (boot_entries addr st))))"
    "net_run_demo tick l8 = Some ((''UDP datagram'', True, frame), l9)"
    "boot_log tick (boot_entries addr st @ [(DriverLoaded, 10, 0, 0)]) l9"
proof -
  obtain frame where n: "logs tick (net_run_demo tick) (''UDP datagram'', True, frame) [(DriverLoaded, 10, 0, 0)]"
    by (rule net_run_demo_logs)
  obtain l7 where 7: "klog tick ScbaFenceFired 0 (boot_fences st) 0 l6 = Some l7"
      "boot_log tick (demo_entries addr @ [(ScbaFenceFired, 0, boot_fences st, 0)]) l7"
    using klog_boot[OF assms, of ScbaFenceFired 0 "boot_fences st" 0] by (auto simp: length_boot_entries)
  obtain l8 where 8: "klog tick BootComplete 0 0 0 l7 = Some l8" "boot_log tick (boot_entries addr st) l8"
    using klog_boot[OF 7(2), of BootComplete 0 0 0] by (auto simp: length_boot_entries boot_entries_def)
  have r: "refines K_AUDIT l8 (stamp tick 0 (boot_entries addr st))" using 8(2) by (simp add: boot_log_def)
  have v: "MealLog_verify_chain l8 = Some (19, True)"
    using refines_verifies[OF r] by (simp add: length_boot_entries CAPACITY_def)
  have p: "MealLog_print_all l8 = Some (map print_row (history K_AUDIT (stamp tick 0 (boot_entries addr st))))"
    using print_all_eq[OF refines_ok[OF r]] refines_visible[OF r] by (simp add: length_boot_entries CAPACITY_def)
  obtain l9 where 9: "net_run_demo tick l8 = Some ((''UDP datagram'', True, frame), l9)"
      "boot_log tick (boot_entries addr st @ [(DriverLoaded, 10, 0, 0)]) l9"
    using logsD[OF n 8(2)] by (auto simp: length_boot_entries)
  show thesis by (rule that[OF 7(1) 8(1) v p 9])
qed

lemma TSS_eq: "addresses_doc p \<Longrightarrow> virt_add p d 20480 \<noteq> None \<Longrightarrow> virt_add p q 32768 \<noteq> None \<Longrightarrow>
    TSS p d q = Some \<lparr>ist0 = d + 20480, rsp0 = q + 32768\<rparr>"
  by (auto simp: TSS_def addresses_doc_def)

lemma trampoline_page:
  assumes "addresses_doc p"
  shows "virt_page p 0x50000 = Some 0x50000" "phys_frame p 0x50000 = Some 0x50000"
proof -
  have d: "page_down 0x50000 = 0x50000" by (simp add: page_down_def)
  show "virt_page p 0x50000 = Some 0x50000" using virt_page_low[OF assms, of "0x50000"] by (simp add: d)
  have "\<forall>a. unat a < 2 ^ 52 \<longrightarrow> phys_frame p a = Some (page_down a)" using assms unfolding addresses_doc_def by (rule conjunct1)
  from this[rule_format, of "0x50000"] show "phys_frame p 0x50000 = Some 0x50000" by (simp add: d)
qed

lemma screen_filled:
  assumes "case fb of Some (fmt, bpp, buf) \<Rightarrow> 0 < bpp \<and> (fmt = OtherFormat \<or> 3 \<le> bpp) | None \<Rightarrow> True"
  obtains scr where "(case fb of Some (fmt, bpp, buf) \<Rightarrow> map_option Some (fill_screen fmt bpp r g b buf) | None \<Rightarrow> Some None) = Some scr"
proof (cases fb)
  case (Some x)
  obtain fmt bpp buf where x: "x = (fmt, bpp, buf)" by (cases x)
  then show ?thesis using assms Some that fill_screen_result[of bpp fmt r g b buf] by auto
qed (use that in simp)

lemma IDT_breakpoint: "IDT 3 = Some breakpoint"
  by (simp add: IDT_def PIC_1_OFFSET_def)

lemma syscall_init_returns: "unat stack + 65536 < 2 ^ 64 \<Longrightarrow> \<exists>regs sp. syscall_init stub stack m = Some (regs, sp)"
  by (simp add: syscall_init_def add_chk_def STACK_SIZE_def Let_def)

text \<open>What the machine has to be like, given how the descriptor table counts its slots, where the physical
  memory is mapped, and the processors in the tables of the firmware.\<close>

definition bootable :: "('m, 'g, 'd) platform \<Rightarrow> ('g \<Rightarrow> nat) \<Rightarrow> BootInfo \<Rightarrow> u64 \<Rightarrow> 'm \<Rightarrow> mem \<Rightarrow> u8 list \<Rightarrow> 'd \<Rightarrow> bool" where
  "bootable pl used bi off mapper mem ids dev \<longleftrightarrow>
     addresses_doc (paging_crate pl) \<and> map_to_doc (paging_crate pl) (boot_grows (paging_crate pl)) \<and> map_to_succeeds (paging_crate pl) \<and>
     gdt_doc (segments_crate pl) used \<and>
     (case framebuffer bi of Some (fmt, bpp, buf) \<Rightarrow> 0 < bpp \<and> (fmt = OtherFormat \<or> 3 \<le> bpp) | None \<Rightarrow> True) \<and>
     physical_memory_offset bi = Some off \<and> unat off < 2 ^ 47 \<and>
     regions_ok (boot_regions bi) \<and>
     boot_room (paging_crate pl) off (elf_file pl) mapper (BootInfoFrameAllocator_init (boot_regions bi)) \<and>
     virt_add (paging_crate pl) (df_stack pl) 20480 \<noteq> None \<and> virt_add (paging_crate pl) (priv_stack pl) 32768 \<noteq> None \<and>
     unat (stub_stack pl) + 65536 < 2 ^ 64 \<and> length (elf_file pl) < 2 ^ 64 \<and>
     parse_madt mem off (rsdp_addr bi) = Some ids \<and> distinct ids \<and>
     (length ids \<le> 1 \<or> drop_bit 24 (fst (dev_read (lapic pl) dev (off + LAPIC_PHYS + LAPIC_ID))) = 0)"

lemma kernel_main_boots:
  assumes bootable: "bootable pl used bi off mapper mem ids dev"
  shows "\<exists>b. kernel_main pl bi mapper mem dev cpu = Some b \<and>
    task_state b = \<lparr>ist0 = df_stack pl + 20480, rsp0 = priv_stack pl + 32768\<rparr> \<and> heap b = (HEAP_START, HEAP_SIZE) \<and>
    cores b = word_of_nat (1 + length (came_up (processors pl) (others ids))) \<and>
    tcd_result b = tcd_outcome \<and> eipc_result b = eipc_outcome \<and> vmz_result b = vmz_outcome \<and>
    lattice_result b = lattice_outcome \<and> ztdf_result b = ztdf_outcome \<and> fst (net_result b) = ''UDP datagram'' \<and>
    audit b = (19, True) \<and>
    audit_rows b = map print_row (history K_AUDIT (stamp (tick_at pl) 0 (boot_entries (vmz_buffer pl) (sched_stats pl)))) \<and>
    boot_log (tick_at pl) (boot_entries (vmz_buffer pl) (sched_stats pl) @ [(DriverLoaded, 10, 0, 0)]) (audit_log b) \<and>
    user_entry b \<in> {e_entry (elf_file pl), USER_CODE_VIRT} \<and>
    rip (core (processor b)) = user_entry b \<and> regs (core (processor b)) RSP = USER_STACK_TOP \<and>
    cs (processor b) = 0x33 \<and> ss (processor b) = 0x2B \<and> msr (processor b) IA32_LSTAR = stub_addr pl \<and>
    (header_error (elf_file pl) \<noteq> None \<longrightarrow> user_entry b = USER_CODE_VIRT \<and>
      program_at (fetch (paging_crate pl) off (user_memory b)) USER_CODE_VIRT code_page)"
proof -
  have h: "addresses_doc (paging_crate pl)" "map_to_doc (paging_crate pl) (boot_grows (paging_crate pl))" "map_to_succeeds (paging_crate pl)"
    "gdt_doc (segments_crate pl) used"
    "case framebuffer bi of Some (fmt, bpp, buf) \<Rightarrow> 0 < bpp \<and> (fmt = OtherFormat \<or> 3 \<le> bpp) | None \<Rightarrow> True"
    "physical_memory_offset bi = Some off" "unat off < 2 ^ 47" "regions_ok (boot_regions bi)"
    "boot_room (paging_crate pl) off (elf_file pl) mapper (BootInfoFrameAllocator_init (boot_regions bi))"
    "virt_add (paging_crate pl) (df_stack pl) 20480 \<noteq> None" "virt_add (paging_crate pl) (priv_stack pl) 32768 \<noteq> None"
    "unat (stub_stack pl) + 65536 < 2 ^ 64" "length (elf_file pl) < 2 ^ 64"
    "parse_madt mem off (rsdp_addr bi) = Some ids" "distinct ids"
    "length ids \<le> 1 \<or> drop_bit 24 (fst (dev_read (lapic pl) dev (off + LAPIC_PHYS + LAPIC_ID))) = 0"
    using bootable unfolding bootable_def by blast+
  let ?p = "paging_crate pl" and ?a = "BootInfoFrameAllocator_init (boot_regions bi)"
  let ?tick = "tick_at pl" and ?addr = "vmz_buffer pl" and ?st = "sched_stats pl"
  obtain scr where fb: "(case framebuffer bi of Some (fmt, bpp, buf) \<Rightarrow> map_option Some (fill_screen fmt bpp 26 22 71 buf)
      | None \<Rightarrow> Some None) = Some scr"
    by (rule screen_filled[OF h(5)])
  obtain g where g: "GDT (segments_crate pl) =
      Some (g, \<lparr>kernel_code = 0x08, kernel_data = 0x10, tss = 0x18, user_data = 0x2B, user_code = 0x33\<rparr>)"
    using GDT_selectors[OF h(4)] by blast
  obtain l0 where l0: "MealLog_new K_AUDIT = Some l0" "boot_log ?tick [] l0" using boot_log_new by blast
  have "boot_alloc_ok ?p ?a" using h(1,8) by (simp add: boot_alloc_ok_def BootInfoFrameAllocator_init_def)
  from user_ready[OF h(1-3) this h(9,13)]
  obtain m1 a1 m2 a2 where m: "init_heap ?p (allocate_frame ?p) mapper ?a = Some (Inr (HEAP_START, HEAP_SIZE), m1, a1)"
    "map_to ?p m1 0x50000 0x50000 {PRESENT, WRITABLE} a1 = Some (Inr (), m2, a2)"
    and user: "\<And>mem. \<exists>entry um. user_setup ?p (allocate_frame ?p) off (elf_file pl) \<lparr>ls_mapper = m2, ls_alloc = a2, ls_mem = mem\<rparr> = Some (entry, um) \<and>
       entry \<in> {e_entry (elf_file pl), USER_CODE_VIRT} \<and>
       (header_error (elf_file pl) \<noteq> None \<longrightarrow> entry = USER_CODE_VIRT \<and> program_at (fetch ?p off um) USER_CODE_VIRT code_page)" by blast
  have pg: "virt_page ?p 0x50000 = Some 0x50000" "phys_frame ?p 0x50000 = Some 0x50000" "virt_page ?p off = Some (page_down off)"
    using trampoline_page[OF h(1)] virt_page_low[OF h(1,7)] by simp_all
  obtain smp where smp: "smp_init (processors pl) (lapic pl) off (page_table pl) (rsdp_addr bi) (smp_at_boot mem dev) =
      Some (word_of_nat (1 + length (came_up (processors pl) (others ids))), smp)"
    using smp_init_returns[OF h(14,15) _ h(16), of "processors pl" "page_table pl"] h(7) by auto
  let ?mem = "\<lambda>x. if in_range ?addr 64 x then 0 else smp_mem smp x"
  obtain l1 l2 l3 l4 l5 l6 ch where d: "klog ?tick LogInitialised 0 0 0 l0 = Some l1" "demonstrate ?tick l1 = Some (tcd_outcome, l2)"
    "eipc_run_demo ?tick EipcChannel_new l2 = Some ((eipc_outcome, ch), l3)"
    "vmz_run_demo ?tick ?addr (smp_mem smp) l3 = Some ((vmz_outcome, ?mem), l4)"
    "lattice_run_demo ?tick SecurityLattice_default_blp l4 = Some ((lattice_outcome, add_ts_sci SecurityLattice_default_blp), l5)"
    "ztdf_run_demo ?tick l5 = Some (ztdf_outcome, l6)" "boot_log ?tick (demo_entries ?addr) l6"
    by (rule demos_run[OF l0(2)])
  obtain regs sp where s: "syscall_init (stub_addr pl) (stub_stack pl) (msr cpu) = Some (regs, sp)"
    using syscall_init_returns[OF h(12)] by blast
  obtain entry um where u: "user_setup ?p (allocate_frame ?p) off (elf_file pl) \<lparr>ls_mapper = m2, ls_alloc = a2, ls_mem = ?mem\<rparr> = Some (entry, um)"
    and entry: "entry \<in> {e_entry (elf_file pl), USER_CODE_VIRT}"
      "header_error (elf_file pl) \<noteq> None \<longrightarrow> entry = USER_CODE_VIRT \<and> program_at (fetch ?p off um) USER_CODE_VIRT code_page"
    using user[of ?mem] by blast
  obtain l7 l8 l9 frame where e: "klog ?tick ScbaFenceFired 0 (boot_fences ?st) 0 l6 = Some l7" "klog ?tick BootComplete 0 0 0 l7 = Some l8"
    "MealLog_verify_chain l8 = Some (19, True)"
    "MealLog_print_all l8 = Some (map print_row (history K_AUDIT (stamp ?tick 0 (boot_entries ?addr ?st))))"
    "net_run_demo ?tick l8 = Some ((''UDP datagram'', True, frame), l9)"
    "boot_log ?tick (boot_entries ?addr ?st @ [(DriverLoaded, 10, 0, 0)]) l9"
    by (rule audit_runs[OF d(7)])
  have "msr (enter sel entry (cpu\<lparr>msr := regs\<rparr>)) = regs" for sel by (simp add: enter_def iretq_def Let_def)
  note fin = this e(6) entry syscall_init_eq(3)[OF s]
  note steps = h(6) TSS_eq[OF h(1,10,11)] g l0(1) IDT_breakpoint pg m(1,2) smp d(1-6) s u e(1-5)
  show ?thesis
    unfolding kernel_main_def Let_def fb steps boot_fences_def[symmetric]
    by (simp add: steps breakpoint_handler_def) (use fin in \<open>simp add: enter_eq\<close>)
qed


text \<open>A machine with 48 MiB, two processors, a small screen and no file for the user program.\<close>

definition demo_platform :: "(u64 \<Rightarrow> (u64 \<times> flags) option, nat, unit) platform" where
  "demo_platform = \<lparr>paging_crate = boot_paging, segments_crate = counting_gdt, lapic = idle_lapic,
     processors = \<lparr>ap_main_addr = 0x9000, ap_stack = (\<lambda>_. 0), arrivals = (\<lambda>_. Some 3)\<rparr>, tick_at = word_of_nat, sched_stats = None,
     vmz_buffer = 0x444444440000, df_stack = 0x200000, priv_stack = 0x210000, stub_addr = 0x7000, stub_stack = 0x220000,
     page_table = 0x1000, elf_file = []\<rparr>"

definition demo_boot_info :: BootInfo where
  "demo_boot_info = \<lparr>framebuffer = Some (Bgr, 4, replicate 16 0), physical_memory_offset = Some 0, rsdp_addr = Some 0x1000,
     boot_regions = [MemoryRegion.make 0x1000000 0x4000000 True]\<rparr>"

lemma demo_boot_room: "boot_room boot_paging 0 [] (\<lambda>_. None) (BootInfoFrameAllocator_init (boot_regions demo_boot_info))"
proof -
  let ?a = "BootInfoFrameAllocator_init (boot_regions demo_boot_info)"
  have ok: "regions_ok (memory_regions ?a)" by (simp add: regions_ok_def demo_boot_info_def MemoryRegion.defs BootInfoFrameAllocator_init_def)
  have low: "unat f < 0x4000000" if "f \<in> set (usable_addrs ?a)" for f
    using usable_addrs_props(2)[OF ok, of f] that by (auto simp: demo_boot_info_def MemoryRegion.defs BootInfoFrameAllocator_init_def)
  have left: "frames_left ?a = 12288"
    by (simp add: frames_left_def usable_addrs_def demo_boot_info_def MemoryRegion.defs BootInfoFrameAllocator_init_def step_by_4096_def pages_from_def)
  have heap: "unat HEAP_START \<le> unat x \<and> unat x < unat HEAP_START + 2 ^ 23" if "x \<in> set heap_pages" for x
    using that by (auto simp: heap_pages_def pages_from_def HEAP_START_def unat_word_ariths unat_of_nat)
  have pages: "user_pages [] = [stack_page, USER_CODE_VIRT]" by (simp add: user_pages_def header_error_def)
  have "distinct (0x50000 # user_pages [])"
    by (simp add: pages stack_page_def USER_STACK_TOP_def USER_CODE_VIRT_def)
  moreover have "x \<in> set (0x50000 # user_pages []) \<Longrightarrow> x \<notin> set heap_pages" for x
    using heap[of x] page_constants(3,4) unfolding pages by (auto simp: HEAP_START_def)
  moreover have "lookup boot_paging (\<lambda>_. None) x = None" for x by (simp add: boot_paging_def demo_paging_def)
  ultimately show ?thesis using low left by (fastforce simp: boot_room_def pages header_error_def)
qed

lemma demo_bootable: "bootable demo_platform (\<lambda>n. n) demo_boot_info 0 (\<lambda>_. None) demo_tables [0, 1] ()"
proof -
  have "concat (map entry_cpu demo_cpus) = [0, 1]" by (simp add: demo_cpus_def slice_def from_le_bytes_def)
  then have madt: "parse_madt demo_tables 0 (rsdp_addr demo_boot_info) = Some [0, 1]"
    using parse_madt_eq[OF demo_acpi] by (simp add: demo_boot_info_def)
  have gdt: "gdt_doc counting_gdt (\<lambda>n. n)" by (simp add: gdt_doc_def counting_gdt_def)
  have virt: "virt_add boot_paging 0x200000 20480 \<noteq> None" "virt_add boot_paging 0x210000 32768 \<noteq> None"
    by (simp_all add: boot_paging_def demo_paging_def)
  have pl: "paging_crate demo_platform = boot_paging" "segments_crate demo_platform = counting_gdt" "elf_file demo_platform = []"
      "df_stack demo_platform = 0x200000" "priv_stack demo_platform = 0x210000" "stub_stack demo_platform = 0x220000"
      "lapic demo_platform = idle_lapic"
    by (simp_all add: demo_platform_def)
  have bi: "framebuffer demo_boot_info = Some (Bgr, 4, replicate 16 0)" "physical_memory_offset demo_boot_info = Some 0"
      "regions_ok (boot_regions demo_boot_info)"
    by (simp_all add: demo_boot_info_def MemoryRegion.defs regions_ok_def)
  show ?thesis
    unfolding bootable_def pl bi(1,2)
    using demo_boot(1,3) demo_boot(2)[of "boot_alloc_ok boot_paging" issued_frames] demo_boot_room gdt madt virt bi(3)
    by (simp add: idle_lapic_def)
qed

lemma demo_came_up: "came_up (processors demo_platform) (others [0, 1]) = [1]"
  by (simp add: came_up_def others_def demo_platform_def arrives_def MAX_CORES_def)


end
