(* ===== verification/Trampoline.thy ===== *)
theory Trampoline
  imports Smp_Start
begin

unbundle bit_operations_syntax

text \<open>
  The start-up code of the other processors, byte for byte: \<open>AP_TRAMPOLINE_BIN\<close> of
  \<open>kernel/src/smp.rs\<close> is decoded and executed from the reset state of a processor through
  protected mode into long mode, and shown to call \<open>ap_main\<close> with what the boot processor left in
  the control block.
\<close>

section \<open>The instructions of the start-up code\<close>

datatype ap_seg = DS | ES | SS

datatype ap_reg = RegRAX | RegRSP | RegRDI

datatype ap_instr =
  JmpRel u8 | MovAxCs | MovSeg ap_seg | Lgdt u16 | MovFromCr nat | MovToCr nat | OrAl u8 | OrEax u32 | JmpFar u16 u32 |
  MovEaxImm u32 | MovEcxImm u32 | BtsEax u8 | MovEaxMem u32 | Rdmsr | Wrmsr | MovRegMem ap_reg u32 | CallRax

definition decode16 :: "bytes \<Rightarrow> (ap_instr \<times> nat) option" where
  "decode16 bs =
     (if take 1 bs = [0xEB] then Some (JmpRel (bs ! 1), 2)
      else if take 2 bs = [0x8C, 0xC8] then Some (MovAxCs, 2)
      else if take 2 bs = [0x8E, 0xD8] then Some (MovSeg DS, 2)
      else if take 3 bs = [0x0F, 0x01, 0x16] then Some (Lgdt (from_le_bytes (slice 3 5 bs)), 5)
      else if take 3 bs = [0x0F, 0x20, 0xC0] then Some (MovFromCr 0, 3)
      else if take 3 bs = [0x0F, 0x22, 0xC0] then Some (MovToCr 0, 3)
      else if take 1 bs = [0x0C] then Some (OrAl (bs ! 1), 2)
      else if take 2 bs = [0x66, 0xEA] then Some (JmpFar (from_le_bytes (slice 6 8 bs)) (from_le_bytes (slice 2 6 bs)), 8)
      else None)"

definition decode32 :: "bytes \<Rightarrow> (ap_instr \<times> nat) option" where
  "decode32 bs =
     (if take 1 bs = [0xB8] then Some (MovEaxImm (from_le_bytes (slice 1 5 bs)), 5)
      else if take 1 bs = [0xB9] then Some (MovEcxImm (from_le_bytes (slice 1 5 bs)), 5)
      else if take 2 bs = [0x8E, 0xD8] then Some (MovSeg DS, 2)
      else if take 2 bs = [0x8E, 0xC0] then Some (MovSeg ES, 2)
      else if take 2 bs = [0x8E, 0xD0] then Some (MovSeg SS, 2)
      else if take 3 bs = [0x0F, 0x20, 0xC0] then Some (MovFromCr 0, 3)
      else if take 3 bs = [0x0F, 0x20, 0xE0] then Some (MovFromCr 4, 3)
      else if take 3 bs = [0x0F, 0x22, 0xC0] then Some (MovToCr 0, 3)
      else if take 3 bs = [0x0F, 0x22, 0xD8] then Some (MovToCr 3, 3)
      else if take 3 bs = [0x0F, 0x22, 0xE0] then Some (MovToCr 4, 3)
      else if take 3 bs = [0x0F, 0xBA, 0xE8] then Some (BtsEax (bs ! 3), 4)
      else if take 1 bs = [0xA1] then Some (MovEaxMem (from_le_bytes (slice 1 5 bs)), 5)
      else if take 2 bs = [0x0F, 0x32] then Some (Rdmsr, 2)
      else if take 2 bs = [0x0F, 0x30] then Some (Wrmsr, 2)
      else if take 1 bs = [0x0D] then Some (OrEax (from_le_bytes (slice 1 5 bs)), 5)
      else if take 1 bs = [0xEA] then Some (JmpFar (from_le_bytes (slice 5 7 bs)) (from_le_bytes (slice 1 5 bs)), 7)
      else None)"

definition decode64 :: "bytes \<Rightarrow> (ap_instr \<times> nat) option" where
  "decode64 bs =
     (if take 4 bs = [0x48, 0x8B, 0x24, 0x25] then Some (MovRegMem RegRSP (from_le_bytes (slice 4 8 bs)), 8)
      else if take 4 bs = [0x48, 0x8B, 0x3C, 0x25] then Some (MovRegMem RegRDI (from_le_bytes (slice 4 8 bs)), 8)
      else if take 4 bs = [0x48, 0x8B, 0x04, 0x25] then Some (MovRegMem RegRAX (from_le_bytes (slice 4 8 bs)), 8)
      else if take 2 bs = [0xFF, 0xD0] then Some (CallRax, 2)
      else None)"

section \<open>The processor\<close>

datatype code_size = Code16 | Code32 | Code64

text \<open>The state the start-up code works on. A segment register has its selector and its base.\<close>

record ap_cpu =
  t_size :: code_size
  t_base :: u64
  t_ip :: u64
  t_rax :: u64
  t_rcx :: u64
  t_rdx :: u64
  t_rsp :: u64
  t_rdi :: u64
  t_cs :: u16
  t_ds :: "u16 \<times> u64"
  t_es :: "u16 \<times> u64"
  t_ss :: "u16 \<times> u64"
  t_gdtr :: "u16 \<times> u64"
  t_cr0 :: u32
  t_cr3 :: u32
  t_cr4 :: u32
  t_efer :: u64
  t_ram :: mem

text \<open>Addresses are physical until paging is on; then \<open>tr cr3\<close> translates them.\<close>

definition ap_phys :: "(u32 \<Rightarrow> u64 \<Rightarrow> u64 option) \<Rightarrow> ap_cpu \<Rightarrow> u64 \<Rightarrow> u64 option" where
  "ap_phys tr c a = (if bit (t_cr0 c) 31 then tr (t_cr3 c) a else Some a)"

definition ap_read :: "(u32 \<Rightarrow> u64 \<Rightarrow> u64 option) \<Rightarrow> ap_cpu \<Rightarrow> u64 \<Rightarrow> nat \<Rightarrow> bytes option" where
  "ap_read tr c a n = those (map (\<lambda>i. map_option (t_ram c) (ap_phys tr c (a + word_of_nat i))) [0..<n])"

definition ap_write :: "(u32 \<Rightarrow> u64 \<Rightarrow> u64 option) \<Rightarrow> ap_cpu \<Rightarrow> u64 \<Rightarrow> bytes \<Rightarrow> ap_cpu option" where
  "ap_write tr c a bs = do {
     xs \<leftarrow> those (map (\<lambda>i. ap_phys tr c (a + word_of_nat i)) [0..<length bs]);
     Some (c\<lparr>t_ram := fold (\<lambda>(x, b) m. m(x := b)) (zip xs bs) (t_ram c)\<rparr>) }"

text \<open>A descriptor of the table; beyond the limit of the table there is none.\<close>

definition ap_descriptor :: "(u32 \<Rightarrow> u64 \<Rightarrow> u64 option) \<Rightarrow> ap_cpu \<Rightarrow> u16 \<Rightarrow> bytes option" where
  "ap_descriptor tr c sel =
     (if sel AND 0xFFF8 = 0 \<or> fst (t_gdtr c) < sel OR 7 then None
      else ap_read tr c (snd (t_gdtr c) + ucast (sel AND 0xFFF8)) 8)"

definition d_base :: "bytes \<Rightarrow> u64" where "d_base d = from_le_bytes [d ! 2, d ! 3, d ! 4, d ! 7]"
definition d_present :: "bytes \<Rightarrow> bool" where "d_present d = bit (d ! 5) 7"
definition d_code :: "bytes \<Rightarrow> bool" where "d_code d = bit (d ! 5) 3"
definition d_long :: "bytes \<Rightarrow> bool" where "d_long d = bit (d ! 6) 5"
definition d_big :: "bytes \<Rightarrow> bool" where "d_big d = bit (d ! 6) 6"

text \<open>Loading a data segment register: from the table in protected mode.\<close>

definition ap_segment :: "(u32 \<Rightarrow> u64 \<Rightarrow> u64 option) \<Rightarrow> ap_cpu \<Rightarrow> u16 \<Rightarrow> (u16 \<times> u64) option" where
  "ap_segment tr c sel =
     (if bit (t_cr0 c) 0
      then do { d \<leftarrow> ap_descriptor tr c sel; if d_present d \<and> \<not> d_code d then Some (sel, d_base d) else None }
      else Some (sel, push_bit 4 (ucast sel)))"

text \<open>A far jump in protected mode; a segment for 64-bit code is one if long mode is active.\<close>

definition ap_far :: "(u32 \<Rightarrow> u64 \<Rightarrow> u64 option) \<Rightarrow> ap_cpu \<Rightarrow> u16 \<Rightarrow> u32 \<Rightarrow> ap_cpu option" where
  "ap_far tr c sel off =
     (if \<not> bit (t_cr0 c) 0 then None
      else do {
        d \<leftarrow> ap_descriptor tr c sel;
        if \<not> (d_present d \<and> d_code d) then None
        else if bit (t_efer c) 10 \<and> d_long d
        then (if d_big d then None else Some (c\<lparr>t_size := Code64, t_base := 0, t_ip := ucast off, t_cs := sel\<rparr>))
        else Some (c\<lparr>t_size := (if d_big d then Code32 else Code16), t_base := d_base d, t_ip := ucast off, t_cs := sel\<rparr>) })"

text \<open>Writing \<open>cr0\<close>: paging needs protection, and with long mode enabled also the address extension;
  it then activates long mode.\<close>

definition ap_set_cr0 :: "ap_cpu \<Rightarrow> u32 \<Rightarrow> ap_cpu option" where
  "ap_set_cr0 c v =
     (if \<not> bit v 31 then Some (c\<lparr>t_cr0 := v\<rparr>)
      else if \<not> bit v 0 then None
      else if \<not> bit (t_efer c) 8 then Some (c\<lparr>t_cr0 := v\<rparr>)
      else if \<not> bit (t_cr4 c) 5 then None
      else Some (c\<lparr>t_cr0 := v, t_efer := t_efer c OR 0x400\<rparr>))"

definition EFER_MSR :: u32 where "EFER_MSR = 0xC0000080"

definition ap_exec :: "(u32 \<Rightarrow> u64 \<Rightarrow> u64 option) \<Rightarrow> ap_instr \<Rightarrow> ap_cpu \<Rightarrow> ap_cpu option" where
  "ap_exec tr ins c =
     (let eax = ucast (t_rax c) :: u32; ax = ucast (t_rax c) :: u16 in
      case ins of
        JmpRel d \<Rightarrow> Some (c\<lparr>t_ip := t_ip c + scast d\<rparr>)
      | MovAxCs \<Rightarrow> Some (c\<lparr>t_rax := (t_rax c AND NOT 0xFFFF) OR ucast (t_cs c)\<rparr>)
      | MovSeg s \<Rightarrow> do {
          v \<leftarrow> ap_segment tr c ax;
          Some (case s of DS \<Rightarrow> c\<lparr>t_ds := v\<rparr> | ES \<Rightarrow> c\<lparr>t_es := v\<rparr> | SS \<Rightarrow> c\<lparr>t_ss := v\<rparr>) }
      | Lgdt a \<Rightarrow> do {
          bs \<leftarrow> ap_read tr c (snd (t_ds c) + ucast a) 6;
          Some (c\<lparr>t_gdtr := (from_le_bytes (slice 0 2 bs), from_le_bytes (slice 2 5 bs))\<rparr>) }
      | MovFromCr n \<Rightarrow> Some (c\<lparr>t_rax := ucast (if n = 0 then t_cr0 c else if n = 3 then t_cr3 c else t_cr4 c)\<rparr>)
      | MovToCr n \<Rightarrow> (if n = 0 then ap_set_cr0 c eax else Some (if n = 3 then c\<lparr>t_cr3 := eax\<rparr> else c\<lparr>t_cr4 := eax\<rparr>))
      | OrAl v \<Rightarrow> Some (c\<lparr>t_rax := t_rax c OR ucast v\<rparr>)
      | OrEax v \<Rightarrow> Some (c\<lparr>t_rax := ucast (eax OR v)\<rparr>)
      | JmpFar sel off \<Rightarrow> ap_far tr c sel off
      | MovEaxImm v \<Rightarrow> Some (c\<lparr>t_rax := ucast v\<rparr>)
      | MovEcxImm v \<Rightarrow> Some (c\<lparr>t_rcx := ucast v\<rparr>)
      | BtsEax n \<Rightarrow> Some (c\<lparr>t_rax := ucast (eax OR push_bit (unat n mod 32) 1)\<rparr>)
      | MovEaxMem a \<Rightarrow> do { bs \<leftarrow> ap_read tr c (snd (t_ds c) + ucast a) 4; Some (c\<lparr>t_rax := ucast (from_le_bytes bs :: u32)\<rparr>) }
      | Rdmsr \<Rightarrow>
          (if ucast (t_rcx c) = EFER_MSR
           then Some (c\<lparr>t_rax := ucast (ucast (t_efer c) :: u32), t_rdx := ucast (ucast (drop_bit 32 (t_efer c)) :: u32)\<rparr>) else None)
      | Wrmsr \<Rightarrow>
          (if ucast (t_rcx c) = EFER_MSR
           then Some (c\<lparr>t_efer := ((push_bit 32 (t_rdx c) OR ucast eax) AND NOT 0x400) OR (t_efer c AND 0x400)\<rparr>) else None)
      | MovRegMem r a \<Rightarrow> do {
          bs \<leftarrow> ap_read tr c (scast a) 8;
          let v = from_le_bytes bs in
          Some (case r of RegRAX \<Rightarrow> c\<lparr>t_rax := v\<rparr> | RegRSP \<Rightarrow> c\<lparr>t_rsp := v\<rparr> | RegRDI \<Rightarrow> c\<lparr>t_rdi := v\<rparr>) }
      | CallRax \<Rightarrow> do {
          c' \<leftarrow> ap_write tr c (t_rsp c - 8) (to_le_bytes 8 (t_base c + t_ip c));
          Some (c'\<lparr>t_rsp := t_rsp c - 8, t_ip := t_rax c\<rparr>) })"

text \<open>One instruction: fetch, decode for the size of the code segment, execute.\<close>

definition ap_step :: "(u32 \<Rightarrow> u64 \<Rightarrow> u64 option) \<Rightarrow> ap_cpu \<Rightarrow> ap_cpu option" where
  "ap_step tr c = do {
     bs \<leftarrow> ap_read tr c (t_base c + t_ip c) 8;
     (ins, n) \<leftarrow> (case t_size c of Code16 \<Rightarrow> decode16 bs | Code32 \<Rightarrow> decode32 bs | Code64 \<Rightarrow> decode64 bs);
     ap_exec tr ins (c\<lparr>t_ip := t_ip c + word_of_nat n\<rparr>) }"

fun ap_run :: "nat \<Rightarrow> (u32 \<Rightarrow> u64 \<Rightarrow> u64 option) \<Rightarrow> ap_cpu \<Rightarrow> ap_cpu option" where
  "ap_run 0 tr c = Some c"
| "ap_run (Suc n) tr c = do { c \<leftarrow> ap_step tr c; ap_run n tr c }"

text \<open>What the start-up message does: 16-bit code at the page of the vector, protection and paging off.\<close>

definition sipi :: "u8 \<Rightarrow> ap_cpu \<Rightarrow> ap_cpu" where
  "sipi vec c = c\<lparr>t_size := Code16, t_base := push_bit 12 (ucast vec), t_ip := 0, t_cs := push_bit 8 (ucast vec),
     t_cr0 := 0x60000010, t_efer := t_efer c AND NOT 0x400\<rparr>"

section \<open>Reading the start-up page\<close>

text \<open>The page at \<open>0x50000\<close> as the processor sees it.\<close>

definition page_visible :: "(u32 \<Rightarrow> u64 \<Rightarrow> u64 option) \<Rightarrow> ap_cpu \<Rightarrow> bytes \<Rightarrow> bool" where
  "page_visible tr c page \<longleftrightarrow> load_bytes (t_ram c) 0x50000 4096 = page \<and>
     (bit (t_cr0 c) 31 \<longrightarrow> (\<forall>i < 4096. tr (t_cr3 c) (0x50000 + word_of_nat i) = Some (0x50000 + word_of_nat i)))"

lemma those_map_Some: "(\<And>i. i \<in> set is \<Longrightarrow> f i = Some (g i)) \<Longrightarrow> those (map f is) = Some (map g is)"
  by (induction "is") auto

lemma ap_read_page:
  assumes "page_visible tr c page" "unat (a - 0x50000) + n \<le> 4096"
  shows "ap_read tr c a n = Some (slice (unat (a - 0x50000)) (unat (a - 0x50000) + n) page)"
proof -
  define k where "k = unat (a - 0x50000)"
  have a: "a = 0x50000 + word_of_nat k" by (simp add: k_def)
  have len: "length page = 4096" using assms(1) by (auto simp: page_visible_def)
  have byte: "map_option (t_ram c) (ap_phys tr c (a + word_of_nat i)) = Some (slice k (k + n) page ! i)" if "i < n" for i
  proof -
    have j: "k + i < 4096" using that assms(2) by (simp add: k_def)
    have e: "a + word_of_nat i = 0x50000 + word_of_nat (k + i)" by (simp add: a)
    have "ap_phys tr c (0x50000 + word_of_nat (k + i)) = Some (0x50000 + word_of_nat (k + i))"
      using assms(1) j unfolding page_visible_def ap_phys_def by (simp del: of_nat_add)
    moreover have "t_ram c (0x50000 + word_of_nat (k + i)) = page ! (k + i)"
      using assms(1) j nth_load_bytes[of "k + i" 4096 "t_ram c" "0x50000"] by (simp add: page_visible_def)
    ultimately show ?thesis using that assms(2) len unfolding e by (simp add: slice_def k_def[symmetric])
  qed
  have "ap_read tr c a n = Some (map (\<lambda>i. slice k (k + n) page ! i) [0..<n])"
    unfolding ap_read_def by (rule those_map_Some) (use byte in simp)
  also have "map (\<lambda>i. slice k (k + n) page ! i) [0..<n] = slice k (k + n) page"
    using assms(2) len by (intro nth_equalityI) (simp_all add: k_def)
  finally show ?thesis by (simp add: k_def)
qed

text \<open>The page that the boot processor installs: the code, anything, and the control block.\<close>

definition start_page :: "bytes \<Rightarrow> u64 \<Rightarrow> u64 \<Rightarrow> u64 \<Rightarrow> u64 \<Rightarrow> bytes" where
  "start_page pad core cr3 stack_top fn = AP_TRAMPOLINE_BIN @ pad @ to_le_bytes 8 core @ to_le_bytes 8 cr3 @ to_le_bytes 8 stack_top @ to_le_bytes 8 fn"

lemma slice_code: "k + 8 \<le> 221 \<Longrightarrow> slice k (k + 8) (start_page pad core cr3 stack_top fn) = slice k (k + 8) AP_TRAMPOLINE_BIN"
  by (simp add: start_page_def slice_append length_trampoline)

lemma control_block:
  assumes "length pad = 3843"
  shows "slice 0xFE0 0xFE8 (start_page pad core cr3 stack_top fn) = to_le_bytes 8 core"
    "slice 0xFE8 0xFEC (start_page pad core cr3 stack_top fn) = take 4 (to_le_bytes 8 cr3)"
    "slice 0xFF0 0xFF8 (start_page pad core cr3 stack_top fn) = to_le_bytes 8 stack_top"
    "slice 0xFF8 0x1000 (start_page pad core cr3 stack_top fn) = to_le_bytes 8 fn"
  using assms by (simp_all add: start_page_def slice_append length_trampoline slice_def)

lemma page_tail:
  "slice 0xD8 0xE0 (start_page pad core cr3 stack_top fn) = [0xFF, 0xD0, 0xF4, 0xEB, 0xFD] @ take 3 (drop 221 (start_page pad core cr3 stack_top fn))"
  by (simp add: start_page_def slice_def AP_TRAMPOLINE_BIN_def)

lemma code16:
  "decode16 (slice 0x00 0x08 AP_TRAMPOLINE_BIN) = Some (JmpRel 0x3E, 2)"
  "decode16 (slice 0x40 0x48 AP_TRAMPOLINE_BIN) = Some (MovAxCs, 2)"
  "decode16 (slice 0x42 0x4A AP_TRAMPOLINE_BIN) = Some (MovSeg DS, 2)"
  "decode16 (slice 0x44 0x4C AP_TRAMPOLINE_BIN) = Some (Lgdt 2, 5)"
  "decode16 (slice 0x49 0x51 AP_TRAMPOLINE_BIN) = Some (MovFromCr 0, 3)"
  "decode16 (slice 0x4C 0x54 AP_TRAMPOLINE_BIN) = Some (OrAl 1, 2)"
  "decode16 (slice 0x4E 0x56 AP_TRAMPOLINE_BIN) = Some (MovToCr 0, 3)"
  "decode16 (slice 0x51 0x59 AP_TRAMPOLINE_BIN) = Some (JmpFar 0x08 0x50080, 8)"
  by (simp_all add: AP_TRAMPOLINE_BIN_def slice_def) (simp_all add: decode16_def slice_def from_le_bytes_def)

lemma code32:
  "decode32 (slice 0x80 0x88 AP_TRAMPOLINE_BIN) = Some (MovEaxImm 0x10, 5)"
  "decode32 (slice 0x85 0x8D AP_TRAMPOLINE_BIN) = Some (MovSeg DS, 2)"
  "decode32 (slice 0x87 0x8F AP_TRAMPOLINE_BIN) = Some (MovSeg ES, 2)"
  "decode32 (slice 0x89 0x91 AP_TRAMPOLINE_BIN) = Some (MovSeg SS, 2)"
  "decode32 (slice 0x8B 0x93 AP_TRAMPOLINE_BIN) = Some (MovFromCr 4, 3)"
  "decode32 (slice 0x8E 0x96 AP_TRAMPOLINE_BIN) = Some (BtsEax 5, 4)"
  "decode32 (slice 0x92 0x9A AP_TRAMPOLINE_BIN) = Some (MovToCr 4, 3)"
  "decode32 (slice 0x95 0x9D AP_TRAMPOLINE_BIN) = Some (MovEaxMem 0x50FE8, 5)"
  "decode32 (slice 0x9A 0xA2 AP_TRAMPOLINE_BIN) = Some (MovToCr 3, 3)"
  "decode32 (slice 0x9D 0xA5 AP_TRAMPOLINE_BIN) = Some (MovEcxImm 0xC0000080, 5)"
  "decode32 (slice 0xA2 0xAA AP_TRAMPOLINE_BIN) = Some (Rdmsr, 2)"
  "decode32 (slice 0xA4 0xAC AP_TRAMPOLINE_BIN) = Some (BtsEax 8, 4)"
  "decode32 (slice 0xA8 0xB0 AP_TRAMPOLINE_BIN) = Some (Wrmsr, 2)"
  "decode32 (slice 0xAA 0xB2 AP_TRAMPOLINE_BIN) = Some (MovFromCr 0, 3)"
  "decode32 (slice 0xAD 0xB5 AP_TRAMPOLINE_BIN) = Some (OrEax 0x80000000, 5)"
  "decode32 (slice 0xB2 0xBA AP_TRAMPOLINE_BIN) = Some (MovToCr 0, 3)"
  "decode32 (slice 0xB5 0xBD AP_TRAMPOLINE_BIN) = Some (JmpFar 0x18 0x500C0, 7)"
  by (simp_all add: AP_TRAMPOLINE_BIN_def slice_def) (simp_all add: decode32_def slice_def from_le_bytes_def)

lemma code64:
  "decode64 (slice 0xC0 0xC8 AP_TRAMPOLINE_BIN) = Some (MovRegMem RegRSP 0x50FF0, 8)"
  "decode64 (slice 0xC8 0xD0 AP_TRAMPOLINE_BIN) = Some (MovRegMem RegRDI 0x50FE0, 8)"
  "decode64 (slice 0xD0 0xD8 AP_TRAMPOLINE_BIN) = Some (MovRegMem RegRAX 0x50FF8, 8)"
  by (simp_all add: AP_TRAMPOLINE_BIN_def slice_def) (simp_all add: decode64_def slice_def from_le_bytes_def)

section \<open>Running the code\<close>

lemma ap_step_code:
  assumes "page_visible tr c (start_page pad core cr3 stack_top fn)" "unat (t_base c + t_ip c - 0x50000) + 8 \<le> 221"
  shows "ap_step tr c = do {
     (ins, n) \<leftarrow>
       (let bs = slice (unat (t_base c + t_ip c - 0x50000)) (unat (t_base c + t_ip c - 0x50000) + 8) AP_TRAMPOLINE_BIN
        in case t_size c of Code16 \<Rightarrow> decode16 bs | Code32 \<Rightarrow> decode32 bs | Code64 \<Rightarrow> decode64 bs);
     ap_exec tr ins (c\<lparr>t_ip := t_ip c + word_of_nat n\<rparr>) }"
  using ap_read_page[OF assms(1), of "t_base c + t_ip c" 8] slice_code[OF assms(2)] assms(2)
  by (simp add: ap_step_def Let_def)

lemma gdt_entries:
  "slice 0x02 0x08 (start_page pad core cr3 stack_top fn) = [0x1F, 0x00, 0x08, 0x00, 0x05, 0x00]"
  "slice 0x10 0x18 (start_page pad core cr3 stack_top fn) = [0xFF, 0xFF, 0x00, 0x00, 0x00, 0x9A, 0xCF, 0x00]"
  "slice 0x18 0x20 (start_page pad core cr3 stack_top fn) = [0xFF, 0xFF, 0x00, 0x00, 0x00, 0x92, 0xCF, 0x00]"
  "slice 0x20 0x28 (start_page pad core cr3 stack_top fn) = [0xFF, 0xFF, 0x00, 0x00, 0x00, 0x9A, 0xAF, 0x00]"
  by (simp_all add: start_page_def slice_append AP_TRAMPOLINE_BIN_def) (simp_all add: slice_def)

lemma ap_run_numeral: "ap_run (numeral k) tr c = do { c \<leftarrow> ap_step tr c; ap_run (pred_numeral k) tr c }"
  by (simp add: numeral_eq_Suc)

lemma sipi_0x50: "sipi 0x50 c = c\<lparr>t_size := Code16, t_base := 0x50000, t_ip := 0, t_cs := 0x5000, t_cr0 := 0x60000010,
    t_efer := t_efer c AND NOT 0x400\<rparr>"
  by (simp add: sipi_def)

lemma ucast_low: "ucast ((x :: u64) AND - 65536 OR y) = (ucast y :: u16)"
proof -
  have "(- 65536 :: u64) = NOT (mask 16)" by (simp add: mask_eq_exp_minus_1)
  then have "\<not> bit (- 65536 :: u64) n" if "n < 16" for n using that by (simp only: bit_not_iff bit_mask_iff) simp
  then show ?thesis by (intro bit_eqI) (auto simp: bit_simps)
qed

lemma gdtr_fields:
  "from_le_bytes (slice 0 2 [0x1F, 0x00, 0x08, 0x00, 0x05, 0x00]) = (0x1F :: u16)"
  "from_le_bytes (slice 2 5 [0x1F, 0x00, 0x08, 0x00, 0x05, 0x00]) = (0x50008 :: u64)"
  "from_le_bytes [0, 0, 0, 0] = (0 :: u64)"
  by (simp_all add: slice_def from_le_bytes_def)

lemmas exec_simps = Let_def ap_exec_def ap_segment_def ap_set_cr0_def ap_far_def ap_descriptor_def ucast_low gdt_entries gdtr_fields
  d_base_def d_present_def d_code_def d_long_def d_big_def

lemma phase16:
  assumes "load_bytes (t_ram c) 0x50000 4096 = start_page pad core cr3 stack_top fn"
  shows "ap_run 8 tr (sipi 0x50 c) = Some (c\<lparr>t_size := Code32, t_base := 0, t_ip := 0x50080, t_rax := 0x60000011, t_cs := 0x08,
    t_ds := (0x5000, 0x50000), t_gdtr := (0x1F, 0x50008), t_cr0 := 0x60000011, t_efer := t_efer c AND NOT 0x400\<rparr>)"
proof -
  let ?pg = "start_page pad core cr3 stack_top fn"
  have vis: "page_visible tr c' ?pg" if "t_ram c' = t_ram c" "\<not> bit (t_cr0 c') 31" for c'
    using assms that by (simp add: page_visible_def)
  note step = ap_step_code[OF vis]
  show ?thesis
    by (simp add: ap_run_numeral sipi_0x50 step code16 ap_read_page[OF vis] exec_simps)
qed

lemma low_word: "from_le_bytes (take 4 (to_le_bytes 8 x)) = (ucast (x :: u64) :: u32)"
proof -
  have "take 4 (to_le_bytes 8 x) = le_bytes 4 (unat x)" by (simp add: to_le_bytes_def le_bytes_map take_map)
  then have "from_le_bytes (take 4 (to_le_bytes 8 x)) = (word_of_nat (unat x mod 2 ^ 32) :: u32)"
    by (simp add: from_le_bytes_def le_nat_le_bytes)
  then show ?thesis by (simp add: word_unat_eq_iff unat_of_nat unsigned_ucast_eq take_bit_eq_mod)
qed

lemma word_halves:
  "ucast (ucast (v :: u32) :: u64) = v" "ucast (ucast (drop_bit 32 e) :: u32) = drop_bit 32 (e :: u64)"
proof -
  show "ucast (ucast v :: u64) = v" by (rule bit_eqI) (simp add: bit_simps)
  show "ucast (ucast (drop_bit 32 e) :: u32) = drop_bit 32 e"
    by (rule bit_eqI) (auto simp: bit_simps dest: bit_imp_le_length)
qed

lemma enable_long_mode:
  "(push_bit 32 (drop_bit 32 e) OR ucast (ucast e OR 256 :: u32)) AND - 1025 OR e AND 1024 = e OR 256" for e :: u64
proof (rule bit_eqI)
  have "(- 1025 :: u64) = NOT (2 ^ 10)" by simp
  then have m: "bit (- 1025 :: u64) n \<longleftrightarrow> n < 64 \<and> n \<noteq> 10" for n by (simp only: bit_not_iff bit_exp_iff) auto
  have h: "bit (256 :: int) n \<longleftrightarrow> n = 8" "bit (1024 :: int) n \<longleftrightarrow> n = 10" for n
    using bit_exp_iff[of 8 n, where ?'a = int] bit_exp_iff[of 10 n, where ?'a = int] by auto
  fix n assume "possible_bit TYPE(u64) n"
  then show "bit ((push_bit 32 (drop_bit 32 e) OR ucast (ucast e OR 256 :: u32)) AND - 1025 OR e AND 1024) n = bit (e OR 256) n"
    by (cases "n < 32") (auto simp: bit_simps m h)
qed

lemma bit_set: "bit ((x :: u32) OR 32) 5" "bit ((e :: u64) OR 256) 8" "bit ((e :: u64) OR 1024) 10"
  by (simp_all add: bit_simps)

lemma phase32:
  assumes "load_bytes (t_ram c) 0x50000 4096 = start_page pad core cr3 stack_top fn" "length pad = 3843"
    and "t_size c = Code32" "t_base c = 0" "t_ip c = 0x50080" "t_gdtr c = (0x1F, 0x50008)" "t_cr0 c = 0x60000011" "\<not> bit (t_efer c) 10"
    and "\<forall>i < 4096. tr (ucast cr3) (0x50000 + word_of_nat i) = Some (0x50000 + word_of_nat i)"
  shows "ap_run 17 tr c = Some (c\<lparr>t_size := Code64, t_base := 0, t_ip := 0x500C0, t_cs := 0x18, t_ds := (0x10, 0), t_es := (0x10, 0), t_ss := (0x10, 0),
    t_rax := 0xE0000011, t_rcx := 0xC0000080, t_rdx := drop_bit 32 (t_efer c), t_cr0 := 0xE0000011, t_cr3 := ucast cr3,
    t_cr4 := t_cr4 c OR 0x20, t_efer := (t_efer c OR 0x100) OR 0x400\<rparr>)"
proof -
  let ?pg = "start_page pad core cr3 stack_top fn"
  have vis: "page_visible tr c' ?pg" if "t_ram c' = t_ram c" "\<not> bit (t_cr0 c') 31" for c'
    using assms(1) that by (simp add: page_visible_def)
  have vis2: "page_visible tr c' ?pg" if "t_ram c' = t_ram c" "t_cr3 c' = ucast cr3" for c'
    using assms(1,9) that by (simp add: page_visible_def)
  show ?thesis
    by (simp add: ap_run_numeral assms(3-7) ap_step_code[OF vis] ap_step_code[OF vis2] code32 ap_read_page[OF vis]
      ap_read_page[OF vis2] exec_simps control_block[OF assms(2)] low_word word_halves enable_long_mode bit_set EFER_MSR_def)
qed

lemma phase64:
  assumes "load_bytes (t_ram c) 0x50000 4096 = start_page pad core cr3 stack_top fn" "length pad = 3843"
    and "t_size c = Code64" "t_base c = 0" "t_ip c = 0x500C0"
    and "\<forall>i < 4096. tr (t_cr3 c) (0x50000 + word_of_nat i) = Some (0x50000 + word_of_nat i)"
  shows "ap_run 3 tr c = Some (c\<lparr>t_ip := 0x500D8, t_rsp := stack_top, t_rdi := core, t_rax := fn\<rparr>)"
    "page_visible tr (c\<lparr>t_ip := 0x500D8, t_rsp := stack_top, t_rdi := core, t_rax := fn\<rparr>) (start_page pad core cr3 stack_top fn)"
proof -
  let ?pg = "start_page pad core cr3 stack_top fn"
  have vis: "page_visible tr c' ?pg" if "t_ram c' = t_ram c" "t_cr3 c' = t_cr3 c" for c'
    using assms(1,6) that by (simp add: page_visible_def)
  show "ap_run 3 tr c = Some (c\<lparr>t_ip := 0x500D8, t_rsp := stack_top, t_rdi := core, t_rax := fn\<rparr>)"
    by (simp add: ap_run_numeral assms(3-5) ap_step_code[OF vis] code64 ap_read_page[OF vis] exec_simps
      control_block[OF assms(2)] from_le_to_le)
  show "page_visible tr (c\<lparr>t_ip := 0x500D8, t_rsp := stack_top, t_rdi := core, t_rax := fn\<rparr>) ?pg"
    by (rule vis) simp_all
qed

text \<open>The call pushes the return address through the page tables.\<close>

lemma ap_call_step:
  assumes "page_visible tr c (start_page pad core cr3 stack_top fn)" "t_size c = Code64" "t_base c = 0" "t_ip c = 0x500D8"
    and "bit (t_cr0 c) 31" "\<And>i. i < 8 \<Longrightarrow> tr (t_cr3 c) (t_rsp c - 8 + word_of_nat i) = Some (phys i)"
  shows "ap_step tr c = Some (c\<lparr>t_ram := fold (\<lambda>(x, b) m. m(x := b)) (zip (map phys [0..<8]) (to_le_bytes 8 (0x500DA :: u64))) (t_ram c),
    t_rsp := t_rsp c - 8, t_ip := t_rax c\<rparr>)"
proof -
  have "ap_read tr c 0x500D8 8 = Some (slice 0xD8 0xE0 (start_page pad core cr3 stack_top fn))"
    using ap_read_page[OF assms(1), of "0x500D8" 8] by simp
  then have "ap_step tr c = ap_exec tr CallRax (c\<lparr>t_ip := 0x500DA\<rparr>)"
    using assms(2-4) by (simp add: ap_step_def page_tail decode64_def)
  moreover have "those (map (\<lambda>i. ap_phys tr (c\<lparr>t_ip := 0x500DA\<rparr>) (t_rsp c - 8 + word_of_nat i)) [0..<8]) = Some (map phys [0..<8])"
    by (rule those_map_Some) (use assms(5,6) in \<open>simp add: ap_phys_def\<close>)
  ultimately show ?thesis using assms(3) by (simp add: ap_exec_def ap_write_def)
qed

section \<open>From the start-up message to ap\_main\<close>

lemma installed_page:
  "load_bytes (install_at fn base cr3 core stack_top m) base 4096 =
     start_page (load_bytes m (base + 221) 3843) (ucast core) cr3 stack_top fn"
proof -
  let ?M = "install_at fn base cr3 core stack_top m"
  have parts: "load_bytes ?M base 4096 = load_bytes ?M base 221 @ load_bytes ?M (base + 221) 3843 @ load_bytes ?M (base + 0xFE0) 8 @
      load_bytes ?M (base + 0xFE8) 8 @ load_bytes ?M (base + 0xFF0) 8 @ load_bytes ?M (base + 0xFF8) 8"
    using load_bytes_split[of ?M base 221 3875] load_bytes_split[of ?M "base + 221" 3843 32]
      load_bytes_split[of ?M "base + 0xFE0" 8 24] load_bytes_split[of ?M "base + 0xFE8" 8 16] load_bytes_split[of ?M "base + 0xFF0" 8 8]
    by (simp add: add.assoc)
  have "load_bytes ?M base 221 = AP_TRAMPOLINE_BIN" "load_bytes ?M (base + 221) 3843 = load_bytes m (base + 221) 3843"
    by (simp_all add: install_at_def store64_def load_store_apart apart_offsets length_trampoline)
      (simp_all add: load_store_apart apart_def load_store_same length_trampoline)
  moreover have "load_bytes ?M (base + 0xFE0) 8 = to_le_bytes 8 (ucast core :: u64)" "load_bytes ?M (base + 0xFE8) 8 = to_le_bytes 8 cr3"
      "load_bytes ?M (base + 0xFF0) 8 = to_le_bytes 8 stack_top" "load_bytes ?M (base + 0xFF8) 8 = to_le_bytes 8 fn"
    by (simp_all add: install_at_def store64_def load_store_apart apart_offsets load_store_same)
      (simp_all add: load_store_apart apart_def load_store_same)
  ultimately show ?thesis unfolding parts start_page_def by simp
qed

text \<open>Physical memory as the boot processor's direct mapping shows it.\<close>

definition physical :: "u64 \<Rightarrow> mem \<Rightarrow> mem" where
  "physical off m a = m (off + a)"

lemma physical_page: "load_bytes (physical off m) a n = load_bytes m (off + a) n"
  by (simp add: load_bytes_def physical_def add.assoc)

lemma ap_run_add: "ap_run (n + k) tr c = do { c \<leftarrow> ap_run n tr c; ap_run k tr c }"
proof (induction n arbitrary: c)
  case (Suc n)
  then show ?case by (cases "ap_step tr c") simp_all
qed simp

text \<open>Writing through a list of addresses leaves the others alone.\<close>

lemma fold_writes_other: "x \<notin> set xs \<Longrightarrow> fold (\<lambda>(x, b) m. m(x := b)) (zip xs bs) m x = m x"
proof (induction xs arbitrary: bs m)
  case (Cons y ys)
  then show ?case by (cases bs) auto
qed simp

text \<open>C39: The start-up code works: let the boot processor prepare the page for a core as \<open>start_ap\<close> does, and let
  the page tables map that page to itself and the core's stack anywhere. Then a processor that
  receives the start-up message, whatever else its registers hold, arrives after 29 instructions in
  64-bit code at \<open>ap_main\<close>, with its core number as the argument and its own stack, with paging,
  the address extension and long mode on. It used the low 32 bits of the given page table address,
  and wrote nothing but the return address on its stack.\<close>

theorem trampoline_reaches_ap_main:
  assumes "t_ram c = physical off (start_mem env off cr3 core m)" "core < 8"
    and "\<forall>i < 4096. tr (ucast cr3) (0x50000 + word_of_nat i) = Some (0x50000 + word_of_nat i)"
    and "\<forall>i < 8. tr (ucast cr3) (ap_stack env core + 16384 - 8 + word_of_nat i) = Some (phys i)"
  shows "\<exists>c'. ap_run 29 tr (sipi 0x50 c) = Some c' \<and> t_size c' = Code64 \<and> t_base c' + t_ip c' = ap_main_addr env \<and>
    unat (t_rdi c') = core \<and> t_rsp c' = ap_stack env core + 16384 - 8 \<and> t_cr3 c' = ucast cr3 \<and>
    bit (t_cr0 c') 0 \<and> bit (t_cr0 c') 31 \<and> bit (t_cr4 c') 5 \<and> bit (t_efer c') 8 \<and> bit (t_efer c') 10 \<and>
    (\<forall>x. x \<notin> phys ` {..<8} \<longrightarrow> t_ram c' x = t_ram c x)"
proof -
  let ?st = "ap_stack env core + 16384" and ?fn = "ap_main_addr env" and ?core = "ucast (word_of_nat core :: u32) :: u64"
  let ?base = "off + 0x50000" and ?m0 = "m(off + 0x0FFE := 0, off + 0x50FFE := 0)"
  define pad where "pad = load_bytes ?m0 (?base + 221) 3843"
  have page: "load_bytes (t_ram c) 0x50000 4096 = start_page pad ?core cr3 ?st ?fn" and pad: "length pad = 3843"
    unfolding assms(1) physical_page start_mem_def installed_page pad_def by simp_all
  define c1 where "c1 = c\<lparr>t_size := Code32, t_base := 0, t_ip := 0x50080, t_rax := 0x60000011, t_cs := 0x08,
    t_ds := (0x5000, 0x50000), t_gdtr := (0x1F, 0x50008), t_cr0 := 0x60000011, t_efer := t_efer c AND NOT 0x400\<rparr>"
  have 1: "ap_run 8 tr (sipi 0x50 c) = Some c1" using phase16[OF page] by (simp add: c1_def)
  have "\<not> bit (t_efer c1) 10"
    using bit_exp_iff[of 10 10, where ?'a = u64] by (simp add: c1_def bit_and_iff bit_not_iff)
  note p32 = phase32[of c1 pad ?core cr3 ?st ?fn tr, OF _ pad _ _ _ _ _ this assms(3)]
  obtain c2 where 2: "ap_run 17 tr c1 = Some c2" "t_size c2 = Code64" "t_base c2 = 0" "t_ip c2 = 0x500C0" "t_cr0 c2 = 0xE0000011"
      "t_cr3 c2 = ucast cr3" "t_cr4 c2 = t_cr4 c1 OR 0x20" "t_efer c2 = (t_efer c1 OR 0x100) OR 0x400" "t_ram c2 = t_ram c"
    using p32 page by (simp add: c1_def)
  define c3 where "c3 = c2\<lparr>t_ip := 0x500D8, t_rsp := ?st, t_rdi := ?core, t_rax := ?fn\<rparr>"
  have 3: "ap_run 3 tr c2 = Some c3" "page_visible tr c3 (start_page pad ?core cr3 ?st ?fn)"
    using phase64[where c = c2 and tr = tr, OF _ pad 2(2-4)] page 2(6,9) assms(3) unfolding c3_def by simp_all
  obtain c4 where 4: "ap_step tr c3 = Some c4" "c4 = c3\<lparr>t_ram := fold (\<lambda>(x, b) m. m(x := b)) (zip (map phys [0..<8])
      (to_le_bytes 8 (0x500DA :: u64))) (t_ram c3), t_rsp := ?st - 8, t_ip := ?fn\<rparr>"
    using ap_call_step[OF 3(2), of phys] 2 assms(4) by (simp add: c3_def)
  have "ap_run (8 + 17 + 3 + 1) tr (sipi 0x50 c) = Some c4"
    unfolding ap_run_add using 1 2(1) 3(1) 4(1) by simp
  moreover have "unat ?core = core" using assms(2) by (simp add: unsigned_ucast_eq take_bit_eq_mod unat_of_nat)
  moreover have "t_ram c4 x = t_ram c x" if "x \<notin> phys ` {..<8}" for x
    using that 2(9) fold_writes_other[of x "map phys [0..<8]"] by (simp add: 4(2) c3_def lessThan_atLeast0)
  ultimately show ?thesis
    using 2 by (intro exI[of _ c4]) (simp add: 4(2) c3_def bit_set, simp add: bit_or_iff bit_set)
qed

definition cold_cpu :: "mem \<Rightarrow> ap_cpu" where
  "cold_cpu m = \<lparr>t_size = Code16, t_base = 0, t_ip = 0, t_rax = 0, t_rcx = 0, t_rdx = 0x600, t_rsp = 0, t_rdi = 0, t_cs = 0,
     t_ds = (0, 0), t_es = (0, 0), t_ss = (0, 0), t_gdtr = (0, 0), t_cr0 = 0x60000010, t_cr3 = 0, t_cr4 = 0, t_efer = 0, t_ram = m\<rparr>"

definition demo_env :: smp_env where
  "demo_env = \<lparr>ap_main_addr = 0x9000, ap_stack = (\<lambda>core. 0x100000 + word_of_nat core * 0x4000), arrivals = (\<lambda>_. Some 3)\<rparr>"

theorem trampoline_reaches_ap_main_witness:
  "\<exists>c'. ap_run 29 (\<lambda>_. Some) (sipi 0x50 (cold_cpu (physical 0x1000 (start_mem demo_env 0x1000 0x7000 1 (\<lambda>_. 0))))) = Some c' \<and>
     t_base c' + t_ip c' = 0x9000 \<and> unat (t_rdi c') = 1 \<and> t_rsp c' = 0x107FF8 \<and> t_cr3 c' = 0x7000"
  using trampoline_reaches_ap_main[of "cold_cpu (physical 0x1000 (start_mem demo_env 0x1000 0x7000 1 (\<lambda>_. 0)))" "0x1000" demo_env
      "0x7000" 1 "\<lambda>_. 0" "\<lambda>_. Some" "\<lambda>i. 0x107FF8 + word_of_nat i"]
  by (auto simp: cold_cpu_def demo_env_def)

end
