(* ===== verification/Identity_Map.thy ===== *)
theory Identity_Map
  imports Byte_Memory
begin

unbundle bit_operations_syntax

text \<open>
  The two functions of \<open>kernel/src/smp.rs\<close> that nothing calls: \<open>add_trampoline_identity_map\<close>, which
  edits the page tables directly, against the translation a processor makes with them, and
  \<open>logical_cpu_count\<close>.
\<close>

section \<open>The code\<close>

text \<open>The six messages the function may print before it returns.\<close>

datatype map_report = NoPml4 | NoPdpt | HugeGiB | NoPd | HugeMiB | Mapped

definition add_trampoline_identity_map :: "u64 \<Rightarrow> u64 \<Rightarrow> mem \<Rightarrow> (map_report \<times> mem) panics" where
  "add_trampoline_identity_map phys_offset cr3 m =
     (let virt = 0x50000; phys = 0x50000 in do {
     pml4 \<leftarrow> add_chk phys_offset cr3;
     let pml4e = load64 m pml4 in
     if pml4e AND 1 = 0 then Some (NoPml4, m) else do {
     pdpt \<leftarrow> add_chk phys_offset (pml4e AND NOT 0xFFF);
     let pdpte = load64 m pdpt in
     if pdpte AND 1 = 0 then Some (NoPdpt, m)
     else if pdpte AND push_bit 7 1 \<noteq> 0 then Some (HugeGiB, m) else do {
     pd \<leftarrow> add_chk phys_offset (pdpte AND NOT 0xFFF);
     let pde = load64 m pd in
     if pde AND 1 = 0 then Some (NoPd, m)
     else if pde AND push_bit 7 1 \<noteq> 0 then Some (HugeMiB, m) else do {
     pt \<leftarrow> add_chk phys_offset (pde AND NOT 0xFFF);
     let pt_idx = drop_bit 12 virt AND 0x1FF in
     Some (Mapped, store64 m (pt + 8 * pt_idx) (phys OR 0x003)) } } } })"

text \<open>\<open>CPUID\<close> leaf 1 gives the register.\<close>

definition logical_cpu_count :: "u32 \<Rightarrow> u32" where
  "logical_cpu_count ebx = max (drop_bit 16 ebx AND 0xFF) 1"

section \<open>The translation\<close>

text \<open>How a processor translates a low address with four levels of tables that the kernel sees at the
  offset: bit 0 of an entry says it is present, bit 7 that the page is large, and bits 12 to 51 are
  the address.\<close>

definition entry_addr :: "u64 \<Rightarrow> u64" where
  "entry_addr e = e AND 0x000FFFFFFFFFF000"

definition table_at :: "u64 \<Rightarrow> mem \<Rightarrow> u64 \<Rightarrow> u64 \<Rightarrow> u64 option" where
  "table_at off m table i = (let e = load64 m (off + table + 8 * i) in if bit e 0 then Some e else None)"

definition translate_low :: "u64 \<Rightarrow> u64 \<Rightarrow> mem \<Rightarrow> u64 \<Rightarrow> u64 option" where
  "translate_low off cr3 m v = do {
     pml4e \<leftarrow> table_at off m cr3 0;
     pdpte \<leftarrow> table_at off m (entry_addr pml4e) 0;
     if bit pdpte 7 then Some (entry_addr pdpte + v) else do {
     pde \<leftarrow> table_at off m (entry_addr pdpte) 0;
     if bit pde 7 then Some (entry_addr pde + v) else do {
     pte \<leftarrow> table_at off m (entry_addr pde) (drop_bit 12 v);
     Some (entry_addr pte + (v AND 0xFFF)) } } }"

lemma and_1_bit: "e AND 1 = 0 \<longleftrightarrow> \<not> bit e 0" for e :: u64
  by (simp add: and_one_eq odd_iff_mod_2_eq_one bit_0 flip: even_iff_mod_2_eq_zero)

lemma and_128_bit: "e AND 128 = 0 \<longleftrightarrow> \<not> bit e 7" for e :: u64
  using and_exp_eq_0_iff_not_bit[of e 7] by simp

lemma page_of_trampoline:
  assumes "0x50000 \<le> v" "v < 0x51000"
  shows "drop_bit 12 v = (0x50 :: u64)" "entry_addr 0x50003 + (v AND 0xFFF) = v"
proof -
  have b: "0x50000 \<le> unat v" "unat v < 0x51000" using assms by (simp_all add: word_le_nat_alt word_less_nat_alt)
  then have d: "unat v div 4096 = 0x50" by linarith
  then have "unat v mod 4096 = unat v - 0x50000" using minus_div_mult_eq_mod[of "unat v" 4096] by simp
  moreover have "v AND 0xFFF = take_bit 12 v" by (simp add: take_bit_eq_mask mask_eq_exp_minus_1)
  ultimately have u: "unat (drop_bit 12 v) = 0x50" "unat (v AND 0xFFF) = unat v - 0x50000"
    using d by (simp_all add: unsigned_drop_bit_eq unsigned_take_bit_eq take_bit_eq_mod drop_bit_eq_div unat_div unat_mod)
  then show "drop_bit 12 v = 0x50" using word_unat_eq_iff[of "drop_bit 12 v" "0x50"] by simp
  have "unat (0x50000 + (v AND 0xFFF)) = unat v" using u(2) b by (simp add: unat_word_ariths(1))
  then show "entry_addr 0x50003 + (v AND 0xFFF) = v" using word_unat_eq_iff by (simp add: entry_addr_def) blast
qed

text \<open>The entry for the page, and the tables on the way to it. The code takes all bits from 12 on for the
  address, which is right only if the bits from 52 on are clear.\<close>

definition plain :: "u64 \<Rightarrow> bool" where
  "plain e \<longleftrightarrow> e AND NOT 0xFFF = entry_addr e"

text \<open>The function does its job: if it reports success, the entries it followed have no high bits set and the
  last table does not overlap them, then the processor translates every address of the page to
  itself, and no byte but those of the one entry changed. If the entry points into a table elsewhere,
  nothing is said about it; and in the two cases of large pages the function reports that the page
  is covered without looking at where.\<close>

theorem identity_map_translates:
  assumes "add_trampoline_identity_map off cr3 m = Some (Mapped, m')"
    and "pml4e = load64 m (off + cr3)" "pdpte = load64 m (off + entry_addr pml4e)" "pde = load64 m (off + entry_addr pdpte)"
    and "plain pml4e" "plain pdpte" "plain pde"
    and "slot = off + entry_addr pde + 0x280"
    and "apart slot 8 (off + cr3) 8" "apart slot 8 (off + entry_addr pml4e) 8" "apart slot 8 (off + entry_addr pdpte) 8"
    and "0x50000 \<le> v" "v < 0x51000"
  shows "translate_low off cr3 m' v = Some v" "\<not> in_range slot 8 x \<Longrightarrow> m' x = m x"
proof -
  have s: "bit pml4e 0" "bit pdpte 0" "\<not> bit pdpte 7" "bit pde 0" "\<not> bit pde 7" "m' = store64 m slot 0x50003"
    using assms(1-8)
    by (auto simp: add_trampoline_identity_map_def Let_def and_1_bit and_128_bit plain_def bind_eq_Some_conv add_chk_eq_Some add.assoc
        split: if_splits)
  note idx = page_of_trampoline[OF assms(12,13)]
  have "bit (0x50003 :: u64) 0" by simp
  then show "translate_low off cr3 m' v = Some v"
    using s(1-5) idx assms(2-4,8) load64_store64_apart[OF assms(9), of m "0x50003"] load64_store64_apart[OF assms(10), of m "0x50003"]
      load64_store64_apart[OF assms(11), of m "0x50003"]
    by (simp add: translate_low_def table_at_def Let_def s(6))
  show "m' x = m x" if "\<not> in_range slot 8 x" using that by (simp add: s(6) store64_out)
qed

lemma logical_cpu_count_bounds: "1 \<le> logical_cpu_count e" "logical_cpu_count e \<le> 0xFF"
proof -
  have "drop_bit 16 e AND 0xFF \<le> 0xFF" by (rule word_and_le1)
  then show "1 \<le> logical_cpu_count e" "logical_cpu_count e \<le> 0xFF" by (auto simp: logical_cpu_count_def max_def)
qed

end
