(* ===== verification/Demo_Crypto.thy ===== *)
theory Demo_Crypto
  imports Axiom_Prelude
begin

unbundle bit_operations_syntax

text \<open>
  The placeholder hash of the first capability demonstration (\<open>kernel/src/axiom/demo_crypto.rs\<close>):
  FNV-1a mixed with a key. It notices every change of a single byte, as a checksum does, which is
  all that is claimed of it.
\<close>

definition FNV_OFFSET :: u64 where "FNV_OFFSET = 0xcbf29ce484222325"
definition FNV_PRIME :: u64 where "FNV_PRIME = 0x100000001b3"

definition keyed_hash :: "u64 \<Rightarrow> bytes \<Rightarrow> u64" where
  "keyed_hash key data =
     (let hash = FNV_OFFSET XOR key;
          hash = foldl (\<lambda>hash byte. (hash XOR ucast byte) * FNV_PRIME) hash data;
          hash = hash XOR word_rotl 32 key
      in hash * FNV_PRIME)"

definition tags_equal :: "u64 \<Rightarrow> u64 \<Rightarrow> bool" where
  "tags_equal a b = (let diff = a XOR b in diff = 0)"

lemma xor_inject: "(x :: 'a::len word) XOR z = y XOR z \<longleftrightarrow> x = y" "(z :: 'a word) XOR x = z XOR y \<longleftrightarrow> x = y"
  by (metis xor.assoc xor.right_neutral xor_self_eq) (metis xor.assoc xor.left_neutral xor_self_eq)

lemma tags_equal_iff: "tags_equal a b \<longleftrightarrow> a = b"
  using xor_inject(1)[of a b b] by (simp add: tags_equal_def)

text \<open>The prime is odd, hence invertible.\<close>

lemma prime_inject: "x * FNV_PRIME = y * FNV_PRIME \<longleftrightarrow> x = y"
proof
  assume "x * FNV_PRIME = y * FNV_PRIME"
  then have "x * FNV_PRIME * 0xce965057aff6957b = y * FNV_PRIME * 0xce965057aff6957b" by (rule arg_cong)
  moreover have "FNV_PRIME * 0xce965057aff6957b = 1" by (simp add: FNV_PRIME_def)
  ultimately show "x = y" by (simp only: mult.assoc mult_1_right)
qed simp

lemma ucast_8_64_inject: "(ucast (x :: u8) :: u64) = ucast y \<longleftrightarrow> x = y"
proof
  assume "(ucast x :: u64) = ucast y"
  then have "unat (ucast x :: u64) = unat (ucast y :: u64)" by simp
  then show "x = y"
    using unsigned_less[of x, where ?'a = nat] unsigned_less[of y, where ?'a = nat]
    by (simp add: unsigned_ucast_eq take_bit_eq_mod word_unat_eq_iff)
qed simp

lemma fnv_fold_inject:
  "foldl (\<lambda>hash byte. (hash XOR ucast byte) * FNV_PRIME) h (data :: bytes) =
   foldl (\<lambda>hash byte. (hash XOR ucast byte) * FNV_PRIME) h' data \<longleftrightarrow> h = h'"
  by (induction data arbitrary: h h') (simp_all add: prime_inject xor_inject)

text \<open>The placeholder hash notices every change of one byte, under every key, and its tags compare equal
  exactly when they are.\<close>

theorem keyed_hash_detects_byte:
  "tags_equal (keyed_hash key (pre @ b # post)) (keyed_hash key (pre @ b' # post)) \<longleftrightarrow> b = b'"
  by (simp add: tags_equal_iff keyed_hash_def Let_def prime_inject xor_inject fnv_fold_inject ucast_8_64_inject)

end
