(* ===== verification/Log_Buffer.thy ===== *)
theory Log_Buffer
  imports Axiom_Prelude
begin

text \<open>
  The interrupt-safe log ring (\<open>kernel/src/log_buffer.rs\<close>): the three statics are a record,
  the atomic counters wrap. Pushes and drains are shown to be a queue as long as the reader
  keeps within one lap of the writer, and what is read otherwise is determined.
\<close>

definition LOG_CAPACITY :: nat where "LOG_CAPACITY = 64"

datatype LogKind = Empty | ScbaStatus

record LogEntry =
  kind :: LogKind
  log_a :: u64
  log_b :: u64

record LogBuffer =
  ENTRIES :: "LogEntry list"
  WRITE_HEAD :: u64
  READ_HEAD :: u64

definition EMPTY :: LogEntry where
  "EMPTY = \<lparr>kind = Empty, log_a = 0, log_b = 0\<rparr>"

definition log_init :: LogBuffer where
  "log_init = \<lparr>ENTRIES = replicate LOG_CAPACITY EMPTY, WRITE_HEAD = 0, READ_HEAD = 0\<rparr>"

definition push :: "LogEntry \<Rightarrow> LogBuffer \<Rightarrow> LogBuffer" where
  "push entry s =
     (let idx = unat (WRITE_HEAD s) mod LOG_CAPACITY
      in s\<lparr>WRITE_HEAD := WRITE_HEAD s + 1, ENTRIES := (ENTRIES s)[idx := entry]\<rparr>)"

text \<open>\<open>drain\<close> returns the entries handed to its callback; their number is its result.\<close>

fun drain :: "nat \<Rightarrow> LogBuffer \<Rightarrow> LogEntry list \<times> LogBuffer" where
  "drain 0 s = ([], s)"
| "drain (Suc n) s =
     (let r = READ_HEAD s; w = WRITE_HEAD s in
      if w \<le> r then ([], s)
      else let entry = ENTRIES s ! (unat r mod LOG_CAPACITY) in
        if kind entry = Empty then ([], s)
        else let (es, s') = drain n (s\<lparr>READ_HEAD := r + 1\<rparr>) in (entry # es, s'))"

section \<open>What the ring holds\<close>

text \<open>The ring after the pushes \<open>h\<close> of which \<open>n\<close> are drained: a slot holds the latest entry
  pushed to it.\<close>

definition slot :: "LogEntry list \<Rightarrow> nat \<Rightarrow> LogEntry" where
  "slot h i = last (EMPTY # map ((!) h) (filter (\<lambda>k. k mod 64 = i) [0..<length h]))"

definition log_after :: "LogEntry list \<Rightarrow> nat \<Rightarrow> LogBuffer" where
  "log_after h n = \<lparr>ENTRIES = map (slot h) [0..<64], WRITE_HEAD = word_of_nat (length h), READ_HEAD = word_of_nat n\<rparr>"

lemma slot_snoc: "slot (h @ [e]) i = (if length h mod 64 = i then e else slot h i)"
proof -
  have "map ((!) (h @ [e])) (filter (\<lambda>k. k mod 64 = i) [0..<length h]) = map ((!) h) (filter (\<lambda>k. k mod 64 = i) [0..<length h])"
    by (auto simp: nth_append)
  then show ?thesis unfolding slot_def length_append_singleton upt_Suc_append[OF le0] filter_append
    by (simp only: map_append) simp
qed

lemma slot_recent: "j < length h \<Longrightarrow> length h \<le> j + 64 \<Longrightarrow> slot h (j mod 64) = h ! j"
proof (induction h rule: rev_induct)
  case (snoc e h)
  show ?case
  proof (cases "j = length h")
    case False
    with snoc.prems have j: "j < length h" "length h < j + 64" by auto
    then have "length h mod 64 \<noteq> j mod 64"
      using mod_eq_dvd_iff_nat[of j "length h" 64] by (auto dest: dvd_imp_le)
    then show ?thesis using snoc.IH j by (simp add: slot_snoc nth_append)
  qed (simp add: slot_snoc)
qed simp

lemma slot_kind: "\<forall>e \<in> set h. kind e \<noteq> Empty \<Longrightarrow> j < length h \<Longrightarrow> kind (slot h (j mod 64)) \<noteq> Empty"
proof (induction h rule: rev_induct)
  case (snoc e h)
  then show ?case by (cases "j = length h") (auto simp: slot_snoc)
qed simp

lemma unat_u64: "n < 2 ^ 64 \<Longrightarrow> unat (word_of_nat n :: u64) = n"
  by (simp add: unat_of_nat)

lemma push_after: "length h < 2 ^ 64 \<Longrightarrow> push e (log_after h n) = log_after (h @ [e]) n"
  by (auto simp: push_def log_after_def LOG_CAPACITY_def Let_def unat_u64 slot_snoc intro!: nth_equalityI)

lemma drain_after:
  assumes "\<forall>e \<in> set h. kind e \<noteq> Empty" "length h < 2 ^ 64"
  shows "n \<le> length h \<Longrightarrow> drain m (log_after h n) =
    (map (\<lambda>j. slot h (j mod 64)) [n..<min (n + m) (length h)], log_after h (min (n + m) (length h)))"
proof (induction m arbitrary: n)
  case (Suc m)
  show ?case
  proof (cases "n < length h")
    case True
    have le: "\<not> word_of_nat (length h) \<le> (word_of_nat n :: u64)"
      using True assms(2) by (simp add: word_le_nat_alt unat_u64)
    have slot: "ENTRIES (log_after h n) ! (unat (word_of_nat n :: u64) mod LOG_CAPACITY) = slot h (n mod 64)"
      using True assms(2) by (simp add: log_after_def LOG_CAPACITY_def unat_u64)
    have upd: "(log_after h n)\<lparr>READ_HEAD := word_of_nat n + 1\<rparr> = log_after h (Suc n)"
      by (simp add: log_after_def add.commute)
    have heads: "READ_HEAD (log_after h n) = word_of_nat n" "WRITE_HEAD (log_after h n) = word_of_nat (length h)"
      by (simp_all add: log_after_def)
    have "[n..<min (n + Suc m) (length h)] = n # [Suc n..<min (Suc n + m) (length h)]"
      using True by (simp add: upt_conv_Cons)
    then show ?thesis
      using Suc.IH[of "Suc n"] True le slot_kind[OF assms(1) True] by (simp add: slot upd heads Let_def)
  next
    case False
    with Suc.prems have "n = length h" by simp
    then show ?thesis by (simp add: log_after_def Let_def)
  qed
qed simp

lemma drain_recent:
  assumes "n \<le> length h" "length h \<le> n + 64"
  shows "map (\<lambda>j. slot h (j mod 64)) [n..<min (n + m) (length h)] = take m (drop n h)"
  using assms by (intro nth_equalityI) (auto simp: slot_recent min_def split: if_splits)

section \<open>A queue within one lap\<close>

datatype log_op = Push LogEntry | Drain nat

fun log_run :: "LogBuffer \<Rightarrow> log_op list \<Rightarrow> LogEntry list list \<times> LogBuffer" where
  "log_run s [] = ([], s)"
| "log_run s (Push e # ops) = log_run (push e s) ops"
| "log_run s (Drain m # ops) = (let (es, s) = drain m s; (rest, s) = log_run s ops in (es # rest, s))"

text \<open>The specification: a queue without bound, and the condition that no more than a ring of
  entries is ever unread.\<close>

fun queue_run :: "LogEntry list \<Rightarrow> log_op list \<Rightarrow> LogEntry list list \<times> LogEntry list" where
  "queue_run q [] = ([], q)"
| "queue_run q (Push e # ops) = queue_run (q @ [e]) ops"
| "queue_run q (Drain m # ops) = (let (rest, q') = queue_run (drop m q) ops in (take m q # rest, q'))"

fun keeps_up :: "nat \<Rightarrow> log_op list \<Rightarrow> bool" where
  "keeps_up k [] = True"
| "keeps_up k (Push e # ops) = (k < LOG_CAPACITY \<and> kind e \<noteq> Empty \<and> keeps_up (Suc k) ops)"
| "keeps_up k (Drain m # ops) = keeps_up (k - m) ops"

lemma log_run_after:
  assumes "\<forall>e \<in> set h. kind e \<noteq> Empty" "n \<le> length h" "length h \<le> n + 64" "length h + length ops < 2 ^ 64"
    "keeps_up (length h - n) ops"
  shows "fst (log_run (log_after h n) ops) = fst (queue_run (drop n h) ops)"
  using assms
proof (induction ops arbitrary: h n)
  case (Cons op ops)
  show ?case
  proof (cases op)
    case (Push e)
    have "length h - n < 64" using Cons.prems(5) by (simp add: Push LOG_CAPACITY_def)
    then show ?thesis
      using Cons.prems Cons.IH[of "h @ [e]" n] by (simp add: Push push_after Suc_diff_le)
  next
    case (Drain m)
    have lt: "length h < 2 ^ 64" using Cons.prems(4) by simp
    define n' where "n' = min (n + m) (length h)"
    have n': "n' \<le> length h" "length h \<le> n' + 64" "length h - n' = length h - n - m" "drop n' h = drop m (drop n h)"
      using Cons.prems(2,3) by (auto simp: n'_def min_def add.commute)
    show ?thesis
      using Cons.IH[of h n'] Cons.prems n' drain_recent[OF Cons.prems(2,3), of m]
      by (simp add: Drain drain_after[OF Cons.prems(1) lt Cons.prems(2)] n'_def[symmetric] case_prod_unfold Let_def)
  qed
qed simp

lemma log_init_after: "log_init = log_after [] 0"
  by (auto simp: log_init_def log_after_def slot_def LOG_CAPACITY_def intro!: nth_equalityI)

text \<open>C32: The log is a queue as long as it keeps up: for every sequence of pushes and drains in which at
  most 64 entries are unread at any time, the drains deliver exactly the pushed entries, each
  once and in order.\<close>

theorem log_is_queue:
  assumes "keeps_up 0 ops" "length ops < 2 ^ 64"
  shows "fst (log_run log_init ops) = fst (queue_run [] ops)"
  using log_run_after[of "[]" 0 ops] assms by (simp add: log_init_after)

definition status :: "u64 \<Rightarrow> LogEntry" where
  "status n = \<lparr>kind = ScbaStatus, log_a = n, log_b = 0\<rparr>"

theorem log_is_queue_witness:
  "fst (log_run log_init [Push (status 1), Push (status 2), Drain 1, Push (status 3), Drain 9]) =
    [[status 1], [status 2, status 3]]"
  using log_is_queue[of "[Push (status 1), Push (status 2), Drain 1, Push (status 3), Drain 9]"]
  by (simp del: log_run.simps) (simp add: status_def LOG_CAPACITY_def)

text \<open>An overrun corrupts what is read: when 65 entries are pushed before the reader comes, the oldest
  is lost, and the newest is delivered twice, first before all others and again at the end.\<close>

theorem log_overrun:
  assumes "length h = 65" "\<forall>e \<in> set h. kind e \<noteq> Empty"
  shows "fst (drain 65 (foldl (\<lambda>s e. push e s) log_init h)) = h ! 64 # tl h"
proof -
  have push: "foldl (\<lambda>s e. push e s) (log_after g 0) h' = log_after (g @ h') 0" if "length (g @ h') < 2 ^ 64" for g h'
    using that by (induction h' arbitrary: g) (simp_all add: push_after)
  have first: "slot h 0 = h ! 64" using slot_recent[of 64 h] assms(1) by simp
  have rest: "map (\<lambda>j. slot h (j mod 64)) [1..<65] = tl h"
    using drain_recent[of 1 h 64] assms(1) by (simp add: min_def drop_Suc)
  have "[0..<65] = (0::nat) # [1..<65]" by (simp add: upt_conv_Cons)
  with first rest show ?thesis
    using drain_after[OF assms(2), of 0 65] push[of "[]" h] assms(1) by (simp add: log_init_after)
qed

theorem log_overrun_witness:
  "fst (drain 65 (foldl (\<lambda>s e. push e s) log_init (map (\<lambda>i. status (word_of_nat i)) [0..<65]))) ! 0 = status 64"
  using log_overrun[of "map (\<lambda>i. status (word_of_nat i)) [0..<65]"]
  by (simp del: drain.simps foldl_Cons) (simp add: status_def)

end
