(* ===== verification/Spec2Isabelle.thy ===== *)
theory Spec2Isabelle
  imports Boot Trampoline Identity_Map Demo_Crypto Context_Switch Log_Buffer
begin

text \<open>
  Verification of the AXIOM OS kernel, an x86-64 kernel in Rust (\<open>src/kernel/src\<close>).

  \<^bold>\<open>The program.\<close> The boot loader calls \<open>kernel_main\<close> (\<open>main.rs\<close>), which fills the screen, loads the
  segments and the interrupt table, maps the heap, starts the other processors, opens the audit log,
  runs a demonstration of each security component, configures system calls, prepares the memory of
  a user program, audits its own log, and enters ring 3. The components are: hashing and
  authentication (\<open>crypto.rs\<close>), encryption (\<open>crypto_aead.rs\<close>, \<open>poly1305.rs\<close>), capabilities that expire
  (\<open>axiom/capability.rs\<close>), the audit log (\<open>meal.rs\<close>), the lattice of security labels (\<open>lattice.rs\<close>), the
  driver checker (\<open>ztdf.rs\<close>), encrypted messages (\<open>eipc.rs\<close>), zeroing (\<open>vmz.rs\<close>), tasks and scheduling
  (\<open>task.rs\<close>, \<open>scheduler.rs\<close>, \<open>interrupts.rs\<close>, \<open>context_switch.s\<close>), a log ring (\<open>log_buffer.rs\<close>), memory
  (\<open>memory.rs\<close>, \<open>allocator.rs\<close>), the loader (\<open>elf_loader.rs\<close>), system calls and user mode (\<open>syscall.rs\<close>,
  \<open>syscall_entry.s\<close>, \<open>gdt.rs\<close>, \<open>user.rs\<close>), the network (\<open>net.rs\<close>), and the other processors (\<open>smp.rs\<close>).

  \<^bold>\<open>How code is modelled.\<close> The kernel is built with overflow checks. A function that may panic returns
  an option, \<open>None\<close> being the panic; its own errors are values of the source's types. Machine integers
  are words of their width and arithmetic is checked (\<open>add_chk\<close>) or wraps as the source writes it;
  small \<open>usize\<close> indices are natural numbers. Structures are records with prefixed field names, enums
  are datatypes, arrays are lists of the array's length, and that length is part of the
  well-formedness predicates (\<open>MealLog_ok\<close>, \<open>Capability_ok\<close>, \<open>ch_inv\<close>). A static behind a lock is an
  argument and a result; whether the lock was free and what the timer showed are arguments. Raw
  memory is a function from addresses to bytes. Printing is left out, or is a list of rows.

  \<^bold>\<open>Library.\<close> \<open>Axiom_Prelude\<close> has the panicking arithmetic, byte conversions and lemmas on lists and
  words; \<open>Byte_Memory\<close> raw memory; \<open>Bounded_Queue\<close> the contract of a bounded queue and of a channel that
  seals what it carries; \<open>Mac_Record\<close> that of a record under an authentication code.

  \<^bold>\<open>Theories, and what they show.\<close>

  \<^item> \<open>Crypto\<close> (\<open>crypto.rs\<close>): the streaming hasher equals FIPS 180-4 for every way to split the input, and
    HMAC equals RFC 2104 for every key. \<open>Crypto_Aead\<close> (\<open>crypto_aead.rs\<close>): ChaCha20, HKDF, and
    encryption followed by HMAC. \<open>Poly1305\<close> (\<open>poly1305.rs\<close>): the arithmetic on two machine words equals the
    polynomial modulo \<open>2 ^ 130 - 5\<close>, and the combined cipher. Both ciphers are instances of the contract
    \<open>aead_scheme\<close>: opening accepts exactly what sealing produced. \<open>Demo_Crypto\<close>: the superseded hash.
  \<^item> \<open>Capability\<close>: derivation only loses rights and time, succeeds exactly under its conditions, and a
    changed capability is refused unless HMAC collides.
  \<^item> \<open>Meal\<close>: the ring of 64 entries refines the history of all events; it verifies, and a log that verifies
    is a window of the history or exhibits a collision. Deleting the newest entry goes unnoticed.
  \<^item> \<open>Security_Lattice\<close>: \<open>verify\<close> accepts exactly the bounded partial orders; information only flows
    upwards along permitted accesses; when joins and meets are right.
  \<^item> \<open>Ztdf\<close>: a driver performs exactly the longest prefix of its operations that its specification allows.
  \<^item> \<open>Eipc\<close>: the channel is a queue of four; messages arrive in order with their plaintexts.
  \<^item> \<open>Scheduler\<close> (\<open>task.rs\<close>, \<open>scheduler.rs\<close>, the timer of \<open>interrupts.rs\<close>): refinement of round robin,
    every task runs, the budget between fences. \<open>Context_Switch\<close> (\<open>context_switch.s\<close>,
    \<open>syscall_entry.s\<close>): both routines instruction by instruction.
  \<^item> \<open>Vmz\<close>, \<open>Log_Buffer\<close>, \<open>Framebuffer\<close>: zeroing leaves nothing of a secret; the ring is a queue up to its
    capacity, and what it does beyond; the pixels that are written.
  \<^item> \<open>Paging\<close> (\<open>memory.rs\<close>, \<open>allocator.rs\<close>): frames are given out once, the heap is backed by them.
    \<open>Elf_Loader\<close>: every byte of every segment is in place, with its permissions.
  \<^item> \<open>Syscall\<close> (\<open>syscall.rs\<close>, \<open>gdt.rs\<close>, exception handlers) and \<open>User_Mode\<close> (\<open>user.rs\<close>): every call is
    answered and logged, the rings fit together, the user's memory, and the built-in program run
    from it.
  \<^item> \<open>Net\<close>: headers round trip, datagrams arrive, what the receiver accepts.
  \<^item> \<open>Smp\<close>, \<open>Smp_Start\<close>, \<open>Trampoline\<close>, \<open>Identity_Map\<close> (\<open>smp.rs\<close>): the processors in the ACPI tables are
    found and those that answer are started and counted; the bytes of the start-up page take a
    processor from 16-bit to 64-bit code; the page table edit.
  \<^item> \<open>Demos\<close> (the \<open>run_demo\<close> functions) and \<open>Boot\<close> (\<open>main.rs\<close>, the task state segment): every
    demonstration has its announced outcome and adds exactly its entries to the audit log, and
    \<open>kernel_main\<close> gets from the boot loader to ring 3. Below, this is joined with the run of the
    user program, and the well-formedness invariants are put together.

  \<^bold>\<open>Parameters.\<close> The page table crate (\<open>addresses_doc\<close>, \<open>map_to_doc\<close>, \<open>map_to_succeeds\<close>), the descriptor table
  crate (\<open>gdt_doc\<close>) and the local interrupt controller are arguments, with their documented behaviour
  as hypotheses; \<open>boot_paging\<close>, \<open>counting_gdt\<close> and \<open>idle_lapic\<close> satisfy them. Cryptographic strength is
  never assumed: the theorems about tampering name the collision that an attack would have found.

  \<^bold>\<open>Bounds and fuel.\<close> All loops terminate: they recurse on lists, or have a termination proof. The
  waiting loops of \<open>smp.rs\<close> run over their own iteration counts, which the source bounds. A
  processor's start-up code is run for 29 instructions, the user program for seven, after which it
  provably spins; both runs are shown to succeed, so the counts are enough. \<open>boot_log\<close> bounds the
  entries of a boot by 1000, far above the 20 there are.

  \<^bold>\<open>Not modelled.\<close> The serial port (\<open>serial.rs\<close>) and all printing; the programming of the interrupt
  controller and the instructions that load the segment and interrupt tables, which library code
  executes; the heap allocator itself, a crate, so \<open>Vec\<close> and \<open>Box\<close> always have room; interleaving of the
  timer with the code it interrupts, except that the clock may show anything at any time; several
  processors running at once, except that a started processor may report in at any iteration of
  the loop that waits for it; speculation and timing, so the fences are recorded but their effect is
  not; the virtqueue types of \<open>net.rs\<close>, which nothing uses; the launcher (\<open>src/boot\<close>), the build
  scripts, the tests, the host scripts and the assembly sources that are not executed.
\<close>

section \<open>Properties across the components\<close>

text \<open>C18: The fixed-size arrays keep their sizes and the operations on well-formed records do not panic: minting and
  deriving give well-formed capabilities, appending keeps an audit log well-formed until its
  counter is exhausted, verifying and printing it return, sending and receiving keep a channel
  well-formed, whatever the contents and the arguments.\<close>

theorem records_stay_well_formed:
  "(length k = 32 \<longrightarrow>
      (\<exists>c. Capability_mint k oid r e = Some c \<and> Capability_ok c) \<and>
      (\<forall>c. Capability_ok c \<longrightarrow> (\<exists>v. Capability_verify c k now = Some v) \<and>
        (\<exists>d. Capability_derive c k now r e = Some d \<and> (case d of Some c' \<Rightarrow> Capability_ok c' | None \<Rightarrow> True)))) \<and>
   (MealLog_ok m \<and> length (chain_tip m) = 32 \<longrightarrow>
      (total m \<noteq> - 1 \<longrightarrow>
        (\<exists>m'. MealLog_append m t ev act a b = Some (total m, m') \<and> MealLog_ok m' \<and> length (chain_tip m') = 32)) \<and>
      (\<exists>v. MealLog_verify_chain m = Some v) \<and> (\<exists>rows. MealLog_print_all m = Some rows \<and> length rows \<le> CAPACITY)) \<and>
   (ch_inv ch \<longrightarrow>
      (\<exists>ok ch'. EipcChannel_enqueue ch msg = Some (ok, ch') \<and> ch_inv ch') \<and>
      (\<exists>r ch'. EipcChannel_dequeue ch = Some (r, ch') \<and> ch_inv ch'))"
proof (intro conjI impI)
  assume k: "length k = 32"
  then show "\<exists>c. Capability_mint k oid r e = Some c \<and> Capability_ok c" by (simp add: Capability_mint_eq)
  show "\<forall>c. Capability_ok c \<longrightarrow> (\<exists>v. Capability_verify c k now = Some v) \<and>
      (\<exists>d. Capability_derive c k now r e = Some d \<and> (case d of Some c' \<Rightarrow> Capability_ok c' | None \<Rightarrow> True))"
    using k by (simp add: Capability_verify_eq Capability_derive_eq)
next
  assume "MealLog_ok m \<and> length (chain_tip m) = 32"
  then have m: "MealLog_ok m" "length (chain_tip m) = 32" by simp_all
  show "\<exists>m'. MealLog_append m t ev act a b = Some (total m, m') \<and> MealLog_ok m' \<and> length (chain_tip m') = 32"
    if "total m \<noteq> - 1" using append_ok[OF m that] by blast
  show "\<exists>v. MealLog_verify_chain m = Some v" by (simp add: verify_chain_eq[OF m(1)])
  show "\<exists>rows. MealLog_print_all m = Some rows \<and> length rows \<le> CAPACITY"
    using m(1) length_cat_options[of "rotate (write_head m) (entries m)"] by (simp add: print_all_eq MealLog_ok_def visible_def)
next
  assume "ch_inv ch"
  then show "\<exists>ok ch'. EipcChannel_enqueue ch msg = Some (ok, ch') \<and> ch_inv ch'"
    "\<exists>r ch'. EipcChannel_dequeue ch = Some (r, ch') \<and> ch_inv ch'" by (rule enqueue_ok, rule dequeue_ok)
qed

theorem records_stay_well_formed_witness:
  "\<exists>c m m' ok ch'. Capability_mint K_AUDIT 1 READ 10 = Some c \<and> Capability_ok c \<and>
     MealLog_new K_AUDIT = Some m \<and> MealLog_append m 5 BootComplete 0 0 0 = Some (total m, m') \<and> MealLog_ok m' \<and>
     EipcChannel_enqueue EipcChannel_new \<lparr>sender_id = 1, msg_seq = 0, msg_nonce = [], msg_ct = [], ct_len = 0, msg_tag = []\<rparr> = Some (ok, ch') \<and>
     ch_inv ch'"
proof -
  obtain m where m: "MealLog_new K_AUDIT = Some m" "refines K_AUDIT m []" using refines_new[of K_AUDIT] by auto
  have ok: "MealLog_ok m" "length (chain_tip m) = 32" "total m \<noteq> - 1" "ch_inv EipcChannel_new"
    using refines_ok[OF m(2)] m(2) eipc_queue.empty_law by (auto simp: refines_def unat_eq_zero)
  show ?thesis
    using records_stay_well_formed[where k = K_AUDIT and oid = 1 and r = READ and e = 10 and m = m and t = 5 and ev = BootComplete
        and act = 0 and a = 0 and b = 0 and ch = EipcChannel_new
        and msg = "\<lparr>sender_id = 1, msg_seq = 0, msg_nonce = [], msg_ct = [], ct_len = 0, msg_tag = []\<rparr>"] m(1) ok
    by simp blast
qed



end
